(* ===== verification/Go_Prelude.thy ===== *)
theory Go_Prelude
  imports Main "HOL-Library.Word"
begin

text \<open>
  Shared vocabulary of the development: Go's error values, the result type of a fallible
  function, bytes, and the generic lemmas on lists, maps and results that the component
  theories use.

  A Go \<open>error\<close> is a value of type \<open>err\<close>.  A sentinel (\<open>var ErrX = errors.New(...)\<close>) is
  \<open>Sentinel\<close>, an error made on the spot (\<open>errors.New\<close>, \<open>fmt.Errorf\<close> without \<open>%w\<close>) is \<open>Errorf\<close>
  with its format and the text of its arguments, an error of a library or of the operating
  system is \<open>External\<close> with its text, \<open>fmt.Errorf\<close> with \<open>%w\<close> is \<open>Wrapf\<close>, \<open>errors.Join\<close> is
  \<open>Joined\<close>.  \<open>errors.Is\<close> searches the tree, so it is \<open>err_is\<close>.
\<close>

named_theorems error_simps "evaluation of errors.Is on the error values of the program"
named_theorems field_simps_go "record fields of freshly built values"

datatype sentinel =
    ErrDuplicateNullifier
  | ErrChallengeNotFound
  | ErrChallengeExpired
  | ErrChallengeConsumed
  | ErrSmtRootUnavailable
  | ErrIssuerCertUnavailable
  | ErrNoSource
  | ErrNoSources
  | ErrTruncated
  | ErrSkipVerify
  | EOF
  | ErrNotExist

datatype err =
    Sentinel sentinel
  | Errorf string "string list"
  | External string
  | Wrapf string "string list" err
  | Joined "err list"

type_synonym 'a result = "err + 'a"

primrec err_is :: "err \<Rightarrow> sentinel \<Rightarrow> bool" where
  "err_is (Sentinel s) t \<longleftrightarrow> s = t"
| "err_is (Errorf f as) t \<longleftrightarrow> False"
| "err_is (External m) t \<longleftrightarrow> False"
| "err_is (Wrapf f as e) t \<longleftrightarrow> err_is e t"
| "err_is (Joined es) t \<longleftrightarrow> list_ex (\<lambda>b. b) (map (\<lambda>e. err_is e t) es)"

text \<open>
  \<open>errors.Join\<close> drops nil errors and returns nil when nothing is left; a nil error is \<open>None\<close>.
\<close>

definition errors_Join :: "err option list \<Rightarrow> err option" where
  "errors_Join es =
     (case List.map_filter id es of [] \<Rightarrow> None | fs \<Rightarrow> Some (Joined fs))"

lemma errors_Join_None_iff: "errors_Join es = None \<longleftrightarrow> (\<forall>e \<in> set es. e = None)"
  by (induction es) (auto simp: errors_Join_def map_filter_simps split: list.splits option.splits)

lemma err_is_Joined: "err_is (Joined es) t \<longleftrightarrow> (\<exists>e \<in> set es. err_is e t)"
  by (auto simp: list_ex_iff)

lemmas [error_simps] = err_is.simps(1-4) err_is_Joined

text \<open>
  The contract of an encoder and its decoder: what the encoder accepts decodes to the encoded
  value, up to what the encoding is documented to forget (\<open>norm\<close>).  The packed application id
  (\<open>Public_Inputs\<close>) and the text of an SMT root (\<open>Smt_Root\<close>) provide it.
\<close>

locale codec =
  fixes enc :: "'a \<Rightarrow> 'w result"
    and dec :: "'w \<Rightarrow> 'b result"
    and norm :: "'a \<Rightarrow> 'b"
  assumes dec_enc: "enc a = Inr w \<Longrightarrow> dec w = Inr (norm a)"
begin

lemma enc_determines: "enc a = Inr w \<Longrightarrow> enc b = Inr w \<Longrightarrow> norm a = norm b"
  by (metis dec_enc sum.inject(2))

lemma enc_inj: "inj norm \<Longrightarrow> enc a = Inr w \<Longrightarrow> enc b = Inr w \<Longrightarrow> a = b"
  by (meson enc_determines injD)

lemma dec_of_enc_cases: "enc a = Inr w \<Longrightarrow> dec w = Inr b \<Longrightarrow> b = norm a"
  by (simp add: dec_enc)

end

text \<open>A Go byte is an unsigned 8-bit word; a Go string is a sequence of bytes, here of \<open>char\<close>.\<close>

type_synonym byte = "8 word"

definition byte_of_char :: "char \<Rightarrow> byte" where
  "byte_of_char c = of_nat (of_char c)"

definition char_of_byte :: "byte \<Rightarrow> char" where
  "char_of_byte b = char_of (unat b)"

definition bytes_of_string :: "string \<Rightarrow> byte list" where
  "bytes_of_string s = map byte_of_char s"

definition string_of_bytes :: "byte list \<Rightarrow> string" where
  "string_of_bytes bs = map char_of_byte bs"

lemma unat_byte_less [simp]: "unat (b :: byte) < 256"
  using unsigned_less [of b, where 'a = nat] by simp

lemma char_of_byte_of_char [simp]: "char_of_byte (byte_of_char c) = c"
  by (simp add: char_of_byte_def byte_of_char_def unat_of_nat)

lemma byte_of_char_of_byte [simp]: "byte_of_char (char_of_byte b) = b"
  by (simp add: char_of_byte_def byte_of_char_def)

lemma string_of_bytes_of_string [simp]: "string_of_bytes (bytes_of_string s) = s"
  by (simp add: string_of_bytes_def bytes_of_string_def comp_def)

lemma bytes_of_string_of_bytes [simp]: "bytes_of_string (string_of_bytes bs) = bs"
  by (simp add: string_of_bytes_def bytes_of_string_def comp_def)

lemma length_string_of_bytes [simp]: "length (string_of_bytes bs) = length bs"
  by (simp add: string_of_bytes_def)

lemma length_bytes_of_string [simp]: "length (bytes_of_string s) = length s"
  by (simp add: bytes_of_string_def)

lemma string_of_bytes_inject [simp]: "string_of_bytes as = string_of_bytes bs \<longleftrightarrow> as = bs"
  by (metis bytes_of_string_of_bytes)

lemma bytes_of_string_inject [simp]: "bytes_of_string s = bytes_of_string t \<longleftrightarrow> s = t"
  by (metis string_of_bytes_of_string)

text \<open>A Go map read with the two-value form: the value and whether the key was present.\<close>

lemma map_upd_triv_iff: "m(k \<mapsto> v) = m \<longleftrightarrow> m k = Some v"
  by (metis fun_upd_same fun_upd_triv)

end
