(* ===== verification/Go_Strings.thy ===== *)
theory Go_Strings
  imports Go_Prelude
begin

text \<open>
  The part of Go's \<open>strings\<close> package the program uses, over byte strings: \<open>TrimSpace\<close> (with
  the UTF-8 encodings of Unicode white space), \<open>HasPrefix\<close>, \<open>TrimPrefix\<close>, \<open>Contains\<close> and
  \<open>ToLower\<close>.  \<open>ToLower\<close> maps the ASCII letters; the program lowers only text that is then
  compared with ASCII text or decoded as hex digits.
\<close>

subsection \<open>Prefixes\<close>

definition HasPrefix :: "string \<Rightarrow> string \<Rightarrow> bool" where
  "HasPrefix s p \<longleftrightarrow> take (length p) s = p"

definition TrimPrefix :: "string \<Rightarrow> string \<Rightarrow> string" where
  "TrimPrefix s p = (if HasPrefix s p then drop (length p) s else s)"

fun Contains :: "string \<Rightarrow> string \<Rightarrow> bool" where
  "Contains [] sub \<longleftrightarrow> sub = []"
| "Contains (c # cs) sub \<longleftrightarrow> HasPrefix (c # cs) sub \<or> Contains cs sub"

lemma HasPrefix_iff: "HasPrefix s p \<longleftrightarrow> (\<exists>r. s = p @ r)"
  unfolding HasPrefix_def by (metis append_eq_conv_conj append_take_drop_id)

lemma HasPrefix_append [simp]: "HasPrefix (p @ r) p"
  by (simp add: HasPrefix_def)

lemma TrimPrefix_append [simp]: "TrimPrefix (p @ r) p = r"
  by (simp add: TrimPrefix_def)

lemma HasPrefix_Cons [simp]: "HasPrefix (c # s) (d # p) \<longleftrightarrow> c = d \<and> HasPrefix s p"
  by (simp add: HasPrefix_def)

lemma HasPrefix_Nil [simp]: "HasPrefix s []" and HasPrefix_of_Nil [simp]: "HasPrefix [] (d # p) = False"
  by (simp_all add: HasPrefix_def)

lemma Contains_append: "Contains s sub \<Longrightarrow> Contains (a @ s) sub"
  by (induction a) auto

lemma Contains_prefix: "Contains (sub @ b) sub"
  by (cases "sub @ b") (auto simp: HasPrefix_iff intro: sym)

lemma Contains_iff: "Contains s sub \<longleftrightarrow> (\<exists>a b. s = a @ sub @ b)"
proof
  show "Contains s sub \<Longrightarrow> \<exists>a b. s = a @ sub @ b"
  proof (induction s)
    case (Cons c cs)
    show ?case
    proof (cases "HasPrefix (c # cs) sub")
      case True
      then have "\<exists>b. c # cs = [] @ sub @ b" by (simp add: HasPrefix_iff)
      then show ?thesis by blast
    next
      case False
      with Cons obtain a b where "cs = a @ sub @ b" by auto
      then have "c # cs = (c # a) @ sub @ b" by simp
      then show ?thesis by blast
    qed
  qed simp
  show "\<exists>a b. s = a @ sub @ b \<Longrightarrow> Contains s sub"
    by (auto intro: Contains_append Contains_prefix)
qed

subsection \<open>TrimSpace\<close>

text \<open>The UTF-8 encodings of the code points for which \<open>unicode.IsSpace\<close> holds.\<close>

definition space_encodings :: "string list" where
  "space_encodings =
     map (map char_of)
       ([[9], [10], [11], [12], [13], [32 :: nat], [0xC2, 0x85], [0xC2, 0xA0], [0xE1, 0x9A, 0x80]]
        @ map (\<lambda>k. [0xE2, 0x80, k]) [0x80..<0x8B]
        @ [[0xE2, 0x80, 0xA8], [0xE2, 0x80, 0xA9], [0xE2, 0x80, 0xAF], [0xE2, 0x81, 0x9F],
           [0xE3, 0x80, 0x80]])"

function strip_any :: "string list \<Rightarrow> string \<Rightarrow> string" where
  "strip_any ps s =
     (case List.find (\<lambda>p. p \<noteq> [] \<and> HasPrefix s p) ps of
        None \<Rightarrow> s
      | Some p \<Rightarrow> strip_any ps (drop (length p) s))"
  by pat_completeness auto
termination
  by (relation "measure (\<lambda>(ps, s). length s)") (auto simp: find_Some_iff HasPrefix_iff)

declare strip_any.simps [simp del]

definition TrimSpace :: "string \<Rightarrow> string" where
  "TrimSpace s = rev (strip_any (map rev space_encodings) (rev (strip_any space_encodings s)))"

lemma strip_any_suffix: "\<exists>a. s = a @ strip_any ps s"
proof (induction ps s rule: strip_any.induct)
  case (1 ps s)
  show ?case
  proof (cases "List.find (\<lambda>p. p \<noteq> [] \<and> HasPrefix s p) ps")
    case None
    then show ?thesis by (simp add: strip_any.simps [of ps s])
  next
    case (Some p)
    with 1 obtain a where "drop (length p) s = a @ strip_any ps (drop (length p) s)" by blast
    then have "s = (take (length p) s @ a) @ strip_any ps (drop (length p) s)"
      by (metis append_assoc append_take_drop_id)
    moreover from Some have "strip_any ps s = strip_any ps (drop (length p) s)"
      by (simp add: strip_any.simps [of ps s])
    ultimately show ?thesis by metis
  qed
qed

lemma strip_any_done: "p \<in> set ps \<Longrightarrow> p \<noteq> [] \<Longrightarrow> \<not> HasPrefix (strip_any ps s) p"
proof (induction ps s rule: strip_any.induct)
  case (1 ps s)
  show ?case
  proof (cases "List.find (\<lambda>p. p \<noteq> [] \<and> HasPrefix s p) ps")
    case None
    then have "strip_any ps s = s" by (simp add: strip_any.simps [of ps s])
    moreover from None 1 have "\<not> HasPrefix s p" by (auto simp: find_None_iff)
    ultimately show ?thesis by simp
  next
    case (Some q)
    with 1 show ?thesis by (simp add: strip_any.simps [of ps s])
  qed
qed

lemma strip_any_id: "\<forall>p \<in> set ps. p \<noteq> [] \<longrightarrow> \<not> HasPrefix s p \<Longrightarrow> strip_any ps s = s"
proof -
  assume "\<forall>p \<in> set ps. p \<noteq> [] \<longrightarrow> \<not> HasPrefix s p"
  then have "List.find (\<lambda>p. p \<noteq> [] \<and> HasPrefix s p) ps = None"
    by (auto simp: find_None_iff)
  then show ?thesis by (simp add: strip_any.simps [of ps s])
qed

lemma strip_any_idem [simp]: "strip_any ps (strip_any ps s) = strip_any ps s"
  by (rule strip_any_id) (blast dest: strip_any_done)

lemma TrimSpace_idem [simp]: "TrimSpace (TrimSpace s) = TrimSpace s"
proof -
  let ?t = "strip_any space_encodings s"
  obtain a where "rev ?t = a @ strip_any (map rev space_encodings) (rev ?t)"
    using strip_any_suffix by blast
  then have t: "?t = TrimSpace s @ rev a"
    unfolding TrimSpace_def by (metis rev_append rev_rev_ident)
  have "strip_any space_encodings (TrimSpace s) = TrimSpace s"
  proof (rule strip_any_id, intro ballI impI notI)
    fix p assume "p \<in> set space_encodings" "p \<noteq> []" "HasPrefix (TrimSpace s) p"
    moreover from \<open>HasPrefix (TrimSpace s) p\<close> have "HasPrefix ?t p"
      unfolding t by (auto simp: HasPrefix_iff)
    ultimately show False by (metis strip_any_done)
  qed
  then show ?thesis by (simp add: TrimSpace_def [of "TrimSpace s"]) (simp add: TrimSpace_def)
qed

text \<open>
  Text whose first and last byte are printable ASCII is left alone: this is what the parsers
  need for numerals.
\<close>

definition graphic :: "char \<Rightarrow> bool" where
  "graphic c \<longleftrightarrow> 33 \<le> (of_char c :: nat) \<and> (of_char c :: nat) < 127"

lemma space_encodings_nongraphic:
  "p \<in> set space_encodings \<Longrightarrow> \<not> graphic (hd p) \<and> \<not> graphic (last p) \<and> p \<noteq> []"
  by (auto simp: space_encodings_def graphic_def)

lemma TrimSpace_graphic:
  assumes "s = [] \<or> graphic (hd s) \<and> graphic (last s)"
  shows "TrimSpace s = s"
proof -
  have l: "strip_any space_encodings s = s"
    by (rule strip_any_id) (use assms space_encodings_nongraphic in \<open>auto simp: HasPrefix_iff\<close>)
  have r: "strip_any (map rev space_encodings) (rev s) = rev s"
  proof (rule strip_any_id, intro ballI impI notI)
    fix p assume "p \<in> set (map rev space_encodings)" "p \<noteq> []" "HasPrefix (rev s) p"
    then obtain q where q: "p = rev q" "q \<in> set space_encodings" by auto
    from \<open>HasPrefix (rev s) p\<close> obtain u where u: "rev s = p @ u" by (auto simp: HasPrefix_iff)
    have "q \<noteq> []" "\<not> graphic (last q)" using space_encodings_nongraphic [OF q(2)] by auto
    moreover have "s = rev u @ q" using arg_cong [OF u, of rev] q by simp
    ultimately show False using assms by auto
  qed
  from l r show ?thesis by (simp add: TrimSpace_def)
qed

subsection \<open>Lower case\<close>

definition lower_char :: "char \<Rightarrow> char" where
  "lower_char c =
     (if 65 \<le> (of_char c :: nat) \<and> (of_char c :: nat) \<le> 90 then char_of ((of_char c :: nat) + 32) else c)"

definition ToLower :: "string \<Rightarrow> string" where
  "ToLower s = map lower_char s"

lemma length_ToLower [simp]: "length (ToLower s) = length s"
  by (simp add: ToLower_def)

lemma lower_char_idem [simp]: "lower_char (lower_char c) = lower_char c"
proof (cases "65 \<le> (of_char c :: nat) \<and> (of_char c :: nat) \<le> 90")
  case True
  then have "(of_char (char_of ((of_char c :: nat) + 32)) :: nat) = of_char c + 32"
    by simp
  with True show ?thesis by (simp add: lower_char_def)
qed (auto simp: lower_char_def)

lemma ToLower_idem [simp]: "ToLower (ToLower s) = ToLower s"
  by (simp add: ToLower_def)

lemma ToLower_append [simp]: "ToLower (s @ t) = ToLower s @ ToLower t"
  by (simp add: ToLower_def)

end
