(* ===== verification/Go_Numerals.thy ===== *)
theory Go_Numerals
  imports Go_Strings
begin

text \<open>
  The part of Go's \<open>math/big\<close> and \<open>encoding/hex\<close> packages the program uses: positional
  numerals over byte strings, \<open>big.Int.SetString\<close>, \<open>String\<close>, \<open>SetBytes\<close>, \<open>Bytes\<close>,
  \<open>BitLen\<close> and \<open>FillBytes\<close>, and \<open>hex.EncodeToString\<close> and \<open>DecodeString\<close>.  A \<open>big.Int\<close>
  is an \<open>int\<close>; where the program only has non-negative values it is a \<open>nat\<close>.  The lemmas are
  the round trips and value laws the parsers of the program rest on.
\<close>

named_theorems numeral_simps "round trips and value laws of positional numerals"

subsection \<open>Positional numerals\<close>

definition nat_of_digits :: "nat \<Rightarrow> nat list \<Rightarrow> nat" where
  "nat_of_digits b ds = foldl (\<lambda>a d. a * b + d) 0 ds"

function digits_of :: "nat \<Rightarrow> nat \<Rightarrow> nat list" where
  "digits_of b n = (if n < b \<or> b < 2 then [n] else digits_of b (n div b) @ [n mod b])"
  by pat_completeness auto
termination
  by (relation "measure snd") auto

declare digits_of.simps [simp del]

lemma nat_of_digits_Nil [simp]: "nat_of_digits b [] = 0"
  by (simp add: nat_of_digits_def)

lemma nat_of_digits_snoc [simp]: "nat_of_digits b (ds @ [d]) = nat_of_digits b ds * b + d"
  by (simp add: nat_of_digits_def)

lemma nat_of_digits_append:
  "nat_of_digits b (xs @ ys) = nat_of_digits b xs * b ^ length ys + nat_of_digits b ys"
  by (induction ys rule: rev_induct) (simp_all add: append_assoc [symmetric] algebra_simps del: append_assoc)

lemma nat_of_digits_Cons: "nat_of_digits b (d # ds) = d * b ^ length ds + nat_of_digits b ds"
  using nat_of_digits_append [of b "[d]" ds] by (simp add: nat_of_digits_def)

lemma nat_of_digits_single [simp]: "nat_of_digits b [d] = d"
  by (simp add: nat_of_digits_def)

lemma nat_of_digits_zeros [simp]: "nat_of_digits b (replicate k 0 @ ds) = nat_of_digits b ds"
  by (induction k) (simp_all add: nat_of_digits_Cons)

lemma nat_of_digits_less: "\<forall>d \<in> set ds. d < b \<Longrightarrow> nat_of_digits b ds < b ^ length ds"
proof (induction ds)
  case (Cons d ds)
  then have "nat_of_digits b ds < b ^ length ds" "d < b" by auto
  then have "d * b ^ length ds + nat_of_digits b ds < (d + 1) * b ^ length ds" by simp
  also have "\<dots> \<le> b * b ^ length ds" using \<open>d < b\<close> by (intro mult_le_mono1) simp
  finally show ?case by (simp add: nat_of_digits_Cons)
qed simp

text \<open>Digit strings of one length are determined by their value.\<close>

lemma nat_of_digits_inj:
  assumes "length xs = length ys" "\<forall>d \<in> set xs. d < b" "\<forall>d \<in> set ys. d < b"
    and "nat_of_digits b xs = nat_of_digits b ys"
  shows "xs = ys"
  using assms
proof (induction xs ys rule: rev_induct2)
  case (4 x xs y ys)
  then have eq: "nat_of_digits b xs * b + x = nat_of_digits b ys * b + y" by simp
  have "x < b" "y < b" using 4 by auto
  then have "x = (nat_of_digits b xs * b + x) mod b" "y = (nat_of_digits b ys * b + y) mod b" by simp_all
  with eq have "x = y" by simp
  moreover from this eq \<open>x < b\<close> have "nat_of_digits b xs = nat_of_digits b ys" by simp
  ultimately show ?case using 4 by simp
qed auto

lemma digits_of_nonempty [simp]: "digits_of b n \<noteq> []"
  by (subst digits_of.simps) simp

lemma nat_of_digits_of [simp, numeral_simps]: "nat_of_digits b (digits_of b n) = n"
proof (induction b n rule: digits_of.induct)
  case (1 b n)
  then show ?case by (subst digits_of.simps) (auto simp: div_mult_mod_eq)
qed

lemma digits_of_less: "2 \<le> b \<Longrightarrow> d \<in> set (digits_of b n) \<Longrightarrow> d < b"
proof (induction b n rule: digits_of.induct)
  case (1 b n)
  then show ?case by (subst (asm) (2) digits_of.simps) (auto split: if_splits)
qed

lemma hd_digits_of: "2 \<le> b \<Longrightarrow> n \<noteq> 0 \<Longrightarrow> hd (digits_of b n) \<noteq> 0"
proof (induction b n rule: digits_of.induct)
  case (1 b n)
  show ?case
  proof (cases "n < b")
    case True
    with 1 show ?thesis by (subst digits_of.simps) simp
  next
    case False
    with 1 have "hd (digits_of b (n div b)) \<noteq> 0" by (simp add: div_eq_0_iff)
    with False 1 show ?thesis by (subst digits_of.simps) simp
  qed
qed

lemma digits_of_lower: "2 \<le> b \<Longrightarrow> n \<noteq> 0 \<Longrightarrow> b ^ (length (digits_of b n) - 1) \<le> n"
proof -
  assume b: "2 \<le> b" and n: "n \<noteq> 0"
  obtain d ds where ds: "digits_of b n = d # ds" by (cases "digits_of b n") auto
  have "d \<noteq> 0" using hd_digits_of [OF b n] ds by simp
  then have "1 * b ^ length ds \<le> d * b ^ length ds" by (intro mult_le_mono1) simp
  also have "\<dots> \<le> nat_of_digits b (d # ds)" by (simp add: nat_of_digits_Cons)
  also have "\<dots> = n" by (metis ds nat_of_digits_of)
  finally show ?thesis using ds by simp
qed

lemma digits_of_upper: "2 \<le> b \<Longrightarrow> n < b ^ length (digits_of b n)"
  using nat_of_digits_less [of "digits_of b n" b] digits_of_less [of b _ n] by auto

lemma length_digits_of_le: "2 \<le> b \<Longrightarrow> 0 < k \<Longrightarrow> length (digits_of b n) \<le> k \<longleftrightarrow> n < b ^ k"
proof
  assume b: "2 \<le> b" and k: "0 < k"
  show "length (digits_of b n) \<le> k \<Longrightarrow> n < b ^ k"
    using digits_of_upper [OF b, of n] power_increasing [of "length (digits_of b n)" k b] b by linarith
  assume n: "n < b ^ k"
  show "length (digits_of b n) \<le> k"
  proof (cases "n = 0")
    case True
    with b k show ?thesis by (subst digits_of.simps) auto
  next
    case False
    then have "b ^ (length (digits_of b n) - 1) < b ^ k"
      using digits_of_lower [OF b] n by (meson le_less_trans)
    then have "length (digits_of b n) - 1 < k"
      using b by (simp add: power_strict_increasing_iff)
    then show ?thesis by simp
  qed
qed

subsection \<open>Numerals as text: big.Int.SetString and String\<close>

definition digit_val :: "char \<Rightarrow> nat option" where
  "digit_val c =
     (let k = of_char c in
      if 48 \<le> k \<and> k \<le> 57 then Some (k - 48)
      else if 97 \<le> k \<and> k \<le> 122 then Some (k - 87)
      else if 65 \<le> k \<and> k \<le> 90 then Some (k - 55)
      else None)"

definition digit_in :: "nat \<Rightarrow> char \<Rightarrow> nat option" where
  "digit_in b c = (case digit_val c of None \<Rightarrow> None | Some d \<Rightarrow> if d < b then Some d else None)"

definition digit_char :: "nat \<Rightarrow> char" where
  "digit_char d = char_of (if d < 10 then 48 + d else 87 + d)"

definition scan_nat :: "nat \<Rightarrow> string \<Rightarrow> nat option" where
  "scan_nat b s = (if s = [] then None else map_option (nat_of_digits b) (those (map (digit_in b) s)))"

definition nat_string :: "nat \<Rightarrow> nat \<Rightarrow> string" where
  "nat_string b n = map digit_char (digits_of b n)"

text \<open>
  \<open>SetString\<close> takes an optional sign and then digits of the base, and fails unless the whole
  text is used.
\<close>

definition SetString :: "string \<Rightarrow> nat \<Rightarrow> int option" where
  "SetString s b =
     (case s of
        [] \<Rightarrow> None
      | c # r \<Rightarrow>
          if c = CHR ''-'' then map_option (\<lambda>n. - int n) (scan_nat b r)
          else if c = CHR ''+'' then map_option int (scan_nat b r)
          else map_option int (scan_nat b s))"

definition Int_String :: "int \<Rightarrow> string" where
  "Int_String i = (if i < 0 then ''-'' @ nat_string 10 (nat (- i)) else nat_string 10 (nat i))"

lemma those_Some_iff: "those xs = Some ys \<longleftrightarrow> xs = map Some ys"
proof (induction xs arbitrary: ys)
  case (Cons x xs)
  then show ?case by (cases ys) (auto split: option.splits)
qed auto

lemma digit_val_digit_char: "d < 36 \<Longrightarrow> digit_val (digit_char d) = Some d"
  by (auto simp: digit_val_def digit_char_def Let_def)

lemma digit_in_digit_char [simp]: "d < b \<Longrightarrow> b \<le> 36 \<Longrightarrow> digit_in b (digit_char d) = Some d"
  by (simp add: digit_in_def digit_val_digit_char)

lemma digit_in_less: "digit_in b c = Some d \<Longrightarrow> d < b"
  by (auto simp: digit_in_def split: option.splits if_splits)

lemma scan_nat_string [simp, numeral_simps]:
  assumes "2 \<le> b" "b \<le> 36"
  shows "scan_nat b (nat_string b n) = Some n"
proof -
  have "map (digit_in b) (nat_string b n) = map Some (digits_of b n)"
    using assms digits_of_less [of b _ n] by (simp add: nat_string_def)
  then have "those (map (digit_in b) (nat_string b n)) = Some (digits_of b n)"
    by (simp add: those_Some_iff)
  then show ?thesis by (simp add: scan_nat_def) (simp add: nat_string_def)
qed

lemma digit_in_zero [simp]: "digit_in 16 (CHR ''0'') = Some 0"
  by (simp add: digit_in_def digit_val_def)

lemma scan_nat_zeros:
  assumes "s \<noteq> []"
  shows "scan_nat 16 (replicate k (CHR ''0'') @ s) = scan_nat 16 s"
proof -
  have "those (map (digit_in 16) (replicate k (CHR ''0'') @ s))
      = map_option ((@) (replicate k 0)) (those (map (digit_in 16) s))"
    by (induction k) (simp_all add: option.map_comp comp_def option.map_ident)
  with assms show ?thesis by (simp add: scan_nat_def option.map_comp comp_def)
qed

lemma of_char_digit_char: "d < 36 \<Longrightarrow> of_char (digit_char d) = (if d < 10 then 48 + d else 87 + d)"
  by (auto simp: digit_char_def)

lemma graphic_digit_char: "d < 36 \<Longrightarrow> graphic (digit_char d)"
  by (simp add: graphic_def of_char_digit_char)

lemma nat_string_nonempty [simp]: "nat_string b n \<noteq> []"
  by (simp add: nat_string_def)

lemma nat_string_chars:
  assumes "2 \<le> b" "b \<le> 36" "c \<in> set (nat_string b n)"
  shows "\<exists>d < b. c = digit_char d"
  using assms digits_of_less [of b _ n] by (auto simp: nat_string_def)

lemma digit_char_neq:
  assumes "d < 36"
  shows "digit_char d \<noteq> CHR ''-''" "digit_char d \<noteq> CHR ''+''" "digit_char d \<noteq> CHR ''X''"
    "d < 16 \<Longrightarrow> digit_char d \<noteq> CHR ''x''"
  using of_char_digit_char [OF assms] by (auto split: if_splits)

lemma SetString_nat_string [simp, numeral_simps]:
  assumes "2 \<le> b" "b \<le> 36"
  shows "SetString (nat_string b n) b = Some (int n)"
proof -
  obtain c r where cr: "nat_string b n = c # r" by (cases "nat_string b n") auto
  then obtain d where "d < b" "c = digit_char d" using nat_string_chars [OF assms, of c n] by auto
  then have "c \<noteq> CHR ''-''" "c \<noteq> CHR ''+''" using digit_char_neq [of d] assms by auto
  then show ?thesis using scan_nat_string [OF assms, of n] cr by (simp add: SetString_def)
qed

lemma SetString_Int_String [simp, numeral_simps]: "SetString (Int_String i) 10 = Some i"
proof (cases "i < 0")
  case True
  then show ?thesis by (simp add: Int_String_def SetString_def)
qed (simp add: Int_String_def)

lemma Int_String_inject [simp]: "Int_String i = Int_String j \<longleftrightarrow> i = j"
  by (metis SetString_Int_String option.inject)

lemma graphic_Int_String: "c \<in> set (Int_String i) \<Longrightarrow> graphic c"
proof -
  assume "c \<in> set (Int_String i)"
  moreover have "graphic CHR ''-''" by (simp add: graphic_def)
  moreover have "c \<in> set (nat_string 10 n) \<Longrightarrow> graphic c" for n
    using nat_string_chars [of 10 c n] graphic_digit_char by fastforce
  ultimately show "graphic c" by (auto simp: Int_String_def split: if_splits)
qed

lemma Int_String_nonempty [simp]: "Int_String i \<noteq> []"
  by (simp add: Int_String_def)

lemma TrimSpace_Int_String [simp]: "TrimSpace (Int_String i) = Int_String i"
  by (rule TrimSpace_graphic) (meson Int_String_nonempty graphic_Int_String hd_in_set last_in_set)

text \<open>A decimal numeral never looks like one with a hexadecimal prefix.\<close>

lemma Int_String_no_hex_prefix:
  "\<not> HasPrefix (Int_String i) ''0x''" "\<not> HasPrefix (Int_String i) ''0X''"
proof -
  have nx: "CHR ''x'' \<notin> set (Int_String i)" "CHR ''X'' \<notin> set (Int_String i)"
  proof -
    have "c \<in> set (nat_string 10 n) \<Longrightarrow> c \<noteq> CHR ''x'' \<and> c \<noteq> CHR ''X''" for c n
      using nat_string_chars [of 10 c n] digit_char_neq(3,4) by fastforce
    then show "CHR ''x'' \<notin> set (Int_String i)" "CHR ''X'' \<notin> set (Int_String i)"
      by (auto simp: Int_String_def split: if_splits)
  qed
  then show "\<not> HasPrefix (Int_String i) ''0x''" "\<not> HasPrefix (Int_String i) ''0X''"
    by (auto simp: HasPrefix_iff)
qed

subsection \<open>Big-endian bytes: SetBytes, Bytes, FillBytes, BitLen\<close>

definition SetBytes :: "byte list \<Rightarrow> nat" where
  "SetBytes bs = nat_of_digits 256 (map unat bs)"

definition Bytes :: "nat \<Rightarrow> byte list" where
  "Bytes n = (if n = 0 then [] else map of_nat (digits_of 256 n))"

text \<open>\<open>FillBytes\<close> panics when the value does not fit; the panic is \<open>None\<close>.\<close>

definition FillBytes :: "nat \<Rightarrow> nat \<Rightarrow> byte list option" where
  "FillBytes k n =
     (let bs = Bytes n in if length bs \<le> k then Some (replicate (k - length bs) 0 @ bs) else None)"

definition BitLen :: "nat \<Rightarrow> nat" where
  "BitLen n = (if n = 0 then 0 else length (digits_of 2 n))"

lemma SetBytes_Nil [simp]: "SetBytes [] = 0"
  by (simp add: SetBytes_def)

lemma SetBytes_zeros [simp]: "SetBytes (replicate k 0 @ bs) = SetBytes bs"
  by (simp add: SetBytes_def)

lemma SetBytes_less: "SetBytes bs < 256 ^ length bs"
  using nat_of_digits_less [of "map unat bs" 256] by (simp add: SetBytes_def)

lemma SetBytes_inj: "length as = length bs \<Longrightarrow> SetBytes as = SetBytes bs \<Longrightarrow> as = bs"
proof -
  assume "length as = length bs" "SetBytes as = SetBytes bs"
  then have "map unat as = map unat bs"
    unfolding SetBytes_def by (intro nat_of_digits_inj [of _ _ 256]) auto
  then show "as = bs" by (rule list.inj_map_strong [rotated]) (simp add: word_unat_eq_iff)
qed

lemma map_unat_Bytes: "n \<noteq> 0 \<Longrightarrow> map unat (Bytes n) = digits_of 256 n"
proof -
  have "unat (of_nat d :: byte) = d" if "d \<in> set (digits_of 256 n)" for d
    using digits_of_less [of 256 d n] that by (simp add: unat_of_nat)
  then show "n \<noteq> 0 \<Longrightarrow> ?thesis" by (simp add: Bytes_def map_idI)
qed

lemma SetBytes_Bytes [simp, numeral_simps]: "SetBytes (Bytes n) = n"
  by (cases "n = 0") (simp_all add: SetBytes_def map_unat_Bytes, simp add: Bytes_def)

lemma length_Bytes_le: "0 < k \<Longrightarrow> length (Bytes n) \<le> k \<longleftrightarrow> n < 256 ^ k"
  using length_digits_of_le [of 256 k n] by (simp add: Bytes_def)

lemma Bytes_0 [simp]: "Bytes 0 = []"
  by (simp add: Bytes_def)

lemma FillBytes_Some:
  assumes "FillBytes k n = Some bs"
  shows "length bs = k" "SetBytes bs = n"
  using assms by (auto simp: FillBytes_def Let_def split: if_splits)

lemma FillBytes_fits: "0 < k \<Longrightarrow> n < 256 ^ k \<Longrightarrow> \<exists>bs. FillBytes k n = Some bs"
  by (simp add: FillBytes_def Let_def length_Bytes_le)

lemma FillBytes_SetBytes [simp, numeral_simps]: "FillBytes (length bs) (SetBytes bs) = Some bs"
proof (cases "bs = []")
  case True
  then show ?thesis by (simp add: FillBytes_def)
next
  case False
  then obtain cs where cs: "FillBytes (length bs) (SetBytes bs) = Some cs"
    using FillBytes_fits [of "length bs" "SetBytes bs"] SetBytes_less by auto
  with FillBytes_Some [OF cs] show ?thesis using SetBytes_inj by simp
qed

lemma BitLen_bounds: "n \<noteq> 0 \<Longrightarrow> 2 ^ (BitLen n - 1) \<le> n \<and> n < 2 ^ BitLen n"
  using digits_of_lower [of 2 n] digits_of_upper [of 2 n] by (simp add: BitLen_def)

lemma BitLen_less: "n < 2 ^ BitLen n"
  by (cases "n = 0") (simp_all add: BitLen_bounds)

subsection \<open>hex.EncodeToString and hex.DecodeString\<close>

definition hex_byte :: "byte \<Rightarrow> string" where
  "hex_byte b = [digit_char (unat b div 16), digit_char (unat b mod 16)]"

definition EncodeToString :: "byte list \<Rightarrow> string" where
  "EncodeToString bs = concat (map hex_byte bs)"

fun DecodeString :: "string \<Rightarrow> byte list option" where
  "DecodeString [] = Some []"
| "DecodeString [c] = None"
| "DecodeString (c # d # s) =
     (case (digit_in 16 c, digit_in 16 d) of
        (Some h, Some l) \<Rightarrow> map_option ((#) (of_nat (16 * h + l))) (DecodeString s)
      | _ \<Rightarrow> None)"

lemma EncodeToString_simps [simp]:
  "EncodeToString [] = []"
  "EncodeToString (b # bs) =
     digit_char (unat b div 16) # digit_char (unat b mod 16) # EncodeToString bs"
  by (simp_all add: EncodeToString_def hex_byte_def)

lemma length_EncodeToString [simp]: "length (EncodeToString bs) = 2 * length bs"
  by (induction bs) simp_all

lemma nibble_less [simp]: "unat (b :: byte) div 16 < 16"
  using unat_byte_less [of b] by linarith

lemma DecodeString_EncodeToString [simp, numeral_simps]: "DecodeString (EncodeToString bs) = Some bs"
  by (induction bs) simp_all

lemma EncodeToString_inject [simp]: "EncodeToString as = EncodeToString bs \<longleftrightarrow> as = bs"
  by (metis DecodeString_EncodeToString option.inject)

lemma EncodeToString_chars: "c \<in> set (EncodeToString bs) \<Longrightarrow> \<exists>d < 16. c = digit_char d"
proof (induction bs)
  case (Cons b bs)
  have "unat b div 16 < 16" "unat b mod 16 < 16" by simp_all
  then have "\<exists>d < 16. digit_char (unat b div 16) = digit_char d"
    "\<exists>d < 16. digit_char (unat b mod 16) = digit_char d" by blast+
  with Cons show ?case by (metis EncodeToString_simps(2) set_ConsD)
qed simp

text \<open>Decoding succeeds exactly on an even number of hex digits, and keeps the value.\<close>

lemma DecodeString_value:
  "DecodeString s = Some bs \<Longrightarrow>
     \<exists>ds. map (digit_in 16) s = map Some ds \<and> nat_of_digits 16 ds = SetBytes bs \<and> length s = 2 * length bs"
proof (induction s arbitrary: bs rule: DecodeString.induct)
  case (3 c d s)
  from "3.prems" obtain h l cs where hl: "digit_in 16 c = Some h" "digit_in 16 d = Some l"
    and cs: "DecodeString s = Some cs" "bs = of_nat (16 * h + l) # cs"
    by (auto split: option.splits)
  from "3.IH" [OF refl hl cs(1)] obtain ds where ds: "map (digit_in 16) s = map Some ds"
    "nat_of_digits 16 ds = SetBytes cs" "length s = 2 * length cs" by blast
  have lens: "length ds = 2 * length cs" using ds by (metis length_map)
  have "h < 16" "l < 16" using hl digit_in_less by blast+
  then have "unat (of_nat (16 * h + l) :: byte) = 16 * h + l"
    by (simp add: unat_of_nat del: of_nat_add of_nat_mult)
  moreover have "(16 :: nat) ^ (2 * k) = 256 ^ k" for k by (simp add: power_mult)
  ultimately have "nat_of_digits 16 (h # l # ds) = SetBytes bs"
    using ds lens cs by (simp add: SetBytes_def nat_of_digits_Cons algebra_simps)
  moreover have "map (digit_in 16) (c # d # s) = map Some (h # l # ds)" using hl ds by simp
  ultimately show ?case using ds cs by (metis length_Cons mult_Suc_right add_2_eq_Suc)
qed auto

lemma DecodeString_digits:
  "map (digit_in 16) s = map Some ds \<Longrightarrow> even (length s) \<Longrightarrow> \<exists>bs. DecodeString s = Some bs"
proof (induction s arbitrary: ds rule: DecodeString.induct)
  case (3 c d s)
  then obtain h l es where "ds = h # l # es" by (cases ds; cases "tl ds") auto
  with 3 show ?case by auto
qed auto

text \<open>Evaluation of the text functions on concrete strings.\<close>

lemmas num_eval = TrimSpace_graphic graphic_def SetString_def scan_nat_def digit_in_def
  digit_val_def nat_of_digits_def Let_def Int_String_def nat_string_def digits_of.simps
  digit_char_def char_of_def bit_0

end
