(* ===== verification/Go_Quote.thy ===== *)
theory Go_Quote
  imports Go_Numerals
begin

text \<open>
  Go's \<open>unicode/utf8\<close> and \<open>strconv.Quote\<close> (which is also \<open>fmt\<close>'s \<open>%q\<close> of a string), and the
  text of errors: the runes of a byte string, the escapes, the round trip with a reader of quoted
  text, and that quoted text holds no control character.  For code points outside ASCII
  \<open>strconv.IsPrint\<close> consults the tables of the Unicode standard: it is the parameter \<open>isPrint\<close>, and
  nothing proved here depends on it.
\<close>

subsection \<open>UTF-8\<close>

abbreviation in_range :: "nat \<Rightarrow> nat \<Rightarrow> char \<Rightarrow> bool" where
  "in_range lo hi c \<equiv> lo \<le> of_char c \<and> of_char c \<le> hi"

text \<open>The well-formed sequences: no overlong form, no surrogate, nothing above U+10FFFF.\<close>

definition utf8_two :: "char \<Rightarrow> char \<Rightarrow> bool" where
  "utf8_two a b \<longleftrightarrow> in_range 0xC2 0xDF a \<and> in_range 0x80 0xBF b"

definition utf8_three :: "char \<Rightarrow> char \<Rightarrow> char \<Rightarrow> bool" where
  "utf8_three a b c \<longleftrightarrow> in_range 0xE0 0xEF a
     \<and> in_range (if of_char a = (0xE0 :: nat) then 0xA0 else 0x80) (if of_char a = (0xED :: nat) then 0x9F else 0xBF) b
     \<and> in_range 0x80 0xBF c"

definition utf8_four :: "char \<Rightarrow> char \<Rightarrow> char \<Rightarrow> char \<Rightarrow> bool" where
  "utf8_four a b c d \<longleftrightarrow> in_range 0xF0 0xF4 a
     \<and> in_range (if of_char a = (0xF0 :: nat) then 0x90 else 0x80) (if of_char a = (0xF4 :: nat) then 0x8F else 0xBF) b
     \<and> in_range 0x80 0xBF c \<and> in_range 0x80 0xBF d"

fun ValidString :: "string \<Rightarrow> bool" where
  "ValidString [] \<longleftrightarrow> True"
| "ValidString (a # s) \<longleftrightarrow>
     (if in_range 0 0x7F a then ValidString s
      else case s of
             [] \<Rightarrow> False
           | b # s1 \<Rightarrow>
               if utf8_two a b then ValidString s1
               else (case s1 of
                       [] \<Rightarrow> False
                     | c # s2 \<Rightarrow>
                         if utf8_three a b c then ValidString s2
                         else (case s2 of
                                 [] \<Rightarrow> False
                               | d # s3 \<Rightarrow> if utf8_four a b c d then ValidString s3 else False)))"

lemma ValidString_ascii: "\<forall>c \<in> set s. (of_char c :: nat) < 128 \<Longrightarrow> ValidString s"
  by (induction s) auto

subsection \<open>Runes\<close>

definition rune2 :: "char \<Rightarrow> char \<Rightarrow> nat" where
  "rune2 a b = (of_char a - 0xC0) * 64 + (of_char b - 0x80)"

definition rune3 :: "char \<Rightarrow> char \<Rightarrow> char \<Rightarrow> nat" where
  "rune3 a b c = ((of_char a - 0xE0) * 64 + (of_char b - 0x80)) * 64 + (of_char c - 0x80)"

definition rune4 :: "char \<Rightarrow> char \<Rightarrow> char \<Rightarrow> char \<Rightarrow> nat" where
  "rune4 a b c d =
     (((of_char a - 0xF0) * 64 + (of_char b - 0x80)) * 64 + (of_char c - 0x80)) * 64 + (of_char d - 0x80)"

text \<open>\<open>utf8.AppendRune\<close>.\<close>

definition EncodeRune :: "nat \<Rightarrow> string" where
  "EncodeRune r =
     (if r < 0x80 then [char_of r]
      else if r < 0x800 then [char_of (0xC0 + r div 64), char_of (0x80 + r mod 64)]
      else if r < 0x10000
      then [char_of (0xE0 + r div 4096), char_of (0x80 + r div 64 mod 64), char_of (0x80 + r mod 64)]
      else [char_of (0xF0 + r div 262144), char_of (0x80 + r div 4096 mod 64),
            char_of (0x80 + r div 64 mod 64), char_of (0x80 + r mod 64)])"

lemma char_of_of_char [simp]: "char_of (of_char c :: nat) = c"
  by simp

text \<open>The bytes of a well-formed sequence are the digits of its rune.\<close>

lemma div_mod_digit: "b < (k :: nat) \<Longrightarrow> (a * k + b) div k = a \<and> (a * k + b) mod k = b"
  by simp

lemma EncodeRune_rune2:
  assumes "utf8_two a b"
  shows "EncodeRune (rune2 a b) = [a, b] \<and> 0x80 \<le> rune2 a b \<and> rune2 a b < 0x800"
proof -
  obtain x y :: nat where x: "of_char a = 0xC0 + x" "2 \<le> x" "x < 32" and y: "of_char b = 0x80 + y" "y < 64"
    using assms by (auto simp: utf8_two_def intro: that [of "of_char a - 0xC0" "of_char b - 0x80"])
  have r: "rune2 a b = x * 64 + y" by (simp add: rune2_def x y)
  then have "rune2 a b div 64 = x" "rune2 a b mod 64 = y" using y by simp_all
  moreover have "char_of (0xC0 + x) = a" "char_of (0x80 + y) = b" using x(1) y(1) by (metis char_of_of_char)+
  moreover have "128 \<le> rune2 a b" "rune2 a b < 2048" using r x y by linarith+
  ultimately show ?thesis by (simp add: EncodeRune_def)
qed

lemma EncodeRune_rune3:
  assumes "utf8_three a b c"
  shows "EncodeRune (rune3 a b c) = [a, b, c] \<and> 0x800 \<le> rune3 a b c \<and> rune3 a b c < 0x10000"
proof -
  obtain x y z :: nat where x: "of_char a = 0xE0 + x" "x < 16" and y: "of_char b = 0x80 + y" "y < 64"
    "0 < x \<or> 32 \<le> y" and z: "of_char c = 0x80 + z" "z < 64"
    using assms by (auto simp: utf8_three_def split: if_splits
        intro: that [of "of_char a - 0xE0" "of_char b - 0x80" "of_char c - 0x80"])
  have r: "rune3 a b c = (x * 64 + y) * 64 + z" by (simp add: rune3_def x y z)
  then have "rune3 a b c div 64 = x * 64 + y" "rune3 a b c mod 64 = z" unfolding r by (simp_all only: div_mod_digit [OF z(2)])
  moreover from this have "rune3 a b c div 4096 = x"
    using y div_mult2_eq [of "rune3 a b c" 64 64] by simp
  moreover have "char_of (0xE0 + x) = a" "char_of (0x80 + y) = b" "char_of (0x80 + z) = c"
    using x(1) y(1) z(1) by (metis char_of_of_char)+
  moreover from r have "rune3 a b c = 4096 * x + 64 * y + z" by simp
  with y(3) have "2048 \<le> rune3 a b c" by (elim disjE) linarith+
  moreover have "rune3 a b c < 65536" using \<open>rune3 a b c = 4096 * x + 64 * y + z\<close> x(2) y(2) z(2) by linarith
  ultimately show ?thesis using y by (simp add: EncodeRune_def)
qed

lemma EncodeRune_rune4:
  assumes "utf8_four a b c d"
  shows "EncodeRune (rune4 a b c d) = [a, b, c, d] \<and> 0x10000 \<le> rune4 a b c d \<and> rune4 a b c d < 0x110000"
proof -
  obtain x y z w :: nat where x: "of_char a = 0xF0 + x" "x \<le> 4" and y: "of_char b = 0x80 + y" "y < 64"
    "0 < x \<or> 16 \<le> y" "x < 4 \<or> y < 16" and z: "of_char c = 0x80 + z" "z < 64" and w: "of_char d = 0x80 + w" "w < 64"
    using assms by (auto simp: utf8_four_def split: if_splits
        intro: that [of "of_char a - 0xF0" "of_char b - 0x80" "of_char c - 0x80" "of_char d - 0x80"])
  have r: "rune4 a b c d = ((x * 64 + y) * 64 + z) * 64 + w" by (simp add: rune4_def x y z w)
  then have d: "rune4 a b c d div 64 = (x * 64 + y) * 64 + z" "rune4 a b c d mod 64 = w" unfolding r by (simp_all only: div_mod_digit [OF w(2)])
  then have e: "rune4 a b c d div 4096 = x * 64 + y"
    using z div_mult2_eq [of "rune4 a b c d" 64 64] by simp
  then have "rune4 a b c d div 262144 = x"
    using y div_mult2_eq [of "rune4 a b c d" 4096 64] by simp
  moreover have "rune4 a b c d div 64 mod 64 = z" unfolding d(1) by (simp only: div_mod_digit [OF z(2)])
  moreover have "char_of (0xF0 + x) = a" "char_of (0x80 + y) = b" "char_of (0x80 + z) = c" "char_of (0x80 + w) = d"
    using x(1) y(1) z(1) w(1) by (metis char_of_of_char)+
  moreover from r have r': "rune4 a b c d = 262144 * x + 4096 * y + 64 * z + w" by simp
  with y(3) have "65536 \<le> rune4 a b c d" by (elim disjE) linarith+
  moreover have "rune4 a b c d < 0x110000" using y(4) r' x(2) y(2) z(2) w(2) by (elim disjE) linarith+
  ultimately show ?thesis using d(2) e y by (simp add: EncodeRune_def)
qed

subsection \<open>Quoting\<close>

definition hex_digits :: "nat \<Rightarrow> nat \<Rightarrow> string" where
  "hex_digits k n = replicate (k - length (nat_string 16 n)) (CHR ''0'') @ nat_string 16 n"

definition backslash :: char where "backslash = CHR 0x5C"
definition dquote :: char where "dquote = CHR 0x22"

definition quote_ascii :: "char \<Rightarrow> string" where
  "quote_ascii c =
     (let k = (of_char c :: nat) in
      if c = dquote \<or> c = backslash then [backslash, c]
      else if 32 \<le> k \<and> k \<noteq> 127 then [c]
      else if k = 7 then [backslash, CHR ''a''] else if k = 8 then [backslash, CHR ''b'']
      else if k = 12 then [backslash, CHR ''f''] else if k = 10 then [backslash, CHR ''n'']
      else if k = 13 then [backslash, CHR ''r''] else if k = 9 then [backslash, CHR ''t'']
      else if k = 11 then [backslash, CHR ''v'']
      else backslash # ''x'' @ hex_digits 2 k)"

text \<open>A byte that begins no well-formed sequence.\<close>

definition quote_byte :: "char \<Rightarrow> string" where
  "quote_byte c = backslash # ''x'' @ hex_digits 2 (of_char c)"

definition quote_rune :: "(nat \<Rightarrow> bool) \<Rightarrow> nat \<Rightarrow> string" where
  "quote_rune isPrint r =
     (if isPrint r then EncodeRune r
      else if r < 0x10000 then backslash # ''u'' @ hex_digits 4 r
      else backslash # ''U'' @ hex_digits 8 r)"

fun quote_runes :: "(nat \<Rightarrow> bool) \<Rightarrow> string \<Rightarrow> string" where
  "quote_runes isPrint [] = []"
| "quote_runes isPrint (a # s) =
     (if in_range 0 0x7F a then quote_ascii a @ quote_runes isPrint s
      else case s of
             [] \<Rightarrow> quote_byte a
           | b # s1 \<Rightarrow>
               if utf8_two a b then quote_rune isPrint (rune2 a b) @ quote_runes isPrint s1
               else (case s1 of
                       [] \<Rightarrow> quote_byte a @ quote_runes isPrint s
                     | c # s2 \<Rightarrow>
                         if utf8_three a b c then quote_rune isPrint (rune3 a b c) @ quote_runes isPrint s2
                         else (case s2 of
                                 [] \<Rightarrow> quote_byte a @ quote_runes isPrint s
                               | d # s3 \<Rightarrow>
                                   if utf8_four a b c d
                                   then quote_rune isPrint (rune4 a b c d) @ quote_runes isPrint s3
                                   else quote_byte a @ quote_runes isPrint s)))"

definition Quote :: "(nat \<Rightarrow> bool) \<Rightarrow> string \<Rightarrow> string" where
  "Quote isPrint s = dquote # quote_runes isPrint s @ [dquote]"

text \<open>
  The runes of a text, in the order \<open>quote_runes\<close> meets them: a rune is ASCII, a stray byte, or a
  well-formed sequence.  Facts about quoting are proved rune by rune.
\<close>

datatype rune = Ascii char | Stray char | Wide nat string

fun bytes_of_rune :: "rune \<Rightarrow> string" where
  "bytes_of_rune (Ascii c) = [c]"
| "bytes_of_rune (Stray c) = [c]"
| "bytes_of_rune (Wide r bs) = bs"

fun quoted :: "(nat \<Rightarrow> bool) \<Rightarrow> rune \<Rightarrow> string" where
  "quoted isPrint (Ascii c) = quote_ascii c"
| "quoted isPrint (Stray c) = quote_byte c"
| "quoted isPrint (Wide r bs) = quote_rune isPrint r"

fun good_rune :: "rune \<Rightarrow> bool" where
  "good_rune (Ascii c) \<longleftrightarrow> (of_char c :: nat) < 128"
| "good_rune (Stray c) \<longleftrightarrow> 128 \<le> (of_char c :: nat)"
| "good_rune (Wide r bs) \<longleftrightarrow>
     EncodeRune r = bs \<and> 128 \<le> r \<and> r < 0x110000 \<and> (\<forall>c \<in> set bs. 128 \<le> (of_char c :: nat))"

lemma good_rune_wide:
  "utf8_two a b \<Longrightarrow> good_rune (Wide (rune2 a b) [a, b])"
  "utf8_three a b c \<Longrightarrow> good_rune (Wide (rune3 a b c) [a, b, c])"
  "utf8_four a b c d \<Longrightarrow> good_rune (Wide (rune4 a b c d) [a, b, c, d])"
  using EncodeRune_rune2 [of a b] EncodeRune_rune3 [of a b c] EncodeRune_rune4 [of a b c d]
  by (auto simp: utf8_two_def utf8_three_def utf8_four_def split: if_splits)

lemma EncodeRune_of:
  "utf8_two a b \<Longrightarrow> EncodeRune (rune2 a b) = [a, b]"
  "utf8_three a b c \<Longrightarrow> EncodeRune (rune3 a b c) = [a, b, c]"
  "utf8_four a b c d \<Longrightarrow> EncodeRune (rune4 a b c d) = [a, b, c, d]"
  using EncodeRune_rune2 EncodeRune_rune3 EncodeRune_rune4 by blast+

lemma quote_runes_step:
  assumes "s \<noteq> []"
  obtains u t where "s = bytes_of_rune u @ t" "good_rune u" "length t < length s"
    "\<And>P. quote_runes P s = quoted P u @ quote_runes P t"
proof -
  note result = that
  obtain a s0 where s: "s = a # s0" using assms by (cases s) auto
  show ?thesis
  proof (cases "in_range 0 0x7F a")
    case True
    then show ?thesis using s by (intro result [of "Ascii a" s0]) auto
  next
    case False
    then have stray: ?thesis if st: "\<And>P. quote_runes P s = quote_byte a @ quote_runes P s0"
      using st s by (intro result [of "Stray a" s0]) auto
    show ?thesis
    proof (cases s0)
      case Nil
      then show ?thesis using False s by (intro stray) auto
    next
      case s1: (Cons b s1)
      show ?thesis
      proof (cases "utf8_two a b")
        case True
        then show ?thesis using False s s1
          by (intro result [of "Wide (rune2 a b) [a, b]" s1]) (simp_all add: good_rune_wide(1) del: good_rune.simps)
      next
        case two: False
        show ?thesis
        proof (cases s1)
          case Nil
          then show ?thesis using False s s1 two by (intro stray) auto
        next
          case s2: (Cons c s2)
          show ?thesis
          proof (cases "utf8_three a b c")
            case True
            then show ?thesis using False s s1 s2 two
              by (intro result [of "Wide (rune3 a b c) [a, b, c]" s2]) (simp_all add: good_rune_wide(2) del: good_rune.simps)
          next
            case three: False
            show ?thesis
            proof (cases "s2 = [] \<or> \<not> utf8_four a b c (hd s2)")
              case True
              then show ?thesis using False s s1 s2 two three by (intro stray) (cases s2; auto)
            next
              case four: False
              then obtain d s3 where s3: "s2 = d # s3" by (cases s2) auto
              with four show ?thesis using False s s1 s2 two three
                by (intro result [of "Wide (rune4 a b c d) [a, b, c, d]" s3]) (simp_all add: good_rune_wide(3) del: good_rune.simps)
            qed
          qed
        qed
      qed
    qed
  qed
qed

subsection \<open>Reading quoted text\<close>

lemma hex_digits_scan:
  assumes "n < 16 ^ k" "0 < k"
  shows "length (hex_digits k n) = k" "scan_nat 16 (hex_digits k n) = Some n"
proof -
  have "length (nat_string 16 n) \<le> k"
    using length_digits_of_le [of 16 k n] assms by (simp add: nat_string_def)
  then show "length (hex_digits k n) = k" by (simp add: hex_digits_def)
  show "scan_nat 16 (hex_digits k n) = Some n" by (simp add: hex_digits_def scan_nat_zeros)
qed

text \<open>The text up to the closing quote, with the escapes undone, and what follows the quote.\<close>

definition prepend :: "string \<Rightarrow> (string \<times> string) option \<Rightarrow> (string \<times> string) option" where
  "prepend bs r = map_option (\<lambda>(s, t). (bs @ s, t)) r"

definition unescape :: "char \<Rightarrow> char option" where
  "unescape e =
     (if e = dquote \<or> e = backslash then Some e
      else if e = CHR ''a'' then Some (char_of (7 :: nat)) else if e = CHR ''b'' then Some (char_of (8 :: nat))
      else if e = CHR ''f'' then Some (char_of (12 :: nat)) else if e = CHR ''n'' then Some (char_of (10 :: nat))
      else if e = CHR ''r'' then Some (char_of (13 :: nat)) else if e = CHR ''t'' then Some (char_of (9 :: nat))
      else if e = CHR ''v'' then Some (char_of (11 :: nat)) else None)"

definition escape_width :: "char \<Rightarrow> nat" where
  "escape_width e = (if e = CHR ''x'' then 2 else if e = CHR ''u'' then 4 else if e = CHR ''U'' then 8 else 0)"

function unquote :: "string \<Rightarrow> (string \<times> string) option" where
  "unquote [] = None"
| "unquote (c # s) =
     (if c = dquote then Some ([], s)
      else if c \<noteq> backslash then prepend [c] (unquote s)
      else case s of
             [] \<Rightarrow> None
           | e # t \<Rightarrow>
               if 0 < escape_width e
               then (case scan_nat 16 (take (escape_width e) t) of
                       None \<Rightarrow> None
                     | Some n \<Rightarrow> prepend (if e = CHR ''x'' then [char_of n] else EncodeRune n)
                                   (unquote (drop (escape_width e) t)))
               else (case unescape e of None \<Rightarrow> None | Some b \<Rightarrow> prepend [b] (unquote t)))"
  by pat_completeness auto
termination
  by (relation "measure length") auto

lemma prepend_simps [simp]: "prepend [] r = r" "prepend as (prepend bs r) = prepend (as @ bs) r"
  "prepend as (Some (s, t)) = Some (as @ s, t)"
  by (simp_all add: prepend_def option.map_comp comp_def split_def option.map_ident)

lemma unquote_verbatim:
  "\<forall>c \<in> set bs. c \<noteq> dquote \<and> c \<noteq> backslash \<Longrightarrow> unquote (bs @ t) = prepend bs (unquote t)"
  by (induction bs) auto

lemma unquote_escape:
  "0 < escape_width e \<Longrightarrow> n < 16 ^ escape_width e \<Longrightarrow>
     unquote (backslash # e # hex_digits (escape_width e) n @ t)
       = prepend (if e = CHR ''x'' then [char_of n] else EncodeRune n) (unquote t)"
  by (simp add: hex_digits_scan backslash_def dquote_def del: prepend_simps)

lemmas escape_widths = escape_width_def [of "CHR ''x''", simplified] escape_width_def [of "CHR ''u''", simplified]
  escape_width_def [of "CHR ''U''", simplified]

lemma quote_byte_step: "unquote (quote_byte c @ t) = prepend [c] (unquote t)"
  using unquote_escape [of "CHR ''x''" "of_char c" t] by (simp add: escape_widths quote_byte_def)

lemma quote_ascii_step: "unquote (quote_ascii c @ t) = prepend [c] (unquote t)"
proof -
  have e: "c = char_of k" if "of_char c = (k :: nat)" for k using that by (metis char_of_of_char)
  show ?thesis
    using quote_byte_step [of c t]
    by (auto simp: quote_ascii_def quote_byte_def Let_def backslash_def dquote_def escape_width_def unescape_def
        dest!: e)
qed

lemma quoted_step: "good_rune u \<Longrightarrow> unquote (quoted P u @ t) = prepend (bytes_of_rune u) (unquote t)"
proof (cases u)
  case (Wide r bs)
  assume "good_rune u"
  with Wide have r: "EncodeRune r = bs" "r < 0x110000" "\<forall>c \<in> set bs. 128 \<le> (of_char c :: nat)" by simp_all
  have "\<forall>c \<in> set bs. c \<noteq> dquote \<and> c \<noteq> backslash" using r(3) by (auto simp: dquote_def backslash_def)
  then show ?thesis
    using Wide r unquote_verbatim [of bs t] unquote_escape [of "CHR ''u''" r t] unquote_escape [of "CHR ''U''" r t]
    by (simp add: quote_rune_def escape_widths)
qed (simp_all add: quote_byte_step quote_ascii_step)

text \<open>Reading undoes quoting, whatever the bytes are and whatever counts as printable.\<close>

lemma unquote_runes: "unquote (quote_runes P s @ dquote # t) = Some (s, t)"
proof (induction s rule: length_induct)
  case (1 s)
  show ?case
  proof (cases "s = []")
    case False
    from quote_runes_step [OF this] obtain u s' where u: "s = bytes_of_rune u @ s'" "good_rune u" "length s' < length s"
      "quote_runes P s = quoted P u @ quote_runes P s'" by metis
    with 1 have "unquote (quote_runes P s' @ dquote # t) = Some (s', t)" by blast
    with u show ?thesis by (simp add: quoted_step)
  qed simp
qed

text \<open>Quoted text has no control character, so it never breaks a line.\<close>

definition control :: "char \<Rightarrow> bool" where
  "control c \<longleftrightarrow> (of_char c :: nat) < 32 \<or> of_char c = (127 :: nat)"

lemma hex_digits_chars: "c \<in> set (hex_digits k n) \<Longrightarrow> \<exists>d < 16. c = digit_char d"
proof -
  assume "c \<in> set (hex_digits k n)"
  moreover have "CHR ''0'' = digit_char 0"
    using char_of_of_char [of "CHR ''0''"] by (simp add: digit_char_def del: char_of_of_char)
  ultimately show ?thesis using nat_string_chars [of 16 c n] by (force simp: hex_digits_def)
qed

lemma digit_not_control: "d < 16 \<Longrightarrow> \<not> control (digit_char d)"
  by (simp add: control_def of_char_digit_char)

lemma hex_digits_not_control: "c \<in> set (hex_digits k n) \<Longrightarrow> \<not> control c"
  using hex_digits_chars digit_not_control by blast

lemma quote_byte_not_control: "c' \<in> set (quote_byte c) \<Longrightarrow> \<not> control c'"
  by (auto simp: quote_byte_def dest: hex_digits_not_control) (simp_all add: control_def backslash_def)

lemma quoted_not_control: "good_rune u \<Longrightarrow> c \<in> set (quoted P u) \<Longrightarrow> \<not> control c"
proof (cases u)
  case (Wide r bs)
  assume "good_rune u" "c \<in> set (quoted P u)"
  with Wide show ?thesis
    by (auto simp: quote_rune_def dest: hex_digits_not_control split: if_splits) (auto simp: control_def backslash_def)
next
  case (Ascii a)
  assume "c \<in> set (quoted P u)"
  with Ascii quote_byte_not_control [of c a] show ?thesis
    by (auto simp: quote_ascii_def quote_byte_def Let_def backslash_def dquote_def control_def split: if_splits)
qed (simp add: quote_byte_not_control)

lemma Quote_not_control: "c \<in> set (Quote P s) \<Longrightarrow> \<not> control c"
proof -
  have "c \<in> set (quote_runes P s) \<Longrightarrow> \<not> control c"
  proof (induction s rule: length_induct)
    case (1 s)
    show ?case
    proof (cases "s = []")
      case False
      from quote_runes_step [OF this] obtain u s' where u: "good_rune u" "length s' < length s"
        "quote_runes P s = quoted P u @ quote_runes P s'" by metis
      with 1 quoted_not_control show ?thesis by auto
    qed (use 1 in simp)
  qed
  moreover assume "c \<in> set (Quote P s)"
  ultimately show ?thesis by (auto simp: Quote_def) (simp_all add: control_def dquote_def)
qed

subsection \<open>The text of errors\<close>

text \<open>
  \<open>err.Error()\<close>: \<open>render\<close> fills the verbs of a format from the arguments, \<open>%w\<close> from the wrapped
  error.  The arguments are already text; \<open>%q\<close> is \<open>Quote\<close>, with every character outside ASCII
  taken as printable.
\<close>

fun render :: "string \<Rightarrow> string list \<Rightarrow> string \<Rightarrow> string" where
  "render [] as w = []"
| "render [c] as w = [c]"
| "render (c # v # f) as w =
     (if c \<noteq> CHR ''%'' then c # render (v # f) as w
      else if v = CHR ''w'' then w @ render f as w
      else case as of
             [] \<Rightarrow> c # v # render f [] w
           | a # as' \<Rightarrow> (if v = CHR ''q'' then Quote (\<lambda>_. True) a else a) @ render f as' w)"

fun sentinel_text :: "sentinel \<Rightarrow> string" where
  "sentinel_text ErrDuplicateNullifier = ''nullifier already registered''"
| "sentinel_text ErrChallengeNotFound = ''challenge not found''"
| "sentinel_text ErrChallengeExpired = ''challenge expired''"
| "sentinel_text ErrChallengeConsumed = ''challenge already consumed''"
| "sentinel_text ErrSmtRootUnavailable = ''smtroot: trusted root unavailable''"
| "sentinel_text ErrIssuerCertUnavailable = ''issuercert: trusted cert unavailable''"
| "sentinel_text ErrNoSource = ''smtroot: provider has no source configured''"
| "sentinel_text ErrNoSources = ''issuercert: provider has no sources configured''"
| "sentinel_text ErrTruncated = ''decompressed size exceeds cap''"
| "sentinel_text ErrSkipVerify = ''no recorded checksum''"
| "sentinel_text EOF = ''EOF''"
| "sentinel_text ErrNotExist = ''file does not exist''"

fun join_lines :: "string list \<Rightarrow> string" where
  "join_lines [] = []"
| "join_lines [s] = s"
| "join_lines (s # t # ss) = s @ [CHR 0x0A] @ join_lines (t # ss)"

primrec err_text :: "err \<Rightarrow> string" where
  "err_text (Sentinel s) = sentinel_text s"
| "err_text (Errorf f as) = render f as []"
| "err_text (External m) = m"
| "err_text (Wrapf f as e) = render f as (err_text e)"
| "err_text (Joined es) = join_lines (map err_text es)"

end
