(* ===== verification/Go_Time.thy ===== *)
theory Go_Time
  imports Go_Quote
begin

text \<open>
  The part of Go's \<open>time\<close> package the program uses.  An instant is the number of nanoseconds
  since 0001-01-01T00:00:00Z, so Go's zero \<open>Time\<close> is 0; a duration is a number of nanoseconds.
  The calendar is the proleptic Gregorian one.  \<open>format_rfc3339\<close> and \<open>format_datetime\<close> print a
  UTC instant as \<open>time.RFC3339\<close> and as SQLite's \<open>datetime('now')\<close> do; \<open>parse_rfc3339\<close> and
  \<open>parse_datetime\<close> follow \<open>time.Parse\<close> for the two layouts, its leniencies included (one-digit
  hour, fraction of a second, offsets up to 24:60).  The main lemma is that parsing a printed
  instant gives the instant back, cut to the second.
\<close>

type_synonym time = int
type_synonym duration = int

definition Second :: int where "Second = 1000000000"

text \<open>\<open>t.After(u)\<close> and \<open>t.Before(u)\<close>.\<close>

definition After :: "time \<Rightarrow> time \<Rightarrow> bool" where
  "After t u \<longleftrightarrow> u < t"

definition Before :: "time \<Rightarrow> time \<Rightarrow> bool" where
  "Before t u \<longleftrightarrow> t < u"

subsection \<open>The calendar\<close>

definition is_leap :: "int \<Rightarrow> bool" where
  "is_leap y \<longleftrightarrow> 4 dvd y \<and> (\<not> 100 dvd y \<or> 400 dvd y)"

definition days_before_year :: "int \<Rightarrow> int" where
  "days_before_year y = 365 * (y - 1) + (y - 1) div 4 - (y - 1) div 100 + (y - 1) div 400"

definition month_start :: "bool \<Rightarrow> int \<Rightarrow> int" where
  "month_start leap m =
     (if m \<le> 1 then 0 else if m = 2 then 31 else if m = 3 then 59 else if m = 4 then 90
      else if m = 5 then 120 else if m = 6 then 151 else if m = 7 then 181 else if m = 8 then 212
      else if m = 9 then 243 else if m = 10 then 273 else if m = 11 then 304
      else if m = 12 then 334 else 365)
     + (if leap \<and> 2 < m then 1 else 0)"

definition days_in :: "int \<Rightarrow> int \<Rightarrow> int" where
  "days_in m y = month_start (is_leap y) (m + 1) - month_start (is_leap y) m"

definition days_of_civil :: "int \<Rightarrow> int \<Rightarrow> int \<Rightarrow> int" where
  "days_of_civil y m d = days_before_year y + month_start (is_leap y) m + (d - 1)"

definition year_of_day :: "int \<Rightarrow> int" where
  "year_of_day n =
     (let y = 400 * n div 146097 + 1 in if days_before_year (y + 1) \<le> n then y + 1 else y)"

definition month_of_yday :: "bool \<Rightarrow> int \<Rightarrow> int" where
  "month_of_yday leap k =
     (let ms = month_start leap in
      if k < ms 2 then 1 else if k < ms 3 then 2 else if k < ms 4 then 3 else if k < ms 5 then 4
      else if k < ms 6 then 5 else if k < ms 7 then 6 else if k < ms 8 then 7
      else if k < ms 9 then 8 else if k < ms 10 then 9 else if k < ms 11 then 10
      else if k < ms 12 then 11 else 12)"

definition civil_of_days :: "int \<Rightarrow> int \<times> int \<times> int" where
  "civil_of_days n =
     (let y = year_of_day n; k = n - days_before_year y; m = month_of_yday (is_leap y) k
      in (y, m, k - month_start (is_leap y) m + 1))"

definition valid_date :: "int \<Rightarrow> int \<Rightarrow> int \<Rightarrow> bool" where
  "valid_date y m d \<longleftrightarrow> 1 \<le> m \<and> m \<le> 12 \<and> 1 \<le> d \<and> d \<le> days_in m y"

lemma div_pred_step:
  fixes y c :: int
  assumes c: "0 < c"
  shows "y div c = (y - 1) div c + (if c dvd y then 1 else 0)"
proof -
  define q r where "q = (y - 1) div c" and "r = (y - 1) mod c"
  have "y - 1 = c * q + r" unfolding q_def r_def by (rule mult_div_mod_eq [symmetric])
  then have y: "y = c * q + (r + 1)" by linarith
  have r: "0 \<le> r" "r < c" using c by (simp_all add: r_def)
  have "y div c = q + (if c dvd y then 1 else 0)"
  proof (cases "r + 1 = c")
    case True
    then have y': "y = c * (q + 1)" using y by (simp add: algebra_simps)
    then have "y div c = q + 1" using c by simp
    moreover have "c dvd y" by (subst y') (rule dvd_triv_left)
    ultimately show ?thesis by simp
  next
    case False
    with r have s: "0 \<le> r + 1" "r + 1 < c" by auto
    have "y div c = q" by (rule int_div_pos_eq [OF y s])
    moreover have "y mod c = r + 1" by (rule int_mod_pos_eq [OF y s])
    ultimately show ?thesis using r by (simp add: dvd_eq_mod_eq_0)
  qed
  then show ?thesis by (simp only: q_def)
qed

lemma days_before_year_Suc:
  "days_before_year (y + 1) = days_before_year y + (if is_leap y then 366 else 365)"
proof -
  have d: "(100 :: int) dvd y \<Longrightarrow> 4 dvd y" "(400 :: int) dvd y \<Longrightarrow> 100 dvd y"
    by (erule dvd_trans [rotated], simp)+
  define i4 i100 i400 :: int
    where "i4 = (if 4 dvd y then 1 else 0)" and "i100 = (if 100 dvd y then 1 else 0)"
      and "i400 = (if 400 dvd y then 1 else 0)"
  have steps: "y div 4 = (y - 1) div 4 + i4" "y div 100 = (y - 1) div 100 + i100"
    "y div 400 = (y - 1) div 400 + i400"
    unfolding i4_def i100_def i400_def by (rule div_pred_step; simp)+
  have leap: "i4 - i100 + i400 = (if is_leap y then 1 else 0)"
    using d unfolding is_leap_def i4_def i100_def i400_def
    by (cases "4 dvd y"; cases "100 dvd y"; cases "400 dvd y") simp_all
  have "days_before_year (y + 1) = 365 * y + y div 4 - y div 100 + y div 400"
    by (simp add: days_before_year_def)
  also have "\<dots> = days_before_year y + 365 + (i4 - i100 + i400)"
    unfolding steps days_before_year_def by simp
  finally show ?thesis by (simp add: leap)
qed

lemma year_upper_bound:
  fixes a b e k n :: int
  assumes "k + 2 < 4 * a + 4" "100 * b \<le> k + 2" "k + 2 < 400 * e + 400" "400 * n < 146097 * (k + 1)"
  shows "n < 365 * (k + 2) + a - b + e"
proof -
  have "100 * k - 100 \<le> 400 * a" "400 * b \<le> 4 * k + 8" "k - 397 \<le> 400 * e"
    using assms by linarith+
  then have "146097 * k + 291495 \<le> 146000 * k + 292000 + 400 * a - 400 * b + 400 * e" by linarith
  also have "\<dots> = 400 * (365 * (k + 2) + a - b + e)" by (simp add: algebra_simps)
  finally have le: "146097 * k + 291495 \<le> 400 * (365 * (k + 2) + a - b + e)" .
  have "400 * n < 146097 * k + 291495" using assms(4) by (simp add: algebra_simps)
  from less_le_trans [OF this le] show ?thesis by simp
qed

lemma year_lower_bound:
  fixes a b e k n :: int
  assumes "4 * a \<le> k" "k < 100 * b + 100" "400 * e \<le> k" "146097 * k \<le> 400 * n"
  shows "365 * k + a - b + e \<le> n"
proof -
  have "400 * a \<le> 100 * k" "4 * k - 396 \<le> 400 * b" using assms by linarith+
  then have "146000 * k + 400 * a - 400 * b + 400 * e \<le> 146097 * k + 396" using assms by linarith
  also have "\<dots> \<le> 400 * n + 396" using assms(4) by simp
  finally have "400 * (365 * k + a - b + e) \<le> 400 * n + 396" by (simp add: algebra_simps)
  then show ?thesis by simp
qed

lemma year_of_day_bounds:
  "days_before_year (year_of_day n) \<le> n \<and> n < days_before_year (year_of_day n + 1)"
proof -
  define k where "k = 400 * n div 146097"
  have "400 * n = 146097 * k + 400 * n mod 146097" "0 \<le> 400 * n mod 146097" "400 * n mod 146097 < 146097"
    by (simp_all add: k_def)
  then have n: "146097 * k \<le> 400 * n" "400 * n < 146097 * (k + 1)" by auto
  have D: "days_before_year (j + 1) = 365 * j + j div 4 - j div 100 + j div 400" for j
    by (simp add: days_before_year_def)
  have frac: "c * (j div c) \<le> j \<and> j < c * (j div c) + c" if "0 < c" for c j :: int
    using mult_div_mod_eq [of c j] pos_mod_bound [OF that, of j] pos_mod_sign [OF that, of j] by linarith
  have lo: "days_before_year (k + 1) \<le> n"
    unfolding D using frac [of 4 k] frac [of 100 k] frac [of 400 k] n(1)
    by (intro year_lower_bound) auto
  have hi: "n < days_before_year ((k + 2) + 1)"
    unfolding D using frac [of 4 "k + 2"] frac [of 100 "k + 2"] frac [of 400 "k + 2"] n(2)
    by (intro year_upper_bound) auto
  show ?thesis
    using lo hi by (simp add: year_of_day_def Let_def k_def [symmetric] add.assoc)
qed

lemma month_of_yday_bounds:
  assumes "0 \<le> k" "k < (if leap then 366 else 365)"
  shows "month_of_yday leap k \<in> {1..12} \<and> month_start leap (month_of_yday leap k) \<le> k
    \<and> k < month_start leap (month_of_yday leap k + 1)"
  using assms by (cases leap) (simp_all add: month_of_yday_def month_start_def Let_def)

lemma civil_of_days_inverse:
  assumes "civil_of_days n = (y, m, d)"
  shows "days_of_civil y m d = n" "valid_date y m d"
proof -
  let ?k = "n - days_before_year y"
  have y: "y = year_of_day n" and m: "m = month_of_yday (is_leap y) ?k"
    and d: "d = ?k - month_start (is_leap y) m + 1"
    using assms by (auto simp: civil_of_days_def Let_def)
  have "0 \<le> ?k" "?k < (if is_leap y then 366 else 365)"
    using year_of_day_bounds [of n] unfolding y days_before_year_Suc by auto
  note b = month_of_yday_bounds [OF this, folded m]
  show "days_of_civil y m d = n" by (simp add: days_of_civil_def d)
  show "valid_date y m d" using b by (simp add: valid_date_def days_in_def d)
qed

subsection \<open>Printing\<close>

text \<open>\<open>appendInt\<close>: decimal digits padded with zeros to a width.\<close>

definition pad_nat :: "nat \<Rightarrow> nat \<Rightarrow> string" where
  "pad_nat w n = (let s = nat_string 10 n in replicate (w - length s) (CHR ''0'') @ s)"

definition appendInt :: "int \<Rightarrow> nat \<Rightarrow> string" where
  "appendInt x w = (if x < 0 then ''-'' @ pad_nat w (nat (- x)) else pad_nat w (nat x))"

definition clock_of :: "time \<Rightarrow> int \<times> int \<times> int" where
  "clock_of t = (let s = t div Second mod 86400 in (s div 3600, s mod 3600 div 60, s mod 60))"

definition date_of :: "time \<Rightarrow> int \<times> int \<times> int" where
  "date_of t = civil_of_days (t div Second div 86400)"

definition format_date :: "time \<Rightarrow> string" where
  "format_date t =
     (case date_of t of (y, m, d) \<Rightarrow> appendInt y 4 @ ''-'' @ appendInt m 2 @ ''-'' @ appendInt d 2)"

definition format_clock :: "time \<Rightarrow> string" where
  "format_clock t =
     (case clock_of t of (h, mi, s) \<Rightarrow> appendInt h 2 @ '':'' @ appendInt mi 2 @ '':'' @ appendInt s 2)"

definition format_rfc3339 :: "time \<Rightarrow> string" where
  "format_rfc3339 t = format_date t @ ''T'' @ format_clock t @ ''Z''"

definition format_datetime :: "time \<Rightarrow> string" where
  "format_datetime t = format_date t @ '' '' @ format_clock t"

subsection \<open>Parsing\<close>

text \<open>A fixed number of digits; \<open>getnum\<close> without \<open>fixed\<close> also takes one digit.\<close>

definition take_num :: "nat \<Rightarrow> string \<Rightarrow> (nat \<times> string) option" where
  "take_num w s =
     (if length s < w then None
      else map_option (\<lambda>ds. (nat_of_digits 10 ds, drop w s)) (those (map (digit_in 10) (take w s))))"

definition getnum :: "string \<Rightarrow> (nat \<times> string) option" where
  "getnum s = (case take_num 2 s of Some r \<Rightarrow> Some r | None \<Rightarrow> take_num 1 s)"

definition skip_char :: "char \<Rightarrow> string \<Rightarrow> string option" where
  "skip_char c s = (case s of [] \<Rightarrow> None | d # r \<Rightarrow> if d = c then Some r else None)"

text \<open>A space of the layout matches one or more spaces, or the end of the value.\<close>

definition skip_spaces :: "string \<Rightarrow> string option" where
  "skip_spaces s = (if s \<noteq> [] \<and> hd s \<noteq> CHR '' '' then None else Some (dropWhile ((=) (CHR '' '')) s))"

text \<open>Year, month and day; the day is checked against the month after the whole value is read.\<close>

definition parse_date :: "string \<Rightarrow> ((int \<times> int \<times> int) \<times> string) option" where
  "parse_date s0 =
     Option.bind (take_num 4 s0) (\<lambda>(y, s1).
     Option.bind (skip_char (CHR ''-'') s1) (\<lambda>s2.
     Option.bind (take_num 2 s2) (\<lambda>(m, s3).
     if m < 1 \<or> 12 < m then None else
     Option.bind (skip_char (CHR ''-'') s3) (\<lambda>s4.
     Option.bind (take_num 2 s4) (\<lambda>(d, s5).
     Some ((int y, int m, int d), s5))))))"

text \<open>
  A fraction of a second may follow the seconds although the layouts have none: digits past the
  ninth are dropped and missing ones count as zeros.
\<close>

definition parse_fraction :: "string \<Rightarrow> int \<times> string" where
  "parse_fraction s =
     (case s of
        c # r \<Rightarrow>
          (let ds = takeWhile (\<lambda>x. digit_in 10 x \<noteq> None) r in
           if (c = CHR ''.'' \<or> c = CHR '','') \<and> ds \<noteq> []
           then (let kept = take 9 ds in
                 (int (nat_of_digits 10 (map (\<lambda>x. the (digit_in 10 x)) kept)) * 10 ^ (9 - length kept),
                  drop (length ds) r))
           else (0, s))
      | [] \<Rightarrow> (0, s))"

definition parse_clock :: "string \<Rightarrow> (int \<times> string) option" where
  "parse_clock s0 =
     Option.bind (getnum s0) (\<lambda>(h, s1).
     if 24 \<le> h then None else
     Option.bind (skip_char (CHR '':'') s1) (\<lambda>s2.
     Option.bind (take_num 2 s2) (\<lambda>(mi, s3).
     if 60 \<le> mi then None else
     Option.bind (skip_char (CHR '':'') s3) (\<lambda>s4.
     Option.bind (take_num 2 s4) (\<lambda>(sec, s5).
     if 60 \<le> sec then None else
     (case parse_fraction s5 of (nsec, s6) \<Rightarrow>
        Some ((int h * 3600 + int mi * 60 + int sec) * Second + nsec, s6)))))))"

text \<open>The zone \<open>Z07:00\<close>: \<open>Z\<close>, or a signed offset with a colon, in seconds.\<close>

definition parse_zone :: "string \<Rightarrow> (int \<times> string) option" where
  "parse_zone s =
     (case s of
        [] \<Rightarrow> None
      | c # r \<Rightarrow>
          if c = CHR ''Z'' then Some (0, r)
          else if length s < 6 \<or> s ! 3 \<noteq> CHR '':'' then None
          else Option.bind (take_num 2 r) (\<lambda>(hh, r1).
               Option.bind (take_num 2 (drop 1 r1)) (\<lambda>(mm, r2).
               if 24 < hh \<or> 60 < mm then None
               else if c = CHR ''+'' then Some (int (hh * 60 + mm) * 60, r2)
               else if c = CHR ''-'' then Some (- (int (hh * 60 + mm) * 60), r2)
               else None)))"

definition date_time :: "int \<times> int \<times> int \<Rightarrow> int \<Rightarrow> int \<Rightarrow> time option" where
  "date_time ymd clock offset =
     (case ymd of (y, m, d) \<Rightarrow>
        if d < 1 \<or> days_in m y < d then None
        else Some (days_of_civil y m d * 86400 * Second + clock - offset * Second))"

definition parse_rfc3339 :: "string \<Rightarrow> time option" where
  "parse_rfc3339 s0 =
     Option.bind (parse_date s0) (\<lambda>(ymd, s1).
     Option.bind (skip_char (CHR ''T'') s1) (\<lambda>s2.
     Option.bind (parse_clock s2) (\<lambda>(clock, s3).
     Option.bind (parse_zone s3) (\<lambda>(offset, s4).
     if s4 \<noteq> [] then None else date_time ymd clock offset))))"

definition parse_datetime :: "string \<Rightarrow> time option" where
  "parse_datetime s0 =
     Option.bind (parse_date s0) (\<lambda>(ymd, s1).
     Option.bind (skip_spaces s1) (\<lambda>s2.
     Option.bind (parse_clock s2) (\<lambda>(clock, s3).
     if s3 \<noteq> [] then None else date_time ymd clock 0)))"

subsection \<open>Parsing what was printed\<close>

lemma pad_nat_digits:
  assumes "0 < w" "n < 10 ^ w"
  shows "length (pad_nat w n) = w"
    "\<exists>ds. map (digit_in 10) (pad_nat w n) = map Some ds \<and> nat_of_digits 10 ds = n"
proof -
  have len: "length (digits_of 10 n) \<le> w" using length_digits_of_le [of 10 w n] assms by simp
  then show "length (pad_nat w n) = w" by (simp add: pad_nat_def nat_string_def Let_def)
  have "map (digit_in 10) (nat_string 10 n) = map Some (digits_of 10 n)"
    using digits_of_less [of 10 _ n] by (simp add: nat_string_def)
  moreover have "digit_in 10 (CHR ''0'') = Some 0" by (simp add: digit_in_def digit_val_def)
  ultimately have "map (digit_in 10) (pad_nat w n)
      = map Some (replicate (w - length (digits_of 10 n)) 0 @ digits_of 10 n)"
    by (simp add: pad_nat_def Let_def) (simp add: nat_string_def)
  then show "\<exists>ds. map (digit_in 10) (pad_nat w n) = map Some ds \<and> nat_of_digits 10 ds = n"
    by (intro exI [of _ "replicate (w - length (digits_of 10 n)) 0 @ digits_of 10 n"]) simp
qed

lemma take_num_pad:
  assumes "0 < w" "n < 10 ^ w"
  shows "take_num w (pad_nat w n @ r) = Some (n, r)"
proof -
  obtain ds where ds: "map (digit_in 10) (pad_nat w n) = map Some ds" "nat_of_digits 10 ds = n"
    using pad_nat_digits(2) [OF assms] by blast
  then have "those (map (digit_in 10) (pad_nat w n)) = Some ds" by (simp add: those_Some_iff)
  with ds pad_nat_digits(1) [OF assms] show ?thesis by (simp add: take_num_def)
qed

lemma take_num_appendInt:
  "0 \<le> x \<Longrightarrow> x < 10 ^ w \<Longrightarrow> 0 < w \<Longrightarrow> take_num w (appendInt x w @ r) = Some (nat x, r)"
  using take_num_pad [of w "nat x" r] by (simp add: appendInt_def nat_less_iff)

lemma getnum_appendInt:
  "0 \<le> x \<Longrightarrow> x < 100 \<Longrightarrow> getnum (appendInt x 2 @ r) = Some (nat x, r)"
  using take_num_appendInt [of x 2 r] by (simp add: getnum_def)

lemma skip_char_append [simp]: "skip_char c (c # r) = Some r"
  by (simp add: skip_char_def)

lemma valid_date_bounds: "valid_date y m d \<Longrightarrow> 1 \<le> m \<and> m \<le> 12 \<and> 1 \<le> d \<and> d \<le> 31"
  by (auto simp: valid_date_def days_in_def month_start_def split: if_splits)

lemma parse_date_format:
  assumes "date_of t = (y, m, d)" "0 \<le> y" "y \<le> 9999"
  shows "parse_date (format_date t @ r) = Some ((y, m, d), r)"
proof -
  have "valid_date y m d" using civil_of_days_inverse(2) assms(1) by (simp add: date_of_def)
  then have b: "1 \<le> m" "m \<le> 12" "1 \<le> d" "d \<le> 31" using valid_date_bounds by blast+
  have "\<not> (nat m < 1 \<or> 12 < nat m)" using b by linarith
  with assms b show ?thesis
    by (simp add: parse_date_def format_date_def take_num_appendInt)
qed

lemma clock_of_bounds:
  assumes "clock_of t = (h, mi, s)"
  shows "0 \<le> h" "h < 24" "0 \<le> mi" "mi < 60" "0 \<le> s" "s < 60"
    "h * 3600 + mi * 60 + s = t div Second mod 86400"
proof -
  let ?s = "t div Second mod 86400"
  have e: "h = ?s div 3600" "mi = ?s mod 3600 div 60" "s = ?s mod 60"
    using assms by (auto simp: clock_of_def Let_def)
  have "0 \<le> ?s" "?s < 86400" by simp_all
  then show "0 \<le> h" "h < 24" "0 \<le> mi" "mi < 60" "0 \<le> s" "s < 60" unfolding e by linarith+
  have "?s mod 3600 mod 60 = ?s mod 60" by (rule mod_mod_cancel) simp
  then show "h * 3600 + mi * 60 + s = ?s"
    unfolding e using div_mult_mod_eq [of ?s 3600] div_mult_mod_eq [of "?s mod 3600" 60] by linarith
qed

lemma parse_clock_format:
  assumes "parse_fraction r = (0, r)"
  shows "parse_clock (format_clock t @ r) = Some (t div Second mod 86400 * Second, r)"
proof -
  obtain h mi s where c: "clock_of t = (h, mi, s)" by (cases "clock_of t")
  note b = clock_of_bounds [OF c]
  have n: "\<not> 24 \<le> nat h" "\<not> 60 \<le> nat mi" "\<not> 60 \<le> nat s" using b by linarith+
  have "(int (nat h) * 3600 + int (nat mi) * 60 + int (nat s)) = t div Second mod 86400"
    using b by simp
  with b n assms c show ?thesis
    by (simp add: parse_clock_def format_clock_def take_num_appendInt getnum_appendInt)
qed

lemma date_time_date_of:
  assumes "date_of t = (y, m, d)"
  shows "date_time (y, m, d) (t div Second mod 86400 * Second) 0
    = Some (t div Second * Second)"
proof -
  have d: "days_of_civil y m d = t div Second div 86400" "valid_date y m d"
    using civil_of_days_inverse assms by (simp_all add: date_of_def)
  have "t div Second div 86400 * 86400 + t div Second mod 86400 = t div Second" by simp
  then have "t div Second div 86400 * 86400 * Second + t div Second mod 86400 * Second
      = t div Second * Second"
    by (metis distrib_right)
  with d show ?thesis by (simp add: date_time_def valid_date_def)
qed

definition four_digit_year :: "time \<Rightarrow> bool" where
  "four_digit_year t \<longleftrightarrow> (case date_of t of (y, m, d) \<Rightarrow> 0 \<le> y \<and> y \<le> 9999)"

definition to_second :: "time \<Rightarrow> time" where
  "to_second t = t div Second * Second"

lemma parse_format_rfc3339:
  assumes "four_digit_year t"
  shows "parse_rfc3339 (format_rfc3339 t) = Some (to_second t)"
proof -
  obtain y m d where d: "date_of t = (y, m, d)" by (cases "date_of t")
  moreover have "parse_fraction ''Z'' = (0, ''Z'')" by (simp add: parse_fraction_def)
  ultimately show ?thesis
    using assms parse_date_format [OF d] parse_clock_format [of "''Z''" t] date_time_date_of [OF d]
    by (simp add: four_digit_year_def parse_rfc3339_def format_rfc3339_def parse_zone_def to_second_def)
qed

lemma skip_spaces_digit: "skip_spaces (CHR '' '' # format_clock t) = Some (format_clock t)"
proof -
  obtain h mi s where c: "clock_of t = (h, mi, s)" by (cases "clock_of t")
  then have "0 \<le> h" "nat h < 10 ^ 2" using clock_of_bounds [OF c] by auto
  then obtain ds where ds: "map (digit_in 10) (appendInt h 2) = map Some ds" "length (appendInt h 2) = 2"
    using pad_nat_digits [of 2 "nat h"] by (auto simp: appendInt_def)
  then obtain x xs where x: "appendInt h 2 = x # xs" by (cases "appendInt h 2") auto
  with ds have "digit_in 10 x \<noteq> None" by auto
  then have "x \<noteq> CHR '' ''" by (auto simp: digit_in_def digit_val_def)
  with c x show ?thesis by (simp add: skip_spaces_def format_clock_def)
qed

lemma parse_format_datetime:
  assumes "four_digit_year t"
  shows "parse_datetime (format_datetime t) = Some (to_second t)"
proof -
  obtain y m d where d: "date_of t = (y, m, d)" by (cases "date_of t")
  moreover have "parse_fraction [] = (0, [])" by (simp add: parse_fraction_def)
  ultimately show ?thesis
    using assms parse_date_format [OF d] parse_clock_format [of "[]" t] date_time_date_of [OF d]
      skip_spaces_digit [of t]
    by (simp add: four_digit_year_def parse_datetime_def format_datetime_def to_second_def)
qed

lemma to_second_bounds: "to_second t \<le> t" "t < to_second t + Second"
proof -
  have "t = t div Second * Second + t mod Second" by simp
  moreover have "0 \<le> t mod Second" "t mod Second < Second" by (simp_all add: Second_def)
  ultimately show "to_second t \<le> t" "t < to_second t + Second" unfolding to_second_def by linarith+
qed

lemma to_second_idem [simp]: "to_second (to_second t) = to_second t"
  by (simp add: to_second_def Second_def)

end
