(* ===== verification/Go_Config.thy ===== *)
theory Go_Config
  imports Go_Time
begin

text \<open>
  The part of Go's standard library that only the start-up of the server uses:
  \<open>strings.ToLower\<close> on text that need not be ASCII, and \<open>time.ParseDuration\<close> with its 64-bit overflow checks and its \<open>float64\<close> arithmetic for fractions.
\<close>

subsection \<open>Lower case\<close>

text \<open>
  \<open>strings.ToLower\<close>, as far as a comparison with ASCII text can tell: the only letters outside ASCII
  whose lower case is in ASCII are the dotted capital I (U+0130) and the Kelvin sign (U+212A).
\<close>

definition dotted_I :: string where "dotted_I = map char_of [0xC4 :: nat, 0xB0]"
definition kelvin :: string where "kelvin = map char_of [0xE2 :: nat, 0x84, 0xAA]"

fun lower_utf8 :: "string \<Rightarrow> string" where
  "lower_utf8 [] = []"
| "lower_utf8 (c # s) =
     (if HasPrefix (c # s) dotted_I then CHR ''i'' # lower_utf8 (drop 1 s)
      else if HasPrefix (c # s) kelvin then CHR ''k'' # lower_utf8 (drop 2 s)
      else lower_char c # lower_utf8 s)"

lemma lower_utf8_ascii: "\<forall>c \<in> set s. (of_char c :: nat) < 128 \<Longrightarrow> lower_utf8 s = ToLower s"
  by (induction s) (auto simp: ToLower_def HasPrefix_iff dotted_I_def kelvin_def)

subsection \<open>Floating point\<close>

text \<open>
  A positive \<open>float64\<close> as a fraction.  \<open>float64 n d\<close> is the double nearest to n/d, ties to even; the
  numbers here are far from the ends of the exponent's range.
\<close>

definition round_half_even :: "nat \<Rightarrow> nat \<Rightarrow> nat" where
  "round_half_even n d =
     (let k = n div d; r = n mod d in if 2 * r < d \<or> 2 * r = d \<and> even k then k else Suc k)"

definition float_exponent :: "nat \<Rightarrow> nat \<Rightarrow> int" where
  "float_exponent n d =
     (let a = int (BitLen n) - int (BitLen d) in
      (if d * 2 ^ nat a \<le> n * 2 ^ nat (- a) then a else a - 1) - 52)"

definition float64 :: "nat \<Rightarrow> nat \<Rightarrow> nat \<times> nat" where
  "float64 n d =
     (if n = 0 then (0, 1)
      else let e = float_exponent n d;
               m = round_half_even (n * 2 ^ nat (- e)) (d * 2 ^ nat e)
           in (m * 2 ^ nat e, 2 ^ nat (- e)))"

text \<open>\<open>uint64(float64(f) * (float64(unit) / scale))\<close>; \<open>scale\<close> is a power of ten that is exact.\<close>

definition fraction_ns :: "nat \<Rightarrow> nat \<Rightarrow> nat \<Rightarrow> nat" where
  "fraction_ns f unit scale =
     (case (float64 f 1, float64 unit scale) of ((a, b), (c, d)) \<Rightarrow>
        (case float64 (a * c) (b * d) of (p, q) \<Rightarrow> p div q))"

subsection \<open>Durations\<close>

definition unitMap :: "string \<Rightarrow> nat option" where
  "unitMap u =
     (if u = ''ns'' then Some 1
      else if u = ''us'' \<or> u = map char_of [0xC2 :: nat, 0xB5] @ ''s'' \<or> u = map char_of [0xCE :: nat, 0xBC] @ ''s''
      then Some 1000
      else if u = ''ms'' then Some 1000000
      else if u = ''s'' then Some 1000000000
      else if u = ''m'' then Some 60000000000
      else if u = ''h'' then Some 3600000000000
      else None)"

fun leadingInt :: "nat \<Rightarrow> string \<Rightarrow> (nat \<times> string) option" where
  "leadingInt x [] = Some (x, [])"
| "leadingInt x (c # s) =
     (case digit_in 10 c of
        None \<Rightarrow> Some (x, c # s)
      | Some k \<Rightarrow>
          if 2 ^ 63 div 10 < x then None
          else if 2 ^ 63 < x * 10 + k then None
          else leadingInt (x * 10 + k) s)"

text \<open>The value, the scale, and the rest; digits after an overflow are skipped.\<close>

fun leadingFraction :: "bool \<Rightarrow> nat \<Rightarrow> nat \<Rightarrow> string \<Rightarrow> nat \<times> nat \<times> string" where
  "leadingFraction overflow x scale [] = (x, scale, [])"
| "leadingFraction overflow x scale (c # s) =
     (case digit_in 10 c of
        None \<Rightarrow> (x, scale, c # s)
      | Some k \<Rightarrow>
          if overflow \<or> (2 ^ 63 - 1) div 10 < x \<or> 2 ^ 63 < x * 10 + k
          then leadingFraction True x scale s
          else leadingFraction False (x * 10 + k) (scale * 10) s)"

definition number_char :: "char \<Rightarrow> bool" where
  "number_char c \<longleftrightarrow> c = CHR ''.'' \<or> digit_in 10 c \<noteq> None"

text \<open>One turn of the loop: a number, a unit, and the sum so far (\<open>uint64\<close>).\<close>

definition duration_term :: "string \<Rightarrow> nat \<Rightarrow> string \<Rightarrow> (nat \<times> string) result" where
  "duration_term orig d s =
     (let invalid = Inl (Errorf ''time: invalid duration %q'' [orig]) in
      if \<not> number_char (hd s) then invalid
      else case leadingInt 0 s of
        None \<Rightarrow> invalid
      | Some (v, s1) \<Rightarrow>
          (let pre = (length s1 \<noteq> length s);
               dot = (s1 \<noteq> [] \<and> hd s1 = CHR ''.'');
               (f, scale, s2) = (if dot then leadingFraction False 0 1 (tl s1) else (0, 1, s1));
               post = (dot \<and> length s2 \<noteq> length (tl s1));
               u = takeWhile (\<lambda>c. \<not> number_char c) s2;
               rest = dropWhile (\<lambda>c. \<not> number_char c) s2
           in if \<not> pre \<and> \<not> post then invalid
              else if u = [] then Inl (Errorf ''time: missing unit in duration %q'' [orig])
              else case unitMap u of
                None \<Rightarrow> Inl (Errorf ''time: unknown unit %q in duration %q'' [u, orig])
              | Some unit \<Rightarrow>
                  if 2 ^ 63 div unit < v then invalid
                  else let w = v * unit + (if 0 < f then fraction_ns f unit scale else 0) in
                       if 0 < f \<and> 2 ^ 63 < w then invalid
                       else let d1 = (d + w) mod 2 ^ 64 in
                            if 2 ^ 63 < d1 then invalid else Inr (d1, rest)))"

lemma leadingInt_length: "leadingInt x s = Some (v, r) \<Longrightarrow> length r \<le> length s"
  by (induction x s rule: leadingInt.induct) (auto split: option.splits if_splits)

lemma leadingFraction_length: "length (snd (snd (leadingFraction b x k s))) \<le> length s"
  by (induction b x k s rule: leadingFraction.induct) (auto split: option.splits)

lemma duration_term_shorter:
  assumes "duration_term orig d s = Inr (d', rest)"
  shows "length rest < length s"
proof -
  obtain v s1 where li: "leadingInt 0 s = Some (v, s1)"
    using assms by (auto simp: duration_term_def Let_def split: option.splits if_splits)
  define s2 where "s2 = (if s1 \<noteq> [] \<and> hd s1 = CHR ''.'' then snd (snd (leadingFraction False 0 1 (tl s1))) else s1)"
  have s2: "length s2 \<le> length s1"
    using leadingFraction_length [of False 0 1 "tl s1"] by (cases s1) (auto simp: s2_def)
  have "takeWhile (\<lambda>c. \<not> number_char c) s2 \<noteq> [] \<and> rest = dropWhile (\<lambda>c. \<not> number_char c) s2"
    using assms li by (auto simp: duration_term_def Let_def s2_def split: option.splits if_splits prod.splits)
  then have "length rest < length s2"
    by (metis append_self_conv2 length_dropWhile_le linorder_neqE_nat not_less takeWhile_dropWhile_id
        length_append length_greater_0_conv less_add_same_cancel2)
  with s2 leadingInt_length [OF li] show ?thesis by simp
qed

function duration_loop :: "string \<Rightarrow> nat \<Rightarrow> string \<Rightarrow> nat result" where
  "duration_loop orig d s =
     (if s = [] then Inr d
      else case duration_term orig d s of
             Inl e \<Rightarrow> Inl e
           | Inr (d', rest) \<Rightarrow> duration_loop orig d' rest)"
  by auto
termination
  by (relation "measure (\<lambda>(orig, d, s). length s)") (auto dest: duration_term_shorter)

declare duration_loop.simps [simp del]

definition ParseDuration :: "string \<Rightarrow> duration result" where
  "ParseDuration orig =
     (let signed = (orig \<noteq> [] \<and> (hd orig = CHR ''-'' \<or> hd orig = CHR ''+''));
          neg = (orig \<noteq> [] \<and> hd orig = CHR ''-'');
          s = (if signed then tl orig else orig);
          invalid = Inl (Errorf ''time: invalid duration %q'' [orig])
      in if s = ''0'' then Inr 0
         else if s = '''' then invalid
         else case duration_loop orig 0 s of
                Inl e \<Rightarrow> Inl e
              | Inr d \<Rightarrow>
                  if neg then Inr (- int d)
                  else if 2 ^ 63 - 1 < d then invalid
                  else Inr (int d))"

text \<open>The result fits a \<open>Duration\<close>.\<close>

lemma duration_term_bound: "duration_term orig d s = Inr (d', rest) \<Longrightarrow> d' \<le> 2 ^ 63"
  by (auto simp: duration_term_def Let_def split: option.splits if_splits prod.splits)

lemma duration_loop_bound: "duration_loop orig d s = Inr d' \<Longrightarrow> d \<le> 2 ^ 63 \<Longrightarrow> d' \<le> 2 ^ 63"
proof (induction orig d s rule: duration_loop.induct)
  case (1 orig d s)
  show ?case
  proof (cases "s = []")
    case True
    with 1(2,3) show ?thesis by (simp add: duration_loop.simps)
  next
    case False
    with 1(2) obtain d1 rest where t: "duration_term orig d s = Inr (d1, rest)" "duration_loop orig d1 rest = Inr d'"
      by (subst (asm) duration_loop.simps) (auto split: sum.splits)
    from 1(1) [OF False t(1) refl t(2) duration_term_bound [OF t(1)]] show ?thesis .
  qed
qed

lemma ParseDuration_bounds: "ParseDuration s = Inr d \<Longrightarrow> - (2 ^ 63) \<le> d \<and> d < 2 ^ 63"
  using duration_loop_bound [of s 0]
  by (fastforce simp: ParseDuration_def Let_def split: sum.splits if_splits)

text \<open>A whole number of units.\<close>

lemma leadingInt_digits:
  assumes "\<forall>k \<in> set ds. k < 10" and "x * 10 ^ length ds + nat_of_digits 10 ds < 2 ^ 63"
    and "r = [] \<or> digit_in 10 (hd r) = None"
  shows "leadingInt x (map digit_char ds @ r) = Some (x * 10 ^ length ds + nat_of_digits 10 ds, r)"
  using assms(1,2)
proof (induction ds arbitrary: x)
  case Nil
  with assms(3) show ?case by (cases r) auto
next
  case (Cons k ds)
  have e: "(x * 10 + k) * 10 ^ length ds + nat_of_digits 10 ds = x * 10 ^ length (k # ds) + nat_of_digits 10 (k # ds)"
    by (simp add: nat_of_digits_Cons algebra_simps)
  have "x * 10 + k \<le> (x * 10 + k) * 10 ^ length ds" by simp
  with e Cons.prems(2) have b: "x * 10 + k < 2 ^ 63" by linarith
  then have x: "\<not> 2 ^ 63 div 10 < x" "\<not> 2 ^ 63 < x * 10 + k" by simp_all
  have "digit_in 10 (digit_char k) = Some k" using Cons.prems(1) by simp
  then have "leadingInt x (map digit_char (k # ds) @ r) = leadingInt (x * 10 + k) (map digit_char ds @ r)"
    using x by simp
  also have "\<dots> = Some ((x * 10 + k) * 10 ^ length ds + nat_of_digits 10 ds, r)"
    by (rule Cons.IH) (use Cons.prems e in simp_all)
  finally show ?case by (simp only: e)
qed

lemma number_char_code: "number_char c \<longleftrightarrow> of_char c = (46 :: nat) \<or> in_range 48 57 c"
proof -
  have "c = CHR ''.'' \<longleftrightarrow> of_char c = (46 :: nat)"
  proof
    assume "of_char c = (46 :: nat)"
    then have "of_char c = (of_char (CHR ''.'') :: nat)" by simp
    then show "c = CHR ''.''" by (simp only: of_char_eq_iff)
  qed simp
  then show ?thesis by (auto simp: number_char_def digit_in_def digit_val_def Let_def)
qed

lemma unitMap_chars: "unitMap u = Some k \<Longrightarrow> u \<noteq> [] \<and> 0 < k \<and> (\<forall>c \<in> set u. \<not> number_char c)"
  by (auto simp: unitMap_def number_char_code split: if_splits)

lemma ParseDuration_units:
  assumes u: "unitMap u = Some k" and n: "n * k < 2 ^ 63"
  shows "ParseDuration (nat_string 10 n @ u) = Inr (int (n * k))"
proof -
  let ?s = "nat_string 10 n @ u"
  have uc: "u \<noteq> []" "0 < k" "\<forall>c \<in> set u. \<not> number_char c" using unitMap_chars [OF u] by auto
  have ds: "nat_string 10 n \<noteq> []" "\<forall>d \<in> set (digits_of 10 n). d < 10"
    using digits_of_less [of 10 _ n] by auto
  then obtain d ds' where dd: "digits_of 10 n = d # ds'" by (cases "digits_of 10 n") auto
  then have h: "hd ?s = digit_char d" "d < 10" using ds by (auto simp: nat_string_def)
  have hu: "hd u \<in> set u" using uc(1) by simp
  have n63: "n < 2 ^ 63" using n uc(2) by (metis le_less_trans mult.right_neutral mult_le_mono2 Suc_leI One_nat_def)
  have li: "leadingInt 0 ?s = Some (n, u)"
    using leadingInt_digits [of "digits_of 10 n" 0 u] ds(2) n63 uc hu
    by (auto simp: nat_string_def number_char_def)
  have nk: "\<not> 2 ^ 63 div k < n"
    using n uc(2) by (meson less_imp_le_nat less_mult_imp_div_less linorder_not_less div_less_iff_less_mult leD)
  have tw: "takeWhile (\<lambda>c. \<not> number_char c) u = u" "dropWhile (\<lambda>c. \<not> number_char c) u = []"
    using uc(3) by simp_all
  have dot: "hd u \<noteq> CHR ''.''" using uc(3) hu by (auto simp: number_char_def)
  have "number_char (hd ?s)" using h by (simp add: number_char_def)
  then have "duration_term ?s 0 ?s = Inr (n * k, [])"
    using li nk tw dot uc(1) u n ds(1) by (simp add: duration_term_def Let_def del: takeWhile_eq_all_conv dropWhile_eq_Nil_conv)
  then have lp: "duration_loop ?s 0 ?s = Inr (n * k)"
    using uc(1) by (subst duration_loop.simps) (simp add: duration_loop.simps)
  have sg: "hd ?s \<noteq> CHR ''-'' \<and> hd ?s \<noteq> CHR ''+''"
    using h digit_val_digit_char [of d] by (auto simp: digit_val_def)
  have z: "?s \<noteq> ''0''"
  proof
    assume "?s = ''0''"
    then have "length (nat_string 10 n) + length u = 1" by (metis length_append length_Cons list.size(3) One_nat_def)
    with ds(1) uc(1) show False by (cases "nat_string 10 n"; cases u) auto
  qed
  show ?thesis using lp sg z n uc(1) by (simp add: ParseDuration_def Let_def)
qed

end
