(* ===== verification/Go_Path.thy ===== *)
theory Go_Path
  imports Go_Strings
begin

text \<open>
  \<open>path/filepath\<close> on a Unix system: \<open>Clean\<close>, which drops empty elements and dots and resolves
  \<open>..\<close> against the element before it, and \<open>Join\<close>, which cleans what it joins.
\<close>

subsection \<open>Cleaning\<close>

fun path_elements :: "string \<Rightarrow> string list" where
  "path_elements [] = [[]]"
| "path_elements (c # s) =
     (if c = CHR ''/'' then [] # path_elements s
      else case path_elements s of [] \<Rightarrow> [[c]] | e # es \<Rightarrow> (c # e) # es)"

text \<open>The elements kept so far, the last one first.\<close>

definition clean_step :: "bool \<Rightarrow> string \<Rightarrow> string list \<Rightarrow> string list" where
  "clean_step rooted e kept =
     (if e = '''' \<or> e = ''.'' then kept
      else if e = ''..''
      then (case kept of
              [] \<Rightarrow> if rooted then [] else [''..'']
            | prev # rest \<Rightarrow> if prev = ''..'' then ''..'' # kept else rest)
      else e # kept)"

definition Clean :: "string \<Rightarrow> string" where
  "Clean path =
     (if path = '''' then ''.''
      else let rooted = HasPrefix path ''/''; kept = fold (clean_step rooted) (path_elements path) [] in
        (if rooted then ''/'' else '''') @
        (case kept of
           [] \<Rightarrow> if rooted then '''' else ''.''
         | prev # rest \<Rightarrow> concat (map (\<lambda>e. e @ ''/'') (rev rest)) @ prev))"

definition filepath_Join :: "string \<Rightarrow> string \<Rightarrow> string" where
  "filepath_Join dir f =
     (if dir = '''' then (if f = '''' then '''' else Clean f) else Clean (dir @ ''/'' @ f))"

subsection \<open>A directory and a file name\<close>

definition file_name :: "string \<Rightarrow> bool" where
  "file_name f \<longleftrightarrow> f \<notin> {'''', ''.'', ''..''} \<and> CHR ''/'' \<notin> set f"

definition dir_prefix :: "string \<Rightarrow> string" where
  "dir_prefix d =
     (if d = '''' then ''''
      else (if HasPrefix d ''/'' then ''/'' else '''') @
        concat (map (\<lambda>e. e @ ''/'') (rev (fold (clean_step (HasPrefix d ''/'')) (path_elements d) []))))"

lemma path_elements_nonempty [simp]: "path_elements s \<noteq> []"
  by (cases s) (auto split: list.split)

lemma path_elements_append: "path_elements (d @ CHR ''/'' # f) = path_elements d @ path_elements f"
proof (induction d)
  case (Cons c d)
  then show ?case using path_elements_nonempty [of d] by (auto simp del: path_elements_nonempty split: list.splits)
qed simp

lemma path_elements_name: "CHR ''/'' \<notin> set f \<Longrightarrow> path_elements f = [f]"
  by (induction f) auto

lemma filepath_Join_name:
  assumes "file_name f"
  shows "filepath_Join d f = dir_prefix d @ f"
proof (cases "d = ''''")
  case True
  then show ?thesis
    using assms by (cases f) (auto simp: filepath_Join_def dir_prefix_def Clean_def file_name_def path_elements_name
        clean_step_def HasPrefix_iff simp del: path_elements.simps)
next
  case False
  then have r: "HasPrefix (d @ CHR ''/'' # f) ''/'' = HasPrefix d ''/''" by (cases d) (auto simp: HasPrefix_iff)
  have "clean_step b f kept = f # kept" for b kept using assms by (simp add: clean_step_def file_name_def)
  with False r assms show ?thesis
    by (simp add: filepath_Join_def dir_prefix_def Clean_def path_elements_append path_elements_name file_name_def)
qed

lemma filepath_Join_inject:
  "file_name f \<Longrightarrow> file_name g \<Longrightarrow> filepath_Join d f = filepath_Join d g \<longleftrightarrow> f = g"
  by (simp add: filepath_Join_name)

end
