(* ===== verification/Key_Manager.thy ===== *)
theory Key_Manager
  imports Go_Numerals Go_Path "HOL-Library.Multiset"
begin

text \<open>
  \<open>keymanager/keymanager.go\<close>: the download of the verifying keys at start-up.  The directory is a map
  from paths to contents; what the operating system and the network do to one goroutine is the
  parameter \<open>key_env\<close>, and SHA-256 is the parameter \<open>sha\<close>.  A reader is the bytes it delivers and
  the error it ends with, \<open>None\<close> for a clean end.  Each goroutine works on its own destination and on
  a temporary file of its own; \<open>EnsureKeys\<close> runs the goroutines one after the other, in any order, and
  \<open>Key_Threads\<close> shows that running them together gives the same.  Messages of \<open>log.Printf\<close> are not modelled.
\<close>

subsection \<open>Constants\<close>

definition releaseURL :: string where
  "releaseURL = ''https://github.com/privacy-ethereum/zkID/releases/download/RSA-X.509-Cert-latest''"

definition maxKeySize :: nat where "maxKeySize = 2 * 1024 * 1024 * 1024"

definition RequiredKeys :: "string list" where
  "RequiredKeys =
     [''cert_chain_rs2048_verifying.key'', ''cert_chain_rs4096_verifying.key'', ''user_sig_rs2048_verifying.key'']"

definition expectedSHA256 :: "string \<rightharpoonup> string" where
  "expectedSHA256 =
     [''cert_chain_rs2048_verifying.key'' \<mapsto> ''158fbb3f86d0b767060f3890d3903710fccc9798f360baba584829c969bba00b'',
      ''cert_chain_rs4096_verifying.key'' \<mapsto> ''498dc13211a4311900fcbf1df029be109880905d08c4ab271a2f795f4fa1da7c'',
      ''user_sig_rs2048_verifying.key'' \<mapsto> ''d85d0738827dcdfe13dc5fbf0ce8cddab5cbef3d55e6bf02c9c749190bdc3091'']"

subsection \<open>The environment of a goroutine\<close>

type_synonym files = "string \<rightharpoonup> byte list"

record stream =
  sm_bytes :: "byte list"
  sm_end :: "err option"

record key_env =
  ke_stat :: "err option"
  ke_open :: "err option"
  ke_read :: "err option"
  ke_remove :: "err option"
  ke_get :: "nat result"
  ke_gzip :: "stream result"
  ke_temp :: "string result"
  ke_write :: "(nat \<times> string) option"
  ke_close :: "err option"
  ke_rename :: "err option"
  ke_remove_tmp :: bool

subsection \<open>The operations\<close>

definition compareHash :: "string \<Rightarrow> string \<Rightarrow> err option" where
  "compareHash key got =
     (case expectedSHA256 key of
        None \<Rightarrow> Some (Sentinel ErrSkipVerify)
      | Some want \<Rightarrow>
          if want = '''' then Some (Sentinel ErrSkipVerify)
          else if got \<noteq> want
          then Some (Errorf ''sha256 mismatch for %s: got %s want %s'' [key, got, want])
          else None)"

definition verifyFile ::
  "(byte list \<Rightarrow> byte list) \<Rightarrow> key_env \<Rightarrow> string \<Rightarrow> string \<Rightarrow> files \<Rightarrow> err option" where
  "verifyFile sha en key path files =
     (case ke_open en of
        Some e \<Rightarrow> Some (Wrapf ''open %s: %w'' [path] e)
      | None \<Rightarrow>
     (case files path of
        None \<Rightarrow> Some (Wrapf ''open %s: %w'' [path] (Sentinel ErrNotExist))
      | Some b \<Rightarrow>
     (case ke_read en of
        Some e \<Rightarrow> Some (Wrapf ''read %s: %w'' [path] e)
      | None \<Rightarrow> compareHash key (EncodeToString (sha b)))))"

text \<open>
  \<open>io.CopyN\<close> moves at most \<open>limit\<close> bytes and reports an error only when it moved fewer; a write that
  fails after \<open>n\<close> bytes stops it.  The result is the data hashed, with the contents of the file.
\<close>

definition CopyN :: "(nat \<times> string) option \<Rightarrow> stream \<Rightarrow> nat \<Rightarrow> err option \<times> byte list" where
  "CopyN w r limit =
     (let data = take limit (sm_bytes r) in
      case w of
        Some (n, msg) \<Rightarrow>
          if n < length data then (Some (External msg), take n data)
          else (if length data = limit then None
                else case sm_end r of None \<Rightarrow> Some (Sentinel EOF) | Some x \<Rightarrow> Some x, data)
      | None \<Rightarrow>
          (if length data = limit then None
           else case sm_end r of None \<Rightarrow> Some (Sentinel EOF) | Some x \<Rightarrow> Some x, data))"

definition writeBoundedAndHash ::
  "(nat \<times> string) option \<Rightarrow> stream \<Rightarrow> nat \<Rightarrow> byte list result \<times> byte list" where
  "writeBoundedAndHash w r limit =
     (case CopyN w r limit of
        (err, written) \<Rightarrow>
          (if err \<noteq> None \<and> \<not> err_is (the err) EOF then Inl (the err)
           else if drop limit (sm_bytes r) \<noteq> [] then Inl (Sentinel ErrTruncated)
           else case sm_end r of
                  None \<Rightarrow> Inr written
                | Some e \<Rightarrow> if \<not> err_is e EOF then Inl e else Inr written, written))"

definition remove_tmp :: "key_env \<Rightarrow> string \<Rightarrow> files \<Rightarrow> files" where
  "remove_tmp en tmpFile files = (if ke_remove_tmp en then files(tmpFile := None) else files)"

definition downloadAndDecompress ::
  "(byte list \<Rightarrow> byte list) \<Rightarrow> key_env \<Rightarrow> string \<Rightarrow> string \<Rightarrow> files \<Rightarrow> err option \<times> files" where
  "downloadAndDecompress sha en key dest files =
     (let url = releaseURL @ ''/'' @ key @ ''.gz'' in
      case ke_get en of
        Inl e \<Rightarrow> (Some (Wrapf ''GET %s: %w'' [url] e), files)
      | Inr status \<Rightarrow>
          if status \<noteq> 200 then (Some (Errorf ''GET %s: status %d'' [url, nat_string 10 status]), files)
          else
     (case ke_gzip en of
        Inl e \<Rightarrow> (Some (Wrapf ''gzip reader: %w'' [] e), files)
      | Inr gz \<Rightarrow>
     (case ke_temp en of
        Inl e \<Rightarrow> (Some (Wrapf ''create tmp for %s: %w'' [key] e), files)
      | Inr tmpFile \<Rightarrow>
     (case writeBoundedAndHash (ke_write en) gz maxKeySize of
        (r, written) \<Rightarrow>
          let files1 = files(tmpFile \<mapsto> written) in
          (case r of
             Inl e \<Rightarrow>
               (Some (if err_is e ErrTruncated
                      then Errorf ''decompressed %s exceeds %d byte cap'' [key, nat_string 10 maxKeySize]
                      else Wrapf ''decompress %s: %w'' [key] e), remove_tmp en tmpFile files1)
           | Inr data \<Rightarrow>
          (case ke_close en of
             Some e \<Rightarrow> (Some (Wrapf ''close %s: %w'' [tmpFile] e), remove_tmp en tmpFile files1)
           | None \<Rightarrow>
               let err = compareHash key (EncodeToString (sha data)) in
               if err \<noteq> None \<and> \<not> err_is (the err) ErrSkipVerify
               then (err, remove_tmp en tmpFile files1)
               else (case ke_rename en of
                       Some e \<Rightarrow> (Some (Wrapf ''rename %s: %w'' [key] e), remove_tmp en tmpFile files1)
                     | None \<Rightarrow> (None, files1(tmpFile := None, dest \<mapsto> written)))))))))"

definition ensureOne ::
  "(byte list \<Rightarrow> byte list) \<Rightarrow> key_env \<Rightarrow> string \<Rightarrow> string \<Rightarrow> files \<Rightarrow> err option \<times> files" where
  "ensureOne sha en key dest files =
     (if ke_stat en = None \<and> files dest \<noteq> None
      then (case verifyFile sha en key dest files of
              None \<Rightarrow> (None, files)
            | Some e \<Rightarrow>
                if err_is e ErrSkipVerify then (None, files)
                else (case ke_remove en of
                        None \<Rightarrow> downloadAndDecompress sha en key dest (files(dest := None))
                      | Some rmErr \<Rightarrow>
                          if \<not> err_is rmErr ErrNotExist
                          then (Some (Wrapf ''remove stale %s: %w'' [key] rmErr), files)
                          else downloadAndDecompress sha en key dest files))
      else downloadAndDecompress sha en key dest files)"

definition key_path :: "string \<Rightarrow> string \<Rightarrow> string" where
  "key_path keysDir key = filepath_Join keysDir key"

text \<open>The goroutines, in the order in which they run; each stores its error at its key's index.\<close>

fun ensure_all ::
  "(byte list \<Rightarrow> byte list) \<Rightarrow> (string \<Rightarrow> key_env) \<Rightarrow> string \<Rightarrow> string list \<Rightarrow> (string \<Rightarrow> err option) \<Rightarrow> files
    \<Rightarrow> (string \<Rightarrow> err option) \<times> files" where
  "ensure_all sha envs keysDir [] errs files = (errs, files)"
| "ensure_all sha envs keysDir (key # keys) errs files =
     (case ensureOne sha (envs key) key (key_path keysDir key) files of
        (e, files') \<Rightarrow>
          ensure_all sha envs keysDir keys
            (errs(key := map_option (Wrapf ''ensure %s: %w'' [key]) e)) files')"

definition EnsureKeys ::
  "(byte list \<Rightarrow> byte list) \<Rightarrow> (string \<Rightarrow> key_env) \<Rightarrow> err option \<Rightarrow> string \<Rightarrow> string list \<Rightarrow> files
    \<Rightarrow> err option \<times> files" where
  "EnsureKeys sha envs mkdir keysDir order files =
     (case mkdir of
        Some e \<Rightarrow> (Some (Wrapf ''create keys dir: %w'' [] e), files)
      | None \<Rightarrow>
          (case ensure_all sha envs keysDir order (\<lambda>_. None) files of
             (errs, files') \<Rightarrow> (errors_Join (map errs RequiredKeys), files')))"

subsection \<open>Bounded copy\<close>

lemma writeBoundedAndHash_written:
  "writeBoundedAndHash w r limit = (Inr data, written) \<Longrightarrow> written = data"
  by (auto simp: writeBoundedAndHash_def CopyN_def Let_def split: option.splits if_splits)

text \<open>A clean end of the reader: no error, or one that is \<open>io.EOF\<close>.\<close>

definition ends_clean :: "stream \<Rightarrow> bool" where
  "ends_clean r \<longleftrightarrow> (case sm_end r of None \<Rightarrow> True | Some e \<Rightarrow> err_is e EOF)"

definition write_fits :: "(nat \<times> string) option \<Rightarrow> nat \<Rightarrow> bool" where
  "write_fits w n \<longleftrightarrow> (case w of None \<Rightarrow> True | Some (k, e) \<Rightarrow> n \<le> k)"

lemma CopyN_eq:
  "CopyN w r limit =
    (if write_fits w (length (take limit (sm_bytes r)))
     then (if limit \<le> length (sm_bytes r) then None
           else case sm_end r of None \<Rightarrow> Some (Sentinel EOF) | Some x \<Rightarrow> Some x, take limit (sm_bytes r))
     else case w of Some (n, msg) \<Rightarrow> (Some (External msg), take n (take limit (sm_bytes r)))
          | None \<Rightarrow> (None, []))"
  by (auto simp: CopyN_def write_fits_def Let_def min_def split: option.splits)

lemma writeBoundedAndHash_Inr:
  "(\<exists>written. writeBoundedAndHash w r limit = (Inr data, written)) \<longleftrightarrow>
     data = sm_bytes r \<and> length (sm_bytes r) \<le> limit \<and> ends_clean r \<and> write_fits w (length (sm_bytes r))"
proof (cases "write_fits w (length (take limit (sm_bytes r)))")
  case False
  then obtain n msg where "w = Some (n, msg)" by (auto simp: write_fits_def split: option.splits)
  with False show ?thesis
    by (auto simp: writeBoundedAndHash_def CopyN_eq write_fits_def)
next
  case True
  show ?thesis
  proof (cases "length (sm_bytes r) \<le> limit")
    case le: True
    with True show ?thesis
      by (auto simp: writeBoundedAndHash_def CopyN_eq ends_clean_def split: option.splits if_splits)
  next
    case False
    with True show ?thesis by (auto simp: writeBoundedAndHash_def CopyN_eq)
  qed
qed

subsection \<open>One key\<close>

text \<open>The content has the pinned checksum of its key, where one is recorded.\<close>

definition good_key :: "(byte list \<Rightarrow> byte list) \<Rightarrow> string \<Rightarrow> byte list \<Rightarrow> bool" where
  "good_key sha key b \<longleftrightarrow>
     (case expectedSHA256 key of None \<Rightarrow> True | Some want \<Rightarrow> want = '''' \<or> EncodeToString (sha b) = want)"

lemma compareHash_accepts:
  "compareHash key (EncodeToString (sha b)) = None \<or>
     err_is (the (compareHash key (EncodeToString (sha b)))) ErrSkipVerify \<longleftrightarrow> good_key sha key b"
  by (auto simp: compareHash_def good_key_def split: option.splits)

lemma verifyFile_accepts:
  assumes "verifyFile sha en key path files = None \<or> err_is (the (verifyFile sha en key path files)) ErrSkipVerify"
    and "\<forall>x \<in> {ke_open en, ke_read en}. \<forall>e. x = Some e \<longrightarrow> \<not> err_is e ErrSkipVerify"
  shows "\<exists>b. files path = Some b \<and> good_key sha key b"
  using assms compareHash_accepts [of key sha] by (auto simp: verifyFile_def split: option.splits)

lemma download_ok:
  assumes "downloadAndDecompress sha en key dest files = (None, files')"
  shows "\<exists>b tmp. good_key sha key b \<and> length b \<le> maxKeySize \<and> ke_temp en = Inr tmp
    \<and> files' = files(tmp := None, dest \<mapsto> b)"
proof -
  from assms obtain gz tmp data written where d: "ke_temp en = Inr tmp"
    "writeBoundedAndHash (ke_write en) gz maxKeySize = (Inr data, written)"
    "compareHash key (EncodeToString (sha data)) = None \<or>
     err_is (the (compareHash key (EncodeToString (sha data)))) ErrSkipVerify"
    "files' = files(tmp := None, dest \<mapsto> written)"
    by (auto simp: downloadAndDecompress_def Let_def split: sum.splits prod.splits if_splits option.splits)
  have w: "written = data" by (rule writeBoundedAndHash_written [OF d(2)])
  have "length data \<le> maxKeySize" using writeBoundedAndHash_Inr [of "ke_write en" gz maxKeySize data] d(2) by auto
  with d compareHash_accepts [of key sha data] show ?thesis
    unfolding w by (intro exI [of _ data] exI [of _ tmp]) simp
qed

text \<open>What any run may do: the destination and the temporary file are the only files it touches.\<close>

lemma download_fails:
  assumes "downloadAndDecompress sha en key dest files = (Some e, files')"
  shows "files' = files \<or> (\<exists>tmp c. ke_temp en = Inr tmp \<and> files' = remove_tmp en tmp (files(tmp \<mapsto> c)))"
  using assms
  by (auto simp: downloadAndDecompress_def Let_def split: sum.splits prod.splits if_splits option.splits)

lemma ensureOne_cases:
  assumes "ensureOne sha en key dest files = (e, files')"
  obtains (kept) "files' = files" "e = None \<Longrightarrow> verifyFile sha en key dest files = None
      \<or> err_is (the (verifyFile sha en key dest files)) ErrSkipVerify"
  | (fetched) fs where "fs = files \<or> fs = files(dest := None)" "downloadAndDecompress sha en key dest fs = (e, files')"
  using assms by (auto simp: ensureOne_def split: if_splits option.splits)

text \<open>
  What a goroutine is given: the errors of the operating system are not the program's own sentinel,
  and the temporary file is a new one in the same directory, whose name ends in \<open>.tmp\<close>.
\<close>

definition key_env_ok :: "string list \<Rightarrow> key_env \<Rightarrow> bool" where
  "key_env_ok dests en \<longleftrightarrow>
     (\<forall>x \<in> {ke_open en, ke_read en}. \<forall>e. x = Some e \<longrightarrow> \<not> err_is e ErrSkipVerify)
     \<and> (\<forall>tmp. ke_temp en = Inr tmp \<longrightarrow> tmp \<notin> set dests)"

lemma ensureOne_good:
  assumes "ensureOne sha en key dest files = (None, files')" "key_env_ok dests en"
  shows "\<exists>b. files' dest = Some b \<and> good_key sha key b"
  using assms(1)
proof (cases rule: ensureOne_cases)
  case kept
  with verifyFile_accepts [of sha en key dest files] assms(2) show ?thesis by (auto simp: key_env_ok_def)
next
  case (fetched fs)
  with download_ok [OF fetched(2)] show ?thesis by auto
qed

lemma ensureOne_frame:
  assumes "ensureOne sha en key dest files = (e, files')" "p \<noteq> dest" "ke_temp en \<noteq> Inr p"
  shows "files' p = files p"
  using assms(1)
proof (cases rule: ensureOne_cases)
  case (fetched fs)
  have "fs p = files p" using fetched(1) assms(2) by auto
  moreover have "files' p = fs p"
  proof (cases e)
    case None
    with download_ok [of sha en key dest fs files'] fetched(2) assms(2,3) show ?thesis by auto
  next
    case (Some er)
    with download_fails [of sha en key dest fs er files'] fetched(2) assms(2,3) show ?thesis
      by (auto simp: remove_tmp_def)
  qed
  ultimately show ?thesis by simp
qed simp

text \<open>A destination never changes to anything but a file with the pinned checksum.\<close>

lemma ensureOne_dest:
  assumes "ensureOne sha en key dest files = (e, files')" "ke_temp en \<noteq> Inr dest"
  shows "files' dest = files dest \<or> files' dest = None \<or> (\<exists>b. files' dest = Some b \<and> good_key sha key b)"
  using assms(1)
proof (cases rule: ensureOne_cases)
  case (fetched fs)
  show ?thesis
  proof (cases e)
    case None
    with download_ok [of sha en key dest fs files'] fetched(2) show ?thesis by auto
  next
    case (Some er)
    with download_fails [of sha en key dest fs er files'] fetched assms(2) show ?thesis
      by (cases "ke_remove_tmp en") (auto simp: remove_tmp_def)
  qed
qed simp

lemma ensureOne_tmp:
  assumes "ensureOne sha en key dest files = (e, files')" "ke_temp en = Inr tmp" "tmp \<noteq> dest"
    "files tmp = None" "ke_remove_tmp en"
  shows "files' tmp = None"
  using assms(1)
proof (cases rule: ensureOne_cases)
  case (fetched fs)
  have "fs tmp = None" using fetched(1) assms(4) by auto
  show ?thesis
  proof (cases e)
    case None
    with download_ok [of sha en key dest fs files'] fetched(2) assms(2,3) show ?thesis by auto
  next
    case (Some er)
    with download_fails [of sha en key dest fs er files'] fetched(2) assms(2,5) \<open>fs tmp = None\<close> show ?thesis
      by (auto simp: remove_tmp_def)
  qed
qed (use assms(4) in simp)

lemma ensureOne_success:
  assumes "ensureOne sha en key dest files = (None, files')" "p \<noteq> dest" "files p = None"
  shows "files' p = None"
  using assms(1)
proof (cases rule: ensureOne_cases)
  case (fetched fs)
  with download_ok [OF fetched(2)] assms(2,3) show ?thesis by auto
qed (use assms(3) in simp)

subsection \<open>All keys\<close>

lemma ensure_all_spec:
  assumes "ensure_all sha envs keysDir keys errs files = (errs', files')"
    and "distinct (map (key_path keysDir) keys)"
    and "\<forall>key \<in> set keys. key_env_ok (map (key_path keysDir) keys @ ds) (envs key)"
  shows "(\<forall>key \<in> set keys. errs' key = None \<longrightarrow> (\<exists>b. files' (key_path keysDir key) = Some b \<and> good_key sha key b))
    \<and> (\<forall>key. key \<notin> set keys \<longrightarrow> errs' key = errs key)
    \<and> (\<forall>p \<in> set ds. p \<notin> set (map (key_path keysDir) keys) \<longrightarrow> files' p = files p)"
  using assms
proof (induction keys arbitrary: errs files ds)
  case (Cons key keys)
  let ?d = "key_path keysDir key"
  obtain e fs where o: "ensureOne sha (envs key) key ?d files = (e, fs)" by fastforce
  define errs1 where "errs1 = errs(key := map_option (Wrapf ''ensure %s: %w'' [key]) e)"
  have r: "ensure_all sha envs keysDir keys errs1 fs = (errs', files')"
    using Cons.prems(1) o by (simp add: errs1_def)
  have env: "key_env_ok (?d # map (key_path keysDir) keys @ ds) (envs key)"
    "\<forall>k \<in> set keys. key_env_ok (map (key_path keysDir) keys @ (?d # ds)) (envs k)"
    using Cons.prems(3) by (auto simp: key_env_ok_def)
  have dist: "distinct (map (key_path keysDir) keys)" "?d \<notin> set (map (key_path keysDir) keys)"
    "key \<notin> set keys" using Cons.prems(2) by auto
  note ih = Cons.IH [OF r dist(1) env(2)]
  have keep: "fs p = files p" if "p \<in> set ds" "p \<noteq> ?d" for p
    using ensureOne_frame [OF o that(2)] env(1) that(1) by (auto simp: key_env_ok_def)
  have "errs' key = None \<Longrightarrow> \<exists>b. files' ?d = Some b \<and> good_key sha key b"
    using ih dist ensureOne_good [of sha "envs key" key ?d files fs] o env(1) by (auto simp: errs1_def)
  with ih keep dist show ?case by (auto simp: errs1_def)
qed simp

lemma required_keys_names: "key \<in> set RequiredKeys \<Longrightarrow> file_name key"
  unfolding RequiredKeys_def file_name_def by (simp, elim disjE) simp_all

lemma key_path_inject:
  "key \<in> set RequiredKeys \<Longrightarrow> key' \<in> set RequiredKeys \<Longrightarrow> key_path keysDir key = key_path keysDir key' \<longleftrightarrow> key = key'"
  by (simp add: key_path_def filepath_Join_inject required_keys_names)

lemma key_path_prefix: "key \<in> set RequiredKeys \<Longrightarrow> key_path keysDir key = dir_prefix keysDir @ key"
  by (simp add: key_path_def filepath_Join_name required_keys_names)

lemma dir_prefix_keys [simp]: "dir_prefix ''keys'' = ''keys/''"
  by (simp add: dir_prefix_def clean_step_def)

lemma demo_paths [simp]:
  "key_path ''keys'' ''cert_chain_rs2048_verifying.key'' = ''keys/cert_chain_rs2048_verifying.key''"
  "key_path ''keys'' ''cert_chain_rs4096_verifying.key'' = ''keys/cert_chain_rs4096_verifying.key''"
  "key_path ''keys'' ''user_sig_rs2048_verifying.key'' = ''keys/user_sig_rs2048_verifying.key''"
  by (simp_all add: key_path_prefix RequiredKeys_def)

lemma required_keys_recorded: "key \<in> set RequiredKeys \<Longrightarrow> \<exists>want. expectedSHA256 key = Some want \<and> want \<noteq> ''''"
  unfolding RequiredKeys_def expectedSHA256_def by (simp, elim disjE) simp_all

subsection \<open>Properties\<close>

text \<open>C27: keys are pinned: when \<open>EnsureKeys\<close> returns no error, in whatever order its goroutines ran and
  whatever was there before, each of the three verifying keys is in its place with exactly the
  SHA-256 the binary records for it.\<close>

theorem ensured_keys_are_pinned:
  assumes "EnsureKeys sha envs mkdir keysDir order files = (None, files')"
    and "set order = set RequiredKeys" and "distinct order"
    and "\<forall>key \<in> set RequiredKeys. key_env_ok (map (key_path keysDir) RequiredKeys) (envs key)"
    and "key \<in> set RequiredKeys"
  shows "\<exists>b. files' (key_path keysDir key) = Some b \<and> expectedSHA256 key = Some (EncodeToString (sha b))"
proof -
  obtain errs where e: "ensure_all sha envs keysDir order (\<lambda>_. None) files = (errs, files')"
    "errors_Join (map errs RequiredKeys) = None"
    using assms(1) by (auto simp: EnsureKeys_def split: option.splits prod.splits)
  have "inj_on (key_path keysDir) (set order)" using assms(2) by (auto simp: inj_on_def key_path_inject)
  then have d: "distinct (map (key_path keysDir) order)" using assms(3) by (simp add: distinct_map)
  have "\<forall>k \<in> set order. key_env_ok (map (key_path keysDir) order @ []) (envs k)"
    using assms(2,4) by (auto simp: key_env_ok_def)
  from ensure_all_spec [OF e(1) d this] assms(2,5) e(2) obtain b where
    "files' (key_path keysDir key) = Some b" "good_key sha key b"
    by (auto simp: errors_Join_None_iff)
  moreover obtain want where "expectedSHA256 key = Some want" "want \<noteq> ''''"
    using required_keys_recorded [OF assms(5)] by blast
  ultimately show ?thesis by (auto simp: good_key_def)
qed

definition demo_sha :: "byte list \<Rightarrow> byte list" where
  "demo_sha b =
     (case List.find (\<lambda>(k, i). b = [i]) (zip RequiredKeys [1, 2, 3]) of
        None \<Rightarrow> []
      | Some (k, i) \<Rightarrow> the (DecodeString (the (expectedSHA256 k))))"

definition demo_key_env :: "byte \<Rightarrow> string \<Rightarrow> key_env" where
  "demo_key_env i tmp =
     \<lparr>ke_stat = None, ke_open = None, ke_read = None, ke_remove = None, ke_get = Inr 200,
      ke_gzip = Inr \<lparr>sm_bytes = [i], sm_end = None\<rparr>, ke_temp = Inr tmp, ke_write = None,
      ke_close = None, ke_rename = None, ke_remove_tmp = True\<rparr>"

lemma hex_digits: "''0123456789abcdef'' = map digit_char [0..<16]"
  by code_simp

lemma hex_digit:
  "c \<in> set ''0123456789abcdef'' \<Longrightarrow> \<exists>d. digit_in 16 c = Some d \<and> digit_char d = c \<and> d < 16"
  unfolding hex_digits by auto

lemma Decode_Encode:
  "list_all (\<lambda>c. c \<in> set ''0123456789abcdef'') h \<Longrightarrow> even (length h) \<Longrightarrow>
     EncodeToString (the (DecodeString h)) = h \<and> DecodeString h \<noteq> None"
proof (induction h rule: DecodeString.induct)
  case (3 c d s)
  obtain x y where xy: "digit_in 16 c = Some x" "digit_char x = c" "x < 16"
    "digit_in 16 d = Some y" "digit_char y = d" "y < 16"
    using "3.prems"(1) hex_digit [of c] hex_digit [of d] by auto
  obtain b where "DecodeString s = Some b" "EncodeToString b = s"
    using 3 xy by fastforce
  moreover have "unat (of_nat (16 * x + y) :: byte) = 16 * x + y"
    using xy by (simp add: unat_of_nat del: of_nat_add of_nat_mult)
  ultimately show ?case using xy by (simp del: of_nat_add of_nat_mult)
qed simp_all

lemma demo_sha_hex:
  "EncodeToString (demo_sha [1]) = ''158fbb3f86d0b767060f3890d3903710fccc9798f360baba584829c969bba00b''"
  "EncodeToString (demo_sha [2]) = ''498dc13211a4311900fcbf1df029be109880905d08c4ab271a2f795f4fa1da7c''"
  "EncodeToString (demo_sha [3]) = ''d85d0738827dcdfe13dc5fbf0ce8cddab5cbef3d55e6bf02c9c749190bdc3091''"
  by (simp_all add: demo_sha_def RequiredKeys_def expectedSHA256_def Decode_Encode del: DecodeString.simps)

text \<open>An old file that fails its check is replaced, the other keys are downloaded.\<close>

definition demo_key_envs :: "string \<Rightarrow> key_env" where
  "demo_key_envs k =
     demo_key_env (if k = ''cert_chain_rs2048_verifying.key'' then 1
                   else if k = ''cert_chain_rs4096_verifying.key'' then 2 else 3) (''keys/'' @ k @ ''.1.tmp'')"

lemma demo_compare:
  "compareHash ''cert_chain_rs2048_verifying.key'' (EncodeToString (demo_sha [1])) = None"
  "compareHash ''cert_chain_rs4096_verifying.key'' (EncodeToString (demo_sha [2])) = None"
  "compareHash ''user_sig_rs2048_verifying.key'' (EncodeToString (demo_sha [3])) = None"
  by (simp_all add: compareHash_def expectedSHA256_def demo_sha_hex)

lemma demo_copy: "writeBoundedAndHash None \<lparr>sm_bytes = [i], sm_end = None\<rparr> maxKeySize = (Inr [i], [i])"
  using writeBoundedAndHash_Inr [of None "\<lparr>sm_bytes = [i], sm_end = None\<rparr>" maxKeySize "[i]"]
    writeBoundedAndHash_written [of None "\<lparr>sm_bytes = [i], sm_end = None\<rparr>" maxKeySize "[i]"]
  by (auto simp: ends_clean_def write_fits_def maxKeySize_def)

lemma demo_download:
  assumes "compareHash key (EncodeToString (demo_sha [i])) = None"
  shows "downloadAndDecompress demo_sha (demo_key_env i tmp) key dest files = (None, files(tmp := None, dest \<mapsto> [i]))"
  using assms by (simp add: downloadAndDecompress_def demo_key_env_def demo_copy)

lemma demo_ensure:
  assumes "compareHash key (EncodeToString (demo_sha [i])) = None" "files dest = None"
  shows "ensureOne demo_sha (demo_key_env i tmp) key dest files = (None, files(tmp := None, dest \<mapsto> [i]))"
  using assms demo_download [OF assms(1)] by (simp add: ensureOne_def)

lemma demo_ensure_all:
  "\<exists>files'. EnsureKeys demo_sha demo_key_envs None ''keys'' RequiredKeys Map.empty = (None, files')"
  by (simp add: EnsureKeys_def RequiredKeys_def demo_key_envs_def demo_compare demo_ensure errors_Join_def
      List.map_filter_def)

theorem ensured_keys_are_pinned_witness:
  "\<exists>files' b. EnsureKeys demo_sha demo_key_envs None ''keys'' RequiredKeys Map.empty = (None, files')
    \<and> files' (key_path ''keys'' ''user_sig_rs2048_verifying.key'') = Some b
    \<and> expectedSHA256 ''user_sig_rs2048_verifying.key'' = Some (EncodeToString (demo_sha b))"
proof -
  obtain files' where f: "EnsureKeys demo_sha demo_key_envs None ''keys'' RequiredKeys Map.empty = (None, files')"
    using demo_ensure_all by blast
  have "distinct RequiredKeys" by (simp add: RequiredKeys_def)
  moreover have "\<forall>key \<in> set RequiredKeys. key_env_ok (map (key_path ''keys'') RequiredKeys) (demo_key_envs key)"
    by (simp add: key_env_ok_def demo_key_envs_def demo_key_env_def RequiredKeys_def)
  moreover have "''user_sig_rs2048_verifying.key'' \<in> set RequiredKeys" by (simp add: RequiredKeys_def)
  ultimately show ?thesis using ensured_keys_are_pinned [OF f refl] f by blast
qed

text \<open>C29: the bounded copy is exact at its cap: it succeeds with the data only when the reader delivers at
  most \<open>limit\<close> bytes and ends cleanly, and then the file and the hashed data are all of them; every
  reader of that kind succeeds unless a write fails, no more than \<open>limit\<close> bytes are ever written, and
  a longer reader whose writes do not fail is reported as truncated.\<close>

theorem bounded_copy_exact:
  "case writeBoundedAndHash w r limit of
     (Inr data, written) \<Rightarrow>
       data = sm_bytes r \<and> written = data \<and> length data \<le> limit \<and> ends_clean r
   | (Inl e, written) \<Rightarrow>
       length written \<le> limit
       \<and> \<not> (length (sm_bytes r) \<le> limit \<and> ends_clean r \<and> write_fits w (length (sm_bytes r)))
       \<and> \<not> (limit < length (sm_bytes r) \<and> write_fits w limit \<and> e \<noteq> Sentinel ErrTruncated)"
proof (cases "fst (writeBoundedAndHash w r limit)")
  case (Inr data)
  then obtain written where o: "writeBoundedAndHash w r limit = (Inr data, written)" by (metis prod.collapse)
  with writeBoundedAndHash_Inr [of w r limit data] writeBoundedAndHash_written [OF o] show ?thesis by auto
next
  case (Inl e)
  then obtain written where o: "writeBoundedAndHash w r limit = (Inl e, written)" by (metis prod.collapse)
  have "\<not> (length (sm_bytes r) \<le> limit \<and> ends_clean r \<and> write_fits w (length (sm_bytes r)))"
    using writeBoundedAndHash_Inr [of w r limit "sm_bytes r"] o by auto
  moreover have "length written \<le> limit"
    using o by (auto simp: writeBoundedAndHash_def CopyN_def Let_def split: option.splits if_splits)
  moreover have "e = Sentinel ErrTruncated" if "limit < length (sm_bytes r)" "write_fits w limit"
    using o that by (auto simp: writeBoundedAndHash_def CopyN_eq split: if_splits)
  ultimately show ?thesis using o by auto
qed

text \<open>C28: an interrupted or tampered download cannot install a key.  Whatever call fails, the removal of
  the temporary file and the creation of one included, after a goroutine the destination is what it
  was, or gone, or a file with the recorded checksum.  The only other file that may have changed is
  the temporary one, which stays behind only when the goroutine failed and its removal failed too.
  The temporary file is a new one.\<close>

theorem no_unverified_key_installed:
  assumes "ensureOne sha en key dest files = (e, files')"
    and "\<forall>tmp. ke_temp en = Inr tmp \<longrightarrow> tmp \<noteq> dest \<and> files tmp = None"
  shows "(files' dest = files dest \<or> files' dest = None \<or> (\<exists>b. files' dest = Some b \<and> good_key sha key b))
    \<and> (\<forall>p. p \<noteq> dest \<longrightarrow> files' p \<noteq> files p \<longrightarrow> ke_temp en = Inr p \<and> \<not> ke_remove_tmp en \<and> e \<noteq> None)"
proof (intro conjI allI impI)
  show "files' dest = files dest \<or> files' dest = None \<or> (\<exists>b. files' dest = Some b \<and> good_key sha key b)"
    using ensureOne_dest [OF assms(1)] assms(2) by blast
  fix p
  assume p: "p \<noteq> dest" "files' p \<noteq> files p"
  show t: "ke_temp en = Inr p" using ensureOne_frame [OF assms(1) p(1)] p(2) by blast
  have new: "files p = None" using assms(2) t by blast
  show "\<not> ke_remove_tmp en" using ensureOne_tmp [OF assms(1) t p(1) new] p(2) new by auto
  show "e \<noteq> None"
  proof
    assume "e = None"
    with assms(1) have "ensureOne sha en key dest files = (None, files')" by simp
    from ensureOne_success [OF this p(1) new] p(2) new show False by simp
  qed
qed

text \<open>The download breaks off and the temporary file cannot be removed: the old file, which failed its
  check, is gone, and the bytes that came are in the temporary file only.\<close>

theorem no_unverified_key_installed_witness:
  "\<exists>e files'. ensureOne demo_sha ((demo_key_env 1 ''k.tmp'')\<lparr>ke_gzip := Inr \<lparr>sm_bytes = [1], sm_end = Some (External ''unexpected EOF'')\<rparr>,
        ke_remove_tmp := False\<rparr>)
      ''cert_chain_rs2048_verifying.key'' ''k'' [''k'' \<mapsto> [2], ''x'' \<mapsto> [7]] = (Some e, files')
    \<and> files' ''k'' = None \<and> files' ''k.tmp'' = Some [1] \<and> files' ''x'' = Some [7]"
proof -
  let ?en = "(demo_key_env 1 ''k.tmp'')\<lparr>ke_gzip := Inr \<lparr>sm_bytes = [1], sm_end = Some (External ''unexpected EOF'')\<rparr>,
    ke_remove_tmp := False\<rparr>"
  let ?k = "''cert_chain_rs2048_verifying.key''"
  obtain m where c: "compareHash ?k (EncodeToString (demo_sha [2])) = Some m" "\<not> err_is m ErrSkipVerify"
    by (simp add: compareHash_def expectedSHA256_def demo_sha_hex)
  have w: "writeBoundedAndHash None \<lparr>sm_bytes = [1], sm_end = Some (External ''unexpected EOF'')\<rparr> maxKeySize
      = (Inl (External ''unexpected EOF''), [1])"
    by (simp add: writeBoundedAndHash_def CopyN_def maxKeySize_def)
  have d: "\<exists>e. downloadAndDecompress demo_sha ?en ?k ''k'' ([''k'' \<mapsto> [2], ''x'' \<mapsto> [7]](''k'' := None))
      = (Some e, [''k'' \<mapsto> [2], ''x'' \<mapsto> [7]](''k'' := None, ''k.tmp'' \<mapsto> [1]))"
    by (simp add: downloadAndDecompress_def demo_key_env_def w remove_tmp_def)
  have v: "verifyFile demo_sha ?en ?k ''k'' [''k'' \<mapsto> [2], ''x'' \<mapsto> [7]] = Some m"
    by (simp add: verifyFile_def demo_key_env_def c)
  have s: "ke_stat ?en = None" "ke_remove ?en = None" by (simp_all add: demo_key_env_def)
  obtain e where o: "ensureOne demo_sha ?en ?k ''k'' [''k'' \<mapsto> [2], ''x'' \<mapsto> [7]]
      = (Some e, [''k'' \<mapsto> [2], ''x'' \<mapsto> [7]](''k'' := None, ''k.tmp'' \<mapsto> [1]))"
    using d by (auto simp add: ensureOne_def s v c(2))
  have t: "\<forall>tmp. ke_temp ?en = Inr tmp \<longrightarrow> tmp \<noteq> ''k'' \<and> [''k'' \<mapsto> [2], ''x'' \<mapsto> [7]] tmp = None"
    by (simp add: demo_key_env_def)
  from no_unverified_key_installed [OF o t] o show ?thesis by auto
qed

end
