(* ===== verification/Smt_Root.thy ===== *)
theory Smt_Root
  imports Go_Config
begin

text \<open>
  \<open>smtroot/smtroot.go\<close> and \<open>smtroot/refresh.go\<close>: issuers, the 32-byte SMT root and its text form,
  and the provider that caches the trusted roots of both issuers.  \<open>FetchNow\<close> asks the primary
  source, then the fallback; the outcome of each call (a map of roots or an error, and its latency)
  is the argument \<open>fetch\<close>, indexed by the number of the attempt.  An operation that reads the clock
  takes the reading as an argument.  An error kept as text (\<open>err.Error()\<close>) is kept here as the
  error; the events it logs are in \<open>Smt_Log\<close>.  The locale \<open>trust_cache\<close> is what the proof verifier relies on
  for both trust stores: entries are always validated ones and are never lost again.
\<close>

subsection \<open>Issuers\<close>

type_synonym IssuerID = int

definition IssuerG2 :: IssuerID where "IssuerG2 = 0"
definition IssuerG3 :: IssuerID where "IssuerG3 = 1"

definition AllIssuers :: "IssuerID list" where
  "AllIssuers = [IssuerG2, IssuerG3]"

definition LongName :: "IssuerID \<Rightarrow> string" where
  "LongName i =
     (if i = IssuerG2 then ''MOICA-G2''
      else if i = IssuerG3 then ''MOICA-G3''
      else ''IssuerID('' @ Int_String i @ '')'')"

definition ShortName :: "IssuerID \<Rightarrow> string" where
  "ShortName i =
     (if i = IssuerG2 then ''g2'' else if i = IssuerG3 then ''g3'' else ''unknown'')"

lemmas issuer_defs = IssuerG2_def IssuerG3_def AllIssuers_def

lemma issuers_distinct [simp]: "IssuerG2 \<noteq> IssuerG3" "IssuerG3 \<noteq> IssuerG2"
  by (simp_all add: issuer_defs)

lemma set_AllIssuers [simp]: "set AllIssuers = {IssuerG2, IssuerG3}"
  by (simp add: AllIssuers_def)

subsection \<open>Roots\<close>

text \<open>A \<open>Root\<close> is a \<open>[32]byte\<close>; \<open>copy32\<close> is \<open>copy(r[:], b)\<close> into a zero array.\<close>

type_synonym Root = "byte list"

definition zero_root :: Root where
  "zero_root = replicate 32 0"

definition copy32 :: "byte list \<Rightarrow> Root" where
  "copy32 b = take 32 b @ drop (length b) zero_root"

definition ParseRoot :: "string \<Rightarrow> Root result" where
  "ParseRoot s0 =
     (let s = TrimPrefix (TrimPrefix (TrimSpace s0) ''0x'') ''0X'' in
      if s = '''' then Inl (Errorf ''empty root'' [])
      else if 64 < length s
      then Inl (Errorf ''root longer than 32 bytes (%d hex chars)'' [nat_string 10 (length s)])
      else
        let s1 = (if length s mod 2 \<noteq> 0 then ''0'' @ s else s);
            s2 = (if length s1 < 64 then replicate (64 - length s1) (CHR ''0'') @ s1 else s1)
        in case DecodeString (ToLower s2) of
             None \<Rightarrow> Inl (Wrapf ''decode hex: %w'' [] (External ''encoding/hex: invalid byte''))
           | Some b \<Rightarrow> Inr (copy32 b))"

definition Hex :: "Root \<Rightarrow> string" where
  "Hex r = ''0x'' @ EncodeToString r"

definition Root_Equal :: "Root \<Rightarrow> Root \<Rightarrow> bool" where
  "Root_Equal r other \<longleftrightarrow> r = other"

definition IsZero :: "Root \<Rightarrow> bool" where
  "IsZero r \<longleftrightarrow> r = zero_root"

subsection \<open>The provider\<close>

record AttemptStat =
  st_Count :: nat
  st_LastLatencyMs :: int
  st_LastErr :: "err option"

record 's Provider =
  primary :: "'s option"
  fallback :: "'s option"
  refresh :: duration
  timeout :: duration
  roots :: "IssuerID \<rightharpoonup> Root"
  sourceUsed :: string
  updatedAt :: time
  lastAttemptAt :: time
  lastError :: "err option"
  consecutiveFail :: nat
  attempts :: "string \<rightharpoonup> AttemptStat"

definition NewProvider :: "'s option \<Rightarrow> 's option \<Rightarrow> duration \<Rightarrow> duration \<Rightarrow> 's Provider" where
  "NewProvider prim fall RefreshInterval FetchTimeout =
     \<lparr>primary = prim, fallback = fall,
      refresh = (if RefreshInterval \<le> 0 then 10 * 60 * Second else RefreshInterval),
      timeout = (if FetchTimeout \<le> 0 then 5 * Second else FetchTimeout),
      roots = Map.empty, sourceUsed = '''', updatedAt = 0, lastAttemptAt = 0, lastError = None,
      consecutiveFail = 0, attempts = Map.empty\<rparr>"

text \<open>The roots whose value differs from the cached one, and the provider after the call.\<close>

definition setRoots ::
  "time \<Rightarrow> (IssuerID \<rightharpoonup> Root) \<Rightarrow> string \<Rightarrow> err option \<Rightarrow> 's Provider \<Rightarrow> (IssuerID \<Rightarrow> bool) \<times> 's Provider" where
  "setRoots now rs source err p =
     (let p1 = p\<lparr>lastAttemptAt := now\<rparr> in
      case err of
        Some e \<Rightarrow> (\<lambda>_. False, p1\<lparr>lastError := Some e, consecutiveFail := Suc (consecutiveFail p1)\<rparr>)
      | None \<Rightarrow>
          (\<lambda>i. case rs i of
                 None \<Rightarrow> False
               | Some r \<Rightarrow> (case roots p i of None \<Rightarrow> True | Some old \<Rightarrow> \<not> Root_Equal old r),
           p1\<lparr>roots := roots p ++ rs, sourceUsed := source, updatedAt := now,
              lastError := None, consecutiveFail := 0\<rparr>))"

definition NewStaticProvider :: "time \<Rightarrow> (IssuerID \<rightharpoonup> Root) \<Rightarrow> 's Provider" where
  "NewStaticProvider now rs = snd (setRoots now rs ''static'' None (NewProvider None None 0 0))"

definition Trusted :: "'s Provider \<Rightarrow> IssuerID \<Rightarrow> Root option" where
  "Trusted p issuer = roots p issuer"

text \<open>
  \<open>int64(now.Sub(t).Seconds())\<close>, and 0 when \<open>t\<close> is the zero time.  \<open>Sub\<close> stays within the range of
  a duration; \<open>Seconds\<close> adds the whole seconds and the rest as \<open>float64\<close> numbers, so a rest close
  to a second may round up when the age is many days; the conversion truncates.
\<close>

definition Sub :: "time \<Rightarrow> time \<Rightarrow> duration" where
  "Sub t u = max (- (2 ^ 63)) (min (2 ^ 63 - 1) (t - u))"

definition whole_Seconds :: "duration \<Rightarrow> int" where
  "whole_Seconds d =
     (let a = nat \<bar>d\<bar> in
      case float64 (a mod 1000000000) 1000000000 of
        (p, q) \<Rightarrow> (case float64 (a div 1000000000 * q + p) q of (x, y) \<Rightarrow> sgn d * int (x div y)))"

definition cache_age :: "time \<Rightarrow> time \<Rightarrow> int" where
  "cache_age now t = (if t = 0 then 0 else whole_Seconds (Sub now t))"

record Meta =
  m_SourceUsed :: string
  m_UpdatedAt :: time
  m_CacheAgeSeconds :: int

definition Provider_Meta :: "time \<Rightarrow> 's Provider \<Rightarrow> Meta" where
  "Provider_Meta now p =
     \<lparr>m_SourceUsed = sourceUsed p, m_UpdatedAt = updatedAt p,
      m_CacheAgeSeconds = cache_age now (updatedAt p)\<rparr>"

record Status =
  s_SourceUsed :: string
  s_Roots :: "string \<rightharpoonup> string"
  s_UpdatedAt :: time
  s_LastAttemptAt :: time
  s_LastError :: "err option"
  s_ConsecutiveFail :: nat
  s_CacheAgeSeconds :: int
  s_Attempts :: "string \<rightharpoonup> AttemptStat"

text \<open>
  The roots of \<open>AllIssuers\<close> by short name; other issuers, which no source delivers, would share the
  name \<open>unknown\<close> in the map's iteration order.
\<close>

definition Provider_Status :: "time \<Rightarrow> 's Provider \<Rightarrow> Status" where
  "Provider_Status now p =
     \<lparr>s_SourceUsed = sourceUsed p,
      s_Roots = (\<lambda>nm. case List.find (\<lambda>i. ShortName i = nm) AllIssuers of
                         None \<Rightarrow> None | Some i \<Rightarrow> map_option Hex (roots p i)),
      s_UpdatedAt = updatedAt p, s_LastAttemptAt = lastAttemptAt p, s_LastError = lastError p,
      s_ConsecutiveFail = consecutiveFail p, s_CacheAgeSeconds = cache_age now (updatedAt p),
      s_Attempts = attempts p\<rparr>"

text \<open>\<open>time.Duration.Milliseconds\<close>, which truncates towards zero.\<close>

definition Milliseconds :: "duration \<Rightarrow> int" where
  "Milliseconds d = sgn d * (\<bar>d\<bar> div 1000000)"

definition recordAttempt :: "string \<Rightarrow> duration \<Rightarrow> err option \<Rightarrow> 's Provider \<Rightarrow> 's Provider" where
  "recordAttempt source latency err p =
     (let stat = (case attempts p source of
                    None \<Rightarrow> \<lparr>st_Count = 0, st_LastLatencyMs = 0, st_LastErr = None\<rparr>
                  | Some st \<Rightarrow> st)
      in p\<lparr>attempts := (attempts p)(source \<mapsto>
             \<lparr>st_Count = Suc (st_Count stat), st_LastLatencyMs = Milliseconds latency,
              st_LastErr = err\<rparr>)\<rparr>)"

subsection \<open>Refreshing\<close>

definition error_of :: "'a result \<Rightarrow> err option" where
  "error_of r = (case r of Inl e \<Rightarrow> Some e | Inr _ \<Rightarrow> None)"

text \<open>
  The loop over the sources: \<open>k\<close> counts the attempts, \<open>errs\<close> collects their errors.
\<close>

fun try_sources ::
  "('s \<Rightarrow> string) \<Rightarrow> (nat \<Rightarrow> 's \<Rightarrow> (IssuerID \<rightharpoonup> Root) result \<times> duration) \<Rightarrow> time
    \<Rightarrow> nat \<Rightarrow> 's list \<Rightarrow> err list \<Rightarrow> 's Provider \<Rightarrow> err option \<times> 's Provider" where
  "try_sources nm fetch now k [] errs p =
     (let joined = errors_Join (map Some errs)
      in (joined, snd (setRoots now Map.empty '''' joined p)))"
| "try_sources nm fetch now k (src # srcs) errs p =
     (case fetch k src of
        (r, latency) \<Rightarrow>
          let p1 = recordAttempt (nm src) latency (error_of r) p in
          case r of
            Inl e \<Rightarrow> try_sources nm fetch now (Suc k) srcs (errs @ [Wrapf ''%s: %w'' [nm src] e]) p1
          | Inr rs \<Rightarrow> (None, snd (setRoots now rs (nm src) None p1)))"

definition sources_of :: "'s Provider \<Rightarrow> 's list" where
  "sources_of p =
     (case primary p of None \<Rightarrow> [] | Some s \<Rightarrow> [s]) @ (case fallback p of None \<Rightarrow> [] | Some s \<Rightarrow> [s])"

definition FetchNow ::
  "('s \<Rightarrow> string) \<Rightarrow> (nat \<Rightarrow> 's \<Rightarrow> (IssuerID \<rightharpoonup> Root) result \<times> duration) \<Rightarrow> time
    \<Rightarrow> 's Provider \<Rightarrow> err option \<times> 's Provider" where
  "FetchNow nm fetch now p =
     (if primary p = None \<and> fallback p = None then (Some (Sentinel ErrNoSource), p)
      else try_sources nm fetch now 0 (sources_of p) [] p)"

text \<open>
  The background goroutine: what \<open>select\<close> picks at each turn.  It ends with the context or with
  \<open>Stop\<close>; \<open>Start\<close> launches it only for a positive interval.
\<close>

datatype 'e loop_event = CtxDone | StopCh | Tick 'e

fun loop :: "('e \<Rightarrow> 'p \<Rightarrow> 'p) \<Rightarrow> 'e loop_event list \<Rightarrow> 'p \<Rightarrow> 'p" where
  "loop fetch [] p = p"
| "loop fetch (CtxDone # evs) p = p"
| "loop fetch (StopCh # evs) p = p"
| "loop fetch (Tick e # evs) p = loop fetch evs (fetch e p)"

definition Start :: "('e \<Rightarrow> 's Provider \<Rightarrow> 's Provider) \<Rightarrow> 'e loop_event list \<Rightarrow> 's Provider \<Rightarrow> 's Provider" where
  "Start fetch evs p = (if refresh p \<le> 0 then p else loop fetch evs p)"

text \<open>
  \<open>Stop\<close>: closing a closed channel panics (\<open>None\<close>), so the close is guarded by a \<open>sync.Once\<close>, which
  runs its function at the first call only.
\<close>

record stopper =
  so_once :: bool
  so_closed :: bool

definition new_stopper :: stopper where
  "new_stopper = \<lparr>so_once = False, so_closed = False\<rparr>"

definition close_chan :: "stopper \<Rightarrow> stopper option" where
  "close_chan s = (if so_closed s then None else Some (s\<lparr>so_closed := True\<rparr>))"

definition once_Do :: "(stopper \<Rightarrow> stopper option) \<Rightarrow> stopper \<Rightarrow> stopper option" where
  "once_Do f s = (if so_once s then Some s else f (s\<lparr>so_once := True\<rparr>))"

definition Stop :: "stopper \<Rightarrow> stopper option" where
  "Stop s = once_Do close_chan s"

text \<open>Any number of calls closes the channel once and never panics.\<close>

fun stops :: "nat \<Rightarrow> stopper \<Rightarrow> stopper option" where
  "stops 0 s = Some s"
| "stops (Suc n) s = Option.bind (Stop s) (stops n)"

lemma stops_new: "stops (Suc n) new_stopper = Some \<lparr>so_once = True, so_closed = True\<rparr>"
proof -
  have "stops n \<lparr>so_once = True, so_closed = True\<rparr> = Some \<lparr>so_once = True, so_closed = True\<rparr>" for n
    by (induction n) (simp_all add: Stop_def once_Do_def)
  then show ?thesis by (simp add: Stop_def once_Do_def close_chan_def new_stopper_def)
qed

subsection \<open>The text form of a root\<close>

lemma DecodeString_ToLower: "DecodeString (ToLower s) = DecodeString s"
proof -
  have "digit_in 16 (lower_char c) = digit_in 16 c" for c
  proof (cases "65 \<le> (of_char c :: nat) \<and> (of_char c :: nat) \<le> 90")
    case True
    then have "(of_char (lower_char c) :: nat) = of_char c + 32" by (simp add: lower_char_def)
    with True show ?thesis by (simp add: digit_in_def digit_val_def Let_def)
  next
    case False
    then have "lower_char c = c" by (auto simp: lower_char_def)
    then show ?thesis by simp
  qed
  then show ?thesis by (induction s rule: DecodeString.induct) (auto simp: ToLower_def split: option.splits)
qed

lemma DecodeString_scan:
  assumes "even (length s)" "s \<noteq> []"
  shows "DecodeString s = Some b \<longleftrightarrow> scan_nat 16 s = Some (SetBytes b) \<and> 2 * length b = length s"
proof
  assume "DecodeString s = Some b"
  from DecodeString_value [OF this] show "scan_nat 16 s = Some (SetBytes b) \<and> 2 * length b = length s"
    using assms(2) by (auto simp: scan_nat_def those_Some_iff)
next
  assume r: "scan_nat 16 s = Some (SetBytes b) \<and> 2 * length b = length s"
  then obtain ds where ds: "map (digit_in 16) s = map Some ds" "nat_of_digits 16 ds = SetBytes b"
    using assms(2) by (auto simp: scan_nat_def those_Some_iff)
  from DecodeString_digits [OF ds(1) assms(1)] obtain b' where b': "DecodeString s = Some b'" by blast
  from DecodeString_value [OF b'] obtain es where
    es: "map (digit_in 16) s = map Some es" "nat_of_digits 16 es = SetBytes b'" "length s = 2 * length b'"
    by blast
  have "map Some ds = map Some es" using ds(1) es(1) by simp
  then have "ds = es" by (rule map_injective) (simp add: inj_def)
  then have "SetBytes b' = SetBytes b" "length b' = length b" using ds(2) es(2,3) r by simp_all
  then show "DecodeString s = Some b" using SetBytes_inj b' by metis
qed

definition root_digits :: "string \<Rightarrow> string" where
  "root_digits s = TrimPrefix (TrimPrefix (TrimSpace s) ''0x'') ''0X''"

lemma copy32_id: "length b = 32 \<Longrightarrow> copy32 b = b"
  by (simp add: copy32_def zero_root_def)

lemma pad_even:
  assumes "length t \<le> 64"
  shows "(let s1 = (if length t mod 2 \<noteq> 0 then ''0'' @ t else t)
      in if length s1 < 64 then replicate (64 - length s1) (CHR ''0'') @ s1 else s1)
    = replicate (64 - length t) (CHR ''0'') @ t"
proof (cases "length t mod 2 \<noteq> 0")
  case True
  then have "length t \<noteq> 64" by auto
  with True assms have "64 - length t = Suc (63 - length t)" by linarith
  with True assms show ?thesis by (simp add: Let_def replicate_append_same [symmetric])
next
  case False
  with assms show ?thesis by (simp add: Let_def)
qed

lemma ParseRoot_eq:
  assumes "root_digits s = t"
  shows "ParseRoot s =
     (if t = '''' then Inl (Errorf ''empty root'' [])
      else if 64 < length t
      then Inl (Errorf ''root longer than 32 bytes (%d hex chars)'' [nat_string 10 (length t)])
      else case DecodeString (replicate (64 - length t) (CHR ''0'') @ t) of
             None \<Rightarrow> Inl (Wrapf ''decode hex: %w'' [] (External ''encoding/hex: invalid byte''))
           | Some b \<Rightarrow> Inr (copy32 b))"
proof (cases "64 < length t")
  case True
  then show ?thesis unfolding ParseRoot_def root_digits_def [symmetric] assms by auto
next
  case False
  have "ParseRoot s =
     (if t = '''' then Inl (Errorf ''empty root'' [])
      else if 64 < length t
      then Inl (Errorf ''root longer than 32 bytes (%d hex chars)'' [nat_string 10 (length t)])
      else case DecodeString (let s1 = (if length t mod 2 \<noteq> 0 then ''0'' @ t else t)
                in if length s1 < 64 then replicate (64 - length s1) (CHR ''0'') @ s1 else s1) of
             None \<Rightarrow> Inl (Wrapf ''decode hex: %w'' [] (External ''encoding/hex: invalid byte''))
           | Some b \<Rightarrow> Inr (copy32 b))"
    unfolding ParseRoot_def root_digits_def [symmetric] assms DecodeString_ToLower Let_def by (rule refl)
  then show ?thesis by (simp only: pad_even [OF leI [OF False]])
qed

lemma DecodeString_padded:
  assumes "t \<noteq> []" "length t \<le> 64"
  shows "DecodeString (replicate (64 - length t) (CHR ''0'') @ t) = Some b
    \<longleftrightarrow> scan_nat 16 t = Some (SetBytes b) \<and> length b = 32"
  by (subst DecodeString_scan) (use assms scan_nat_zeros [OF assms(1)] in auto)

lemma ParseRoot_Inr_iff:
  "ParseRoot s = Inr r \<longleftrightarrow>
     length (root_digits s) \<le> 64 \<and> length r = 32 \<and> scan_nat 16 (root_digits s) = Some (SetBytes r)"
proof -
  define t where "t = root_digits s"
  show ?thesis
  proof (cases "t = [] \<or> 64 < length t")
    case True
    then show ?thesis unfolding t_def [symmetric] ParseRoot_eq [OF t_def [symmetric]]
      by (auto simp: scan_nat_def)
  next
    case False
    define u where "u = replicate (64 - length t) (CHR ''0'') @ t"
    from False have "ParseRoot s = Inr r \<longleftrightarrow> (\<exists>b. DecodeString u = Some b \<and> copy32 b = r)"
      unfolding ParseRoot_eq [OF t_def [symmetric]] u_def [symmetric] by (simp split: option.split)
    also have "\<dots> \<longleftrightarrow> (\<exists>b. scan_nat 16 t = Some (SetBytes b) \<and> length b = 32 \<and> copy32 b = r)"
      unfolding u_def using DecodeString_padded [of t] False by simp
    also have "\<dots> \<longleftrightarrow> length r = 32 \<and> scan_nat 16 t = Some (SetBytes r)"
      using copy32_id by metis
    finally show ?thesis using False by (simp add: t_def [symmetric])
  qed
qed

lemma root_digits_Hex: "root_digits (Hex r) = EncodeToString r"
proof -
  have nx: "CHR ''X'' \<notin> set (EncodeToString r)"
  proof
    assume "CHR ''X'' \<in> set (EncodeToString r)"
    from EncodeToString_chars [OF this] obtain d where "d < 16" "digit_char d = CHR ''X''" by auto
    with digit_char_neq(3) [of d] show False by simp
  qed
  have "TrimSpace (Hex r) = Hex r"
  proof (rule TrimSpace_graphic)
    have "graphic c" if "c \<in> set (Hex r)" for c
      using that EncodeToString_chars [of c r] graphic_digit_char
      by (auto simp: Hex_def graphic_def)
    then show "Hex r = [] \<or> graphic (hd (Hex r)) \<and> graphic (last (Hex r))"
      by (metis hd_in_set last_in_set)
  qed
  moreover have "\<not> HasPrefix (EncodeToString r) ''0X''" using nx by (auto simp: HasPrefix_iff)
  ultimately show ?thesis
    by (simp add: root_digits_def Hex_def TrimPrefix_def)
qed

lemma ParseRoot_Hex: "length r = 32 \<Longrightarrow> ParseRoot (Hex r) = Inr r"
proof -
  assume r: "length r = 32"
  have "scan_nat 16 (EncodeToString r) = Some (SetBytes r)"
    using DecodeString_scan [of "EncodeToString r" r] r by (auto simp flip: length_0_conv)
  with r show ?thesis by (simp add: ParseRoot_Inr_iff root_digits_Hex)
qed

definition Hex_result :: "Root \<Rightarrow> string result" where
  "Hex_result r = (if length r = 32 then Inr (Hex r) else Inl (Errorf ''not a root'' []))"

interpretation root_text: codec Hex_result ParseRoot "\<lambda>r. r"
  by unfold_locales (auto simp: Hex_result_def ParseRoot_Hex split: if_splits)

subsection \<open>The interface of a trust cache\<close>

text \<open>
  What the proof verifier relies on for both trust stores (SMT roots and issuer certificates): a
  refresh leaves an entry alone or replaces it by a valid one, and never removes an entry.
\<close>

locale trust_cache =
  fixes get :: "'p \<Rightarrow> IssuerID \<Rightarrow> 'v option"
    and step :: "'e \<Rightarrow> 'p \<Rightarrow> 'p"
    and legal :: "'e \<Rightarrow> bool"
    and valid :: "IssuerID \<Rightarrow> 'v \<Rightarrow> bool"
  assumes get_step: "legal e \<Longrightarrow> get (step e p) i = Some v \<Longrightarrow> get p i = Some v \<or> valid i v"
    and keeps_step: "get p i \<noteq> None \<Longrightarrow> get (step e p) i \<noteq> None"
begin

lemma loop_valid:
  assumes "\<forall>e. Tick e \<in> set evs \<longrightarrow> legal e" "get (loop step evs p) i = Some v"
  shows "get p i = Some v \<or> valid i v"
  using assms
proof (induction evs arbitrary: p)
  case (Cons x evs)
  show ?case
  proof (cases x)
    case (Tick e)
    with Cons.prems have "get (step e p) i = Some v \<or> valid i v"
      by (intro Cons.IH) auto
    moreover have "legal e" using Cons.prems(1) Tick by auto
    ultimately show ?thesis using get_step [of e p i v] by auto
  qed (use Cons.prems in auto)
qed auto

lemma loop_keeps: "get p i \<noteq> None \<Longrightarrow> get (loop step evs p) i \<noteq> None"
proof (induction evs arbitrary: p)
  case (Cons x evs)
  then show ?case using keeps_step by (cases x) auto
qed auto

lemma loop_all_valid:
  assumes "\<forall>e. Tick e \<in> set evs \<longrightarrow> legal e" "\<forall>i v. get p i = Some v \<longrightarrow> valid i v"
  shows "\<forall>i v. get (loop step evs p) i = Some v \<longrightarrow> valid i v"
  using loop_valid [OF assms(1)] assms(2) by blast

end

subsection \<open>Outcomes of a refresh\<close>

lemma recordAttempt_simps [simp]:
  "roots (recordAttempt s l e p) = roots p" "sourceUsed (recordAttempt s l e p) = sourceUsed p"
  "updatedAt (recordAttempt s l e p) = updatedAt p" "primary (recordAttempt s l e p) = primary p"
  "fallback (recordAttempt s l e p) = fallback p"
  "consecutiveFail (recordAttempt s l e p) = consecutiveFail p"
  "lastError (recordAttempt s l e p) = lastError p"
  by (simp_all add: recordAttempt_def Let_def)

lemma setRoots_error:
  "snd (setRoots now rs s (Some e) p) =
     p\<lparr>lastAttemptAt := now, lastError := Some e, consecutiveFail := Suc (consecutiveFail p)\<rparr>"
  by (simp add: setRoots_def Let_def)

lemma setRoots_success:
  "snd (setRoots now rs s None p) =
     p\<lparr>lastAttemptAt := now, roots := roots p ++ rs, sourceUsed := s, updatedAt := now,
       lastError := None, consecutiveFail := 0\<rparr>"
  by (simp add: setRoots_def Let_def)

text \<open>The sources tried in vain, and the one that delivered.\<close>

definition all_failed :: "(nat \<Rightarrow> 's \<Rightarrow> 'a result \<times> duration) \<Rightarrow> nat \<Rightarrow> 's list \<Rightarrow> bool" where
  "all_failed fetch k srcs \<longleftrightarrow> (\<forall>j < length srcs. \<exists>e. fst (fetch (k + j) (srcs ! j)) = Inl e)"

lemma all_failed_Cons:
  "all_failed fetch k (s # srcs) \<longleftrightarrow> (\<exists>e. fst (fetch k s) = Inl e) \<and> all_failed fetch (Suc k) srcs"
  by (auto simp: all_failed_def less_Suc_eq_0_disj)

lemma try_sources_spec:
  assumes "try_sources nm fetch now k srcs errs p = (e, p')" and "errs \<noteq> [] \<or> srcs \<noteq> []"
  shows "case e of
      None \<Rightarrow> (\<exists>j < length srcs. \<exists>rs. fst (fetch (k + j) (srcs ! j)) = Inr rs
        \<and> all_failed fetch k (take j srcs)
        \<and> roots p' = roots p ++ rs \<and> sourceUsed p' = nm (srcs ! j) \<and> updatedAt p' = now
        \<and> lastError p' = None \<and> consecutiveFail p' = 0)
    | Some er \<Rightarrow> all_failed fetch k srcs \<and> roots p' = roots p \<and> sourceUsed p' = sourceUsed p
        \<and> updatedAt p' = updatedAt p \<and> lastError p' = Some er
        \<and> consecutiveFail p' = Suc (consecutiveFail p)"
  using assms
proof (induction nm fetch now k srcs errs p rule: try_sources.induct)
  case (1 nm fetch now k errs p)
  then have "errors_Join (map Some errs) \<noteq> None" by (auto simp: errors_Join_None_iff)
  with 1 show ?case by (auto simp: Let_def setRoots_error all_failed_def)
next
  case (2 nm fetch now k src srcs errs p)
  obtain r l where f: "fetch k src = (r, l)" by (cases "fetch k src")
  show ?case
  proof (cases r)
    case (Inr rs)
    with f 2(2) show ?thesis
      by (auto simp: Let_def setRoots_success all_failed_def intro!: exI [of _ 0])
  next
    case (Inl er)
    let ?p = "recordAttempt (nm src) l (Some er) p"
    have e: "try_sources nm fetch now (Suc k) srcs (errs @ [Wrapf ''%s: %w'' [nm src] er]) ?p = (e, p')"
      using 2(2) f Inl by (simp add: error_of_def)
    note ih = 2(1) [OF f [symmetric] refl, unfolded error_of_def Inl sum.case, OF refl e, simplified]
    show ?thesis
    proof (cases e)
      case None
      with ih obtain j rs where j: "j < length srcs" "fst (fetch (Suc k + j) (srcs ! j)) = Inr rs"
        "all_failed fetch (Suc k) (take j srcs)" "roots p' = roots p ++ rs"
        "sourceUsed p' = nm (srcs ! j)" "updatedAt p' = now" "lastError p' = None" "consecutiveFail p' = 0"
        by auto
      have "all_failed fetch k (take (Suc j) (src # srcs))" using j(3) f Inl by (simp add: all_failed_Cons)
      with j None show ?thesis by (auto intro!: exI [of _ "Suc j"])
    next
      case (Some x)
      with ih f Inl show ?thesis by (simp add: all_failed_Cons)
    qed
  qed
qed

lemma sources_of_Nil: "sources_of p = [] \<longleftrightarrow> primary p = None \<and> fallback p = None"
  by (auto simp: sources_of_def split: option.splits)

lemma FetchNow_spec:
  assumes "FetchNow nm fetch now p = (e, p')"
  shows "case e of
      None \<Rightarrow> (\<exists>j < length (sources_of p). \<exists>rs. fst (fetch j (sources_of p ! j)) = Inr rs
        \<and> all_failed fetch 0 (take j (sources_of p))
        \<and> roots p' = roots p ++ rs \<and> sourceUsed p' = nm (sources_of p ! j) \<and> updatedAt p' = now
        \<and> lastError p' = None \<and> consecutiveFail p' = 0)
    | Some er \<Rightarrow> all_failed fetch 0 (sources_of p) \<and> roots p' = roots p \<and> sourceUsed p' = sourceUsed p
        \<and> updatedAt p' = updatedAt p
        \<and> (if sources_of p = [] then p' = p \<and> er = Sentinel ErrNoSource
           else lastError p' = Some er \<and> consecutiveFail p' = Suc (consecutiveFail p))"
proof (cases "sources_of p = []")
  case True
  with assms show ?thesis by (auto simp: FetchNow_def sources_of_Nil [symmetric] all_failed_def)
next
  case False
  with assms have "try_sources nm fetch now 0 (sources_of p) [] p = (e, p')"
    by (auto simp: FetchNow_def sources_of_Nil)
  from try_sources_spec [OF this] False show ?thesis by (auto split: option.splits)
qed

text \<open>Sources that deliver 32-byte roots.\<close>

definition delivers_roots :: "(nat \<Rightarrow> 's \<Rightarrow> (IssuerID \<rightharpoonup> Root) result \<times> duration) \<Rightarrow> bool" where
  "delivers_roots fetch \<longleftrightarrow>
     (\<forall>k s rs. fst (fetch k s) = Inr rs \<longrightarrow> (\<forall>i r. rs i = Some r \<longrightarrow> length r = 32))"

definition smt_step ::
  "('s \<Rightarrow> string) \<Rightarrow> (nat \<Rightarrow> 's \<Rightarrow> (IssuerID \<rightharpoonup> Root) result \<times> duration) \<times> time \<Rightarrow> 's Provider \<Rightarrow> 's Provider" where
  "smt_step nm e p = snd (FetchNow nm (fst e) (snd e) p)"

interpretation smt_cache: trust_cache Trusted "smt_step (nm :: 's \<Rightarrow> string)" "\<lambda>e. delivers_roots (fst e)" "\<lambda>i r. length r = 32"
proof
  fix e :: "(nat \<Rightarrow> 's \<Rightarrow> (IssuerID \<rightharpoonup> Root) result \<times> duration) \<times> time" and p :: "'s Provider" and i v
  assume "delivers_roots (fst e)" "Trusted (smt_step nm e p) i = Some v"
  with FetchNow_spec [of nm "fst e" "snd e" p] show "Trusted p i = Some v \<or> length v = 32"
    by (cases "FetchNow nm (fst e) (snd e) p")
      (fastforce simp: smt_step_def Trusted_def delivers_roots_def map_add_Some_iff split: option.splits)
next
  fix e :: "(nat \<Rightarrow> 's \<Rightarrow> (IssuerID \<rightharpoonup> Root) result \<times> duration) \<times> time" and p :: "'s Provider" and i
  assume "Trusted p i \<noteq> None"
  with FetchNow_spec [of nm "fst e" "snd e" p] show "Trusted (smt_step nm e p) i \<noteq> None"
    by (cases "FetchNow nm (fst e) (snd e) p")
      (auto simp: smt_step_def Trusted_def map_add_def split: option.splits)
qed

subsection \<open>Properties\<close>

text \<open>Printing a 32-byte root and parsing the text gives the root back, and the printed text
  determines the root.\<close>

theorem root_text_roundtrip:
  assumes "length r = 32" and "length s = 32"
  shows "ParseRoot (Hex r) = Inr r \<and> (Hex r = Hex s \<longleftrightarrow> r = s)"
  using root_text.dec_enc [of r "Hex r"] assms by (auto simp: Hex_result_def Hex_def)

theorem root_text_roundtrip_witness:
  "ParseRoot (Hex (replicate 32 171)) = Inr (replicate 32 171)
    \<and> (Hex (replicate 32 171) = Hex zero_root \<longleftrightarrow> replicate 32 171 = zero_root)"
  by (rule root_text_roundtrip) (simp_all add: zero_root_def)

text \<open>\<open>ParseRoot\<close> accepts a text exactly when what remains after trimming spaces and the
  prefixes 0x and 0X is 1 to 64 hexadecimal digits, in either case; the result is then the 32-byte
  big-endian form of the number they denote, so texts of one number give one root.\<close>

theorem parse_root_accepts:
  "ParseRoot s = Inr r \<longleftrightarrow>
     (let t = TrimPrefix (TrimPrefix (TrimSpace s) ''0x'') ''0X'' in
      length t \<le> 64 \<and> length r = 32 \<and> scan_nat 16 t = Some (SetBytes r))"
  using ParseRoot_Inr_iff [of s r] by (simp add: root_digits_def Let_def)

text \<open>C25: \<open>FetchNow\<close> tries the primary source, then the fallback.  It succeeds exactly with the
  first source that delivers: its roots are installed over the cached ones, the failure counter is
  cleared.  When every source fails, the cached roots, their source and their time stamp stay, the
  joined error is recorded and the failure counter goes up by one.\<close>

theorem smt_fetch_outcomes:
  assumes "FetchNow nm fetch now p = (e, p')"
  shows "case e of
      None \<Rightarrow> (\<exists>j < length (sources_of p). \<exists>rs. fst (fetch j (sources_of p ! j)) = Inr rs
        \<and> (\<forall>i < j. \<exists>er. fst (fetch i (sources_of p ! i)) = Inl er)
        \<and> roots p' = roots p ++ rs \<and> sourceUsed p' = nm (sources_of p ! j) \<and> updatedAt p' = now
        \<and> lastError p' = None \<and> consecutiveFail p' = 0)
    | Some er \<Rightarrow> (\<forall>i < length (sources_of p). \<exists>er. fst (fetch i (sources_of p ! i)) = Inl er)
        \<and> roots p' = roots p \<and> sourceUsed p' = sourceUsed p \<and> updatedAt p' = updatedAt p
        \<and> (if primary p = None \<and> fallback p = None then p' = p \<and> er = Sentinel ErrNoSource
           else lastError p' = Some er \<and> consecutiveFail p' = Suc (consecutiveFail p))"
  using FetchNow_spec [OF assms]
  by (cases e) (auto simp: all_failed_def sources_of_Nil [symmetric])

theorem smt_fetch_outcomes_witness:
  "\<exists>p'. FetchNow (\<lambda>s. s) (\<lambda>k s. if k = 0 then (Inl (External ''timeout''), 5)
         else (Inr [IssuerG2 \<mapsto> zero_root], 7)) 100 (NewProvider (Some ''onchain'') (Some ''github'') 0 0)
       = (None, p') \<and> roots p' IssuerG2 = Some zero_root \<and> sourceUsed p' = ''github''"
proof -
  let ?f = "\<lambda>k (s :: string). if k = (0 :: nat) then (Inl (External ''timeout'') :: (IssuerID \<rightharpoonup> Root) result, 5 :: int)
         else (Inr [IssuerG2 \<mapsto> zero_root], 7)"
  let ?p = "NewProvider (Some ''onchain'') (Some ''github'') 0 0 :: string Provider"
  have s: "sources_of ?p = [''onchain'', ''github'']" by (simp add: sources_of_def NewProvider_def)
  obtain e p' where f: "FetchNow (\<lambda>s. s) ?f 100 ?p = (e, p')" by fastforce
  then have e: "e = None" using s by (auto simp: FetchNow_def sources_of_Nil [symmetric] Let_def)
  from smt_fetch_outcomes [OF f] e obtain j rs where "j < length (sources_of ?p)"
    "fst (?f j (sources_of ?p ! j)) = Inr rs" "roots p' = roots ?p ++ rs"
    "sourceUsed p' = sources_of ?p ! j" by auto
  moreover from this have "j = 1" using s by (cases "j = 0") auto
  ultimately show ?thesis using f e s by (auto simp: NewProvider_def)
qed

text \<open>C26: whatever the background refresher does, in any order of ticks, failures and stops, a
  trusted root is never lost, and every trusted root is one that was there before or a 32-byte
  value a source delivered.\<close>

theorem smt_refresh_keeps_trust:
  assumes "\<forall>e. Tick e \<in> set evs \<longrightarrow> delivers_roots (fst e)"
    and "\<forall>i r. Trusted p i = Some r \<longrightarrow> length r = 32"
  shows "(\<forall>i r. Trusted (Start (\<lambda>e q. snd (FetchNow nm (fst e) (snd e) q)) evs p) i = Some r \<longrightarrow> length r = 32)
    \<and> (\<forall>i. Trusted p i \<noteq> None \<longrightarrow>
          Trusted (Start (\<lambda>e q. snd (FetchNow nm (fst e) (snd e) q)) evs p) i \<noteq> None)"
proof -
  have "(\<lambda>e q. snd (FetchNow nm (fst e) (snd e) q)) = smt_step nm"
    by (simp add: smt_step_def fun_eq_iff)
  then show ?thesis
    using smt_cache.loop_all_valid [OF assms, of nm] smt_cache.loop_keeps [of p _ nm evs] assms(2)
    by (simp add: Start_def del: not_None_eq)
qed

theorem smt_refresh_keeps_trust_witness:
  "Trusted (Start (\<lambda>e q. snd (FetchNow (\<lambda>s. s) (fst e) (snd e) q))
      [Tick (\<lambda>k s. (Inl (External ''down''), 1), 7), StopCh] (NewStaticProvider 3 [IssuerG2 \<mapsto> zero_root]))
     IssuerG2 \<noteq> None"
proof -
  let ?p = "NewStaticProvider 3 [IssuerG2 \<mapsto> zero_root] :: string Provider"
  have t: "Trusted ?p = [IssuerG2 \<mapsto> zero_root]"
    by (simp add: fun_eq_iff Trusted_def NewStaticProvider_def setRoots_success NewProvider_def)
  have d: "\<forall>e. Tick e \<in> set [Tick (\<lambda>k (s :: string). (Inl (External ''down''), 1), 7 :: int), StopCh]
      \<longrightarrow> delivers_roots (fst e)" by (simp add: delivers_roots_def)
  have r: "\<forall>i r. Trusted ?p i = Some r \<longrightarrow> length r = 32"
    unfolding t by (simp add: zero_root_def)
  from smt_refresh_keeps_trust [OF d r, of "\<lambda>s. s"] t show ?thesis by simp
qed

end
