(* ===== verification/Issuer_Limbs.thy ===== *)
theory Issuer_Limbs
  imports Smt_Root
begin

text \<open>
  \<open>issuercert/limbs.go\<close>: the RSA modulus cut into 121-bit limbs, each printed as a 32-byte field
  element, and the comparison of two lists of limbs up to the spelling of the numerals.  The
  lemmas show that the limbs determine the modulus and that the comparison with a certificate's
  limbs decides equality of the numbers.
\<close>

unbundle bit_operations_syntax

definition LimbBits :: nat where "LimbBits = 121"
definition LimbsRS2048 :: nat where "LimbsRS2048 = 17"
definition LimbsRS4096 :: nat where "LimbsRS4096 = 34"

text \<open>\<open>FillBytes\<close> panics when a limb does not fit; \<open>None\<close> is that panic.\<close>

definition ModulusToLimbs :: "nat \<Rightarrow> nat \<Rightarrow> string list option" where
  "ModulusToLimbs n k =
     (let mask = push_bit LimbBits 1 - 1 in
      those (map (\<lambda>i. let tmp = drop_bit (i * LimbBits) n AND mask in
                      map_option (\<lambda>buf. ''0x'' @ EncodeToString buf) (FillBytes 32 tmp))
               [0..<k]))"

definition normHex :: "string \<Rightarrow> string" where
  "normHex s0 =
     (let s = ToLower (TrimPrefix (TrimPrefix (TrimSpace s0) ''0x'') ''0X'') in
      if length s < 64 then replicate (64 - length s) (CHR ''0'') @ s else s)"

definition LimbsEqual :: "string list \<Rightarrow> string list \<Rightarrow> bool" where
  "LimbsEqual a b =
     (if length a \<noteq> length b then False
      else list_all (\<lambda>i. normHex (a ! i) = normHex (b ! i)) [0..<length a])"

subsection \<open>The limbs of a modulus\<close>

definition limb :: "nat \<Rightarrow> nat \<Rightarrow> nat" where
  "limb n i = n div 2 ^ (LimbBits * i) mod 2 ^ LimbBits"

lemma limb_eq: "drop_bit (i * LimbBits) n AND (push_bit LimbBits 1 - 1) = limb n i"
proof -
  have "push_bit LimbBits (1 :: nat) - 1 = mask LimbBits"
    by (simp add: mask_eq_exp_minus_1 push_bit_eq_mult)
  then have "drop_bit (i * LimbBits) n AND (push_bit LimbBits 1 - 1) = take_bit LimbBits (drop_bit (i * LimbBits) n)"
    by (simp add: take_bit_eq_mask)
  then show ?thesis by (simp add: limb_def take_bit_eq_mod drop_bit_eq_div mult.commute)
qed

lemma limb_less: "limb n i < 2 ^ LimbBits"
  by (simp add: limb_def)

lemma limb_fits: "limb n i < 256 ^ 32"
proof -
  have "(2 :: nat) ^ LimbBits \<le> 2 ^ 256" unfolding LimbBits_def by (rule power_increasing) simp_all
  also have "\<dots> = 256 ^ 32" by simp
  finally show ?thesis using limb_less [of n i] by linarith
qed

text \<open>The limb as 32 bytes.\<close>

definition limb_bytes :: "nat \<Rightarrow> nat \<Rightarrow> byte list" where
  "limb_bytes n i = the (FillBytes 32 (limb n i))"

lemma FillBytes_limb: "FillBytes 32 (limb n i) = Some (limb_bytes n i)"
  using FillBytes_fits [of 32 "limb n i"] limb_fits by (auto simp: limb_bytes_def)

lemma limb_bytes_props [simp]: "length (limb_bytes n i) = 32" "SetBytes (limb_bytes n i) = limb n i"
  using FillBytes_Some [OF FillBytes_limb] by simp_all

lemma ModulusToLimbs_eq: "ModulusToLimbs n k = Some (map (\<lambda>i. Hex (limb_bytes n i)) [0..<k])"
proof -
  have "map (\<lambda>i. let tmp = drop_bit (i * LimbBits) n AND (push_bit LimbBits 1 - 1) in
                      map_option (\<lambda>buf. ''0x'' @ EncodeToString buf) (FillBytes 32 tmp)) [0..<k]
      = map Some (map (\<lambda>i. Hex (limb_bytes n i)) [0..<k])"
    unfolding Let_def limb_eq FillBytes_limb by (simp add: Hex_def)
  then show ?thesis unfolding ModulusToLimbs_def Let_def [of "push_bit LimbBits 1 - 1"]
    by (simp only: those_Some_iff)
qed

lemma limb_sum: "(\<Sum>i<k. limb n i * 2 ^ (LimbBits * i)) = n mod 2 ^ (LimbBits * k)"
proof (induction k)
  case (Suc k)
  have "n mod (2 ^ (LimbBits * k) * 2 ^ LimbBits)
      = 2 ^ (LimbBits * k) * (n div 2 ^ (LimbBits * k) mod 2 ^ LimbBits) + n mod 2 ^ (LimbBits * k)"
    by (rule mod_mult2_eq)
  with Suc show ?case by (simp add: limb_def power_add [symmetric] mult.commute add.commute)
qed simp

subsection \<open>Comparing limbs\<close>

lemma normHex_eq:
  "normHex s = replicate (64 - length (root_digits s)) (CHR ''0'') @ ToLower (root_digits s)"
  by (simp add: normHex_def root_digits_def Let_def)

lemma ToLower_normHex [simp]: "ToLower (normHex s) = normHex s"
  by (simp add: normHex_eq) (simp add: ToLower_def lower_char_def)

lemma lower_digit_char: "d < 16 \<Longrightarrow> lower_char (digit_char d) = digit_char d"
  by (simp add: lower_char_def of_char_digit_char)

lemma ToLower_EncodeToString [simp]: "ToLower (EncodeToString b) = EncodeToString b"
  by (induction b) (simp_all add: ToLower_def lower_digit_char)

lemma digit_in_lower:
  assumes "digit_in 16 c = Some d"
  shows "lower_char c = digit_char d"
proof -
  have "of_char (lower_char c) = (of_char (digit_char d) :: nat)"
    using assms of_char_digit_char [of d] digit_in_less [OF assms]
    by (auto simp: digit_in_def digit_val_def lower_char_def Let_def split: if_splits)
  then show ?thesis by (metis char_of_char)
qed

lemma EncodeToString_DecodeString: "DecodeString s = Some b \<Longrightarrow> EncodeToString b = ToLower s"
proof (induction s arbitrary: b rule: DecodeString.induct)
  case (3 c d s)
  then obtain h l b' where h: "digit_in 16 c = Some h" "digit_in 16 d = Some l" "DecodeString s = Some b'"
    "b = of_nat (16 * h + l) # b'"
    by (auto split: option.splits)
  have hl: "h < 16" "l < 16" using digit_in_less h(1,2) by auto
  then have "unat (of_nat (16 * h + l) :: byte) = 16 * h + l"
    by (simp add: unat_of_nat del: of_nat_add of_nat_mult)
  then have "digit_char (unat (of_nat (16 * h + l) :: byte) div 16) = lower_char c"
    "digit_char (unat (of_nat (16 * h + l) :: byte) mod 16) = lower_char d"
    using hl digit_in_lower [OF h(1)] digit_in_lower [OF h(2)] by simp_all
  moreover have "EncodeToString b' = ToLower s"
    using "3.IH" h by auto
  ultimately show ?case unfolding h(4) EncodeToString_simps by (simp add: ToLower_def)
qed (simp_all add: ToLower_def)

lemma normHex_decodes: "normHex s = EncodeToString b \<longleftrightarrow> DecodeString (normHex s) = Some b"
proof
  assume "normHex s = EncodeToString b"
  then show "DecodeString (normHex s) = Some b" by simp
next
  assume "DecodeString (normHex s) = Some b"
  from EncodeToString_DecodeString [OF this] show "normHex s = EncodeToString b" by simp
qed

lemma normHex_Hex: "length r = 32 \<Longrightarrow> normHex (Hex r) = EncodeToString r"
  unfolding normHex_eq root_digits_Hex by simp

lemma LimbsEqual_iff: "LimbsEqual a b \<longleftrightarrow> map normHex a = map normHex b"
proof (cases "length a = length b")
  case True
  then have "LimbsEqual a b \<longleftrightarrow> (\<forall>i < length a. normHex (a ! i) = normHex (b ! i))"
    unfolding LimbsEqual_def by (simp add: list_all_iff atLeast0LessThan Ball_def)
  also have "\<dots> \<longleftrightarrow> map normHex a = map normHex b"
    unfolding list_eq_iff_nth_eq using True by simp
  finally show ?thesis .
next
  case False
  then have "map normHex a \<noteq> map normHex b" by (metis length_map)
  with False show ?thesis by (simp add: LimbsEqual_def)
qed

lemma LimbsEqual_modulus:
  "LimbsEqual (map (\<lambda>i. Hex (limb_bytes n i)) [0..<k]) obs \<longleftrightarrow>
     length obs = k \<and> (\<forall>i < k. DecodeString (normHex (obs ! i)) = Some (limb_bytes n i))"
proof -
  have "map normHex (map (\<lambda>i. Hex (limb_bytes n i)) [0..<k]) = map (\<lambda>i. EncodeToString (limb_bytes n i)) [0..<k]"
    by (simp add: normHex_Hex)
  then have "LimbsEqual (map (\<lambda>i. Hex (limb_bytes n i)) [0..<k]) obs \<longleftrightarrow>
      length obs = k \<and> (\<forall>i < k. normHex (obs ! i) = EncodeToString (limb_bytes n i))"
    unfolding LimbsEqual_iff by (auto simp: list_eq_iff_nth_eq)
  then show ?thesis unfolding normHex_decodes .
qed

text \<open>The number a list of observed limbs denotes, when each of them is a 32-byte numeral.\<close>

definition observed_modulus :: "string list \<Rightarrow> nat option" where
  "observed_modulus obs =
     map_option (\<lambda>bs. \<Sum>i<length bs. SetBytes (bs ! i) * 2 ^ (LimbBits * i))
       (those (map (\<lambda>s. DecodeString (normHex s)) obs))"

lemma LimbsEqual_observed:
  assumes "LimbsEqual (map (\<lambda>i. Hex (limb_bytes n i)) [0..<k]) obs" "n < 2 ^ (LimbBits * k)"
  shows "observed_modulus obs = Some n"
proof -
  have o: "length obs = k" "\<forall>i < k. DecodeString (normHex (obs ! i)) = Some (limb_bytes n i)"
    using assms(1) unfolding LimbsEqual_modulus by auto
  have "map (\<lambda>s. DecodeString (normHex s)) obs = map Some (map (limb_bytes n) [0..<k])"
    using o by (auto simp: list_eq_iff_nth_eq)
  then have "those (map (\<lambda>s. DecodeString (normHex s)) obs) = Some (map (limb_bytes n) [0..<k])"
    by (simp only: those_Some_iff)
  then show ?thesis using limb_sum [of n k] assms(2) by (simp add: observed_modulus_def)
qed

subsection \<open>Properties\<close>

text \<open>\<open>ModulusToLimbs\<close> never panics, gives \<open>k\<close> limbs, each a 32-byte hexadecimal numeral below
  \<open>2 ^ 121\<close>, and the limbs weighted by powers of \<open>2 ^ 121\<close> sum up to the modulus, cut to
  \<open>121 * k\<close> bits.\<close>

theorem limbs_reconstruct_modulus:
  "\<exists>ls. ModulusToLimbs n k = Some ls \<and> length ls = k
     \<and> (\<exists>bs. ls = map Hex bs \<and> list_all (\<lambda>b. length b = 32 \<and> SetBytes b < 2 ^ 121) bs
          \<and> (\<Sum>i<k. SetBytes (bs ! i) * 2 ^ (121 * i)) = n mod 2 ^ (121 * k))"
proof -
  have "(\<Sum>i<k. SetBytes (map (limb_bytes n) [0..<k] ! i) * 2 ^ (121 * i)) = n mod 2 ^ (121 * k)"
    using limb_sum [of n k] by (simp add: LimbBits_def)
  moreover have "list_all (\<lambda>b. length b = 32 \<and> SetBytes b < 2 ^ 121) (map (limb_bytes n) [0..<k])"
    using limb_less [of n] by (simp add: list_all_iff LimbBits_def)
  ultimately show ?thesis
    by (auto simp: ModulusToLimbs_eq intro!: exI [of _ "map (limb_bytes n) [0..<k]"])
qed

text \<open>C22: the limb comparison decides equality of the numbers: a list of signals matches the limbs
  of a modulus that fits exactly when it has as many entries, each, once trimmed, stripped of its
  prefix and padded, 64 hexadecimal digits of the value of that limb; and then it denotes that
  modulus.\<close>

theorem limbs_equal_iff_modulus_equal:
  assumes "ModulusToLimbs n k = Some ls" and "n < 2 ^ (121 * k)"
  shows "(LimbsEqual ls obs \<longleftrightarrow> length obs = k \<and>
      (\<forall>i < k. \<exists>b. DecodeString (normHex (obs ! i)) = Some b \<and> length b = 32
         \<and> SetBytes b = n div 2 ^ (121 * i) mod 2 ^ 121))
    \<and> (LimbsEqual ls obs \<longrightarrow> observed_modulus obs = Some n)
    \<and> (\<forall>m ms. ModulusToLimbs m k = Some ms \<longrightarrow> m < 2 ^ (121 * k) \<longrightarrow> (LimbsEqual ls ms \<longleftrightarrow> n = m))"
proof -
  have ls: "ls = map (\<lambda>i. Hex (limb_bytes n i)) [0..<k]" using assms(1) by (simp add: ModulusToLimbs_eq)
  have n: "n < 2 ^ (LimbBits * k)" using assms(2) by (simp add: LimbBits_def)
  have one: "DecodeString t = Some (limb_bytes n i) \<longleftrightarrow>
      (\<exists>b. DecodeString t = Some b \<and> length b = 32 \<and> SetBytes b = limb n i)" for t i
    by (metis SetBytes_inj limb_bytes_props)
  have "LimbsEqual ls ms \<longleftrightarrow> n = m"
    if "ModulusToLimbs m k = Some ms" "m < 2 ^ (121 * k)" for m ms
  proof
    have ms: "ms = map (\<lambda>i. Hex (limb_bytes m i)) [0..<k]" using that(1) by (simp add: ModulusToLimbs_eq)
    have mm: "LimbsEqual ms ms" by (simp add: LimbsEqual_iff)
    have "observed_modulus ms = Some m"
      using LimbsEqual_observed [OF mm [unfolded ms(1) [symmetric], unfolded ms]] that(2)
      by (simp add: ms LimbBits_def)
    then show "LimbsEqual ls ms \<Longrightarrow> n = m" using LimbsEqual_observed [of n k ms] n by (simp add: ls)
    show "n = m \<Longrightarrow> LimbsEqual ls ms" by (simp add: ls ms LimbsEqual_iff)
  qed
  moreover have "LimbsEqual ls obs \<longleftrightarrow> length obs = k \<and>
      (\<forall>i < k. \<exists>b. DecodeString (normHex (obs ! i)) = Some b \<and> length b = 32 \<and> SetBytes b = limb n i)"
    unfolding ls LimbsEqual_modulus one ..
  ultimately show ?thesis using LimbsEqual_observed [of n k obs] n by (simp add: ls limb_def LimbBits_def)
qed

theorem limbs_equal_iff_modulus_equal_witness:
  "\<exists>ls ms. ModulusToLimbs 5 2 = Some ls \<and> ModulusToLimbs 6 2 = Some ms
     \<and> LimbsEqual ls ls \<and> \<not> LimbsEqual ls ms \<and> \<not> LimbsEqual ls (tl ls) \<and> observed_modulus ls = Some 5"
proof -
  obtain ls ms where l: "ModulusToLimbs 5 2 = Some ls" "ModulusToLimbs 6 2 = Some ms"
    by (simp add: ModulusToLimbs_eq eval_nat_numeral)
  have b: "(5 :: nat) < 2 ^ (121 * 2)" "(6 :: nat) < 2 ^ (121 * 2)" by simp_all
  have len: "length ls = 2" using l(1) by (auto simp: ModulusToLimbs_eq split: if_splits)
  note eq = limbs_equal_iff_modulus_equal [OF l(1) b(1)]
  have "LimbsEqual ls ls" "\<not> LimbsEqual ls ms" using eq [of ls] l b by auto
  moreover have "\<not> LimbsEqual ls (tl ls)" using eq [of "tl ls"] len by simp
  ultimately show ?thesis using eq [of ls] l by blast
qed

end
