(* ===== verification/Smt_Sources.thy ===== *)
theory Smt_Sources
  imports Smt_Root "HOL-Library.Multiset"
begin

text \<open>
  \<open>smtroot/github.go\<close> and \<open>smtroot/onchain.go\<close>: the two sources of trusted roots.  A source builds a
  request; what the network makes of it is the parameter \<open>transport\<close>, and decoding the JSON of a
  response is the parameter \<open>unmarshal\<close>.  The markdown of a release is matched with a regular
  expression, modelled by a matcher that follows its leftmost, lazy semantics.  \<open>keccak\<close> is the
  hash of the package \<open>golang.org/x/crypto/sha3\<close>.
\<close>

subsection \<open>HTTP responses\<close>

text \<open>
  A body may break off with an error; \<open>read_limited n\<close> is \<open>io.ReadAll(io.LimitReader(body, n))\<close>.
\<close>

record http_response =
  hr_StatusCode :: nat
  hr_Body :: string
  hr_ReadErr :: "err option"

datatype http_call = BuildFails err | DoFails err | Responds http_response

definition read_limited :: "nat \<Rightarrow> http_response \<Rightarrow> string result" where
  "read_limited n resp =
     (if n \<le> length (hr_Body resp) then Inr (take n (hr_Body resp))
      else case hr_ReadErr resp of Some e \<Rightarrow> Inl e | None \<Rightarrow> Inr (hr_Body resp))"

definition ellipsis :: string where
  "ellipsis = map char_of [0xE2 :: nat, 0x80, 0xA6]"

definition truncate_text :: "string \<Rightarrow> nat \<Rightarrow> string" where
  "truncate_text s n = (if length s \<le> n then s else take n s @ ellipsis)"

subsection \<open>The release body\<close>

definition re_space :: "char \<Rightarrow> bool" where
  "re_space c \<longleftrightarrow> (of_char c :: nat) \<in> {9, 10, 12, 13, 32}"

definition word_char :: "char \<Rightarrow> bool" where
  "word_char c \<longleftrightarrow> (let k = (of_char c :: nat) in
     48 \<le> k \<and> k \<le> 57 \<or> 65 \<le> k \<and> k \<le> 90 \<or> k = 95 \<or> 97 \<le> k \<and> k \<le> 122)"

text \<open>The rest after a literal matched case-insensitively.\<close>

definition strip_ci :: "string \<Rightarrow> string \<Rightarrow> string option" where
  "strip_ci p s = (if HasPrefix (ToLower s) (ToLower p) then Some (drop (length p) s) else None)"

text \<open>\<open>###\s*<header>\b\<close>; the header ends in a word character.\<close>

definition match_header :: "string \<Rightarrow> string \<Rightarrow> string option" where
  "match_header h s =
     Option.bind (strip_ci ''###'' s) (\<lambda>s1.
     Option.bind (strip_ci h (dropWhile re_space s1)) (\<lambda>s2.
     if s2 = [] \<or> \<not> word_char (hd s2) then Some s2 else None))"

text \<open>\<open>**Root:**\s*`?0x([0-9a-fA-F]{64})\<close>: the captured digits.\<close>

definition match_root :: "string \<Rightarrow> string option" where
  "match_root s =
     Option.bind (strip_ci ''**Root:**'' s) (\<lambda>s1.
     let s2 = dropWhile re_space s1;
         s3 = (if s2 \<noteq> [] \<and> hd s2 = CHR 0x60 then tl s2 else s2)
     in Option.bind (strip_ci ''0x'' s3) (\<lambda>s4.
     let g = take 64 s4 in
     if length g = 64 \<and> list_all (\<lambda>c. digit_in 16 c \<noteq> None) g then Some g else None))"

text \<open>The first position at which a matcher succeeds: leftmost for the expression, lazy for \<open>.*?\<close>.\<close>

fun first_match :: "(string \<Rightarrow> 'a option) \<Rightarrow> string \<Rightarrow> 'a option" where
  "first_match f [] = f []"
| "first_match f (c # s) = (case f (c # s) of Some x \<Rightarrow> Some x | None \<Rightarrow> first_match f s)"

definition shortHeader :: "IssuerID \<Rightarrow> string" where
  "shortHeader issuer =
     (if issuer = IssuerG2 then ''G2'' else if issuer = IssuerG3 then ''G3'' else LongName issuer)"

definition issuerRootRegex :: "IssuerID \<Rightarrow> string \<Rightarrow> string option" where
  "issuerRootRegex issuer body =
     first_match (\<lambda>s. Option.bind (match_header (shortHeader issuer) s) (first_match match_root)) body"

fun parse_issuers :: "IssuerID list \<Rightarrow> string \<Rightarrow> (IssuerID \<rightharpoonup> Root) \<Rightarrow> (IssuerID \<rightharpoonup> Root) result" where
  "parse_issuers [] body out = Inr out"
| "parse_issuers (issuer # is) body out =
     (case issuerRootRegex issuer body of
        None \<Rightarrow> Inl (Errorf ''release body missing root for %s'' [LongName issuer])
      | Some m \<Rightarrow>
     (case ParseRoot m of
        Inl e \<Rightarrow> Inl (Wrapf ''parse %s root: %w'' [LongName issuer] e)
      | Inr r \<Rightarrow> parse_issuers is body (out(issuer \<mapsto> r))))"

definition parseReleaseBody :: "string \<Rightarrow> (IssuerID \<rightharpoonup> Root) result" where
  "parseReleaseBody body = parse_issuers AllIssuers body Map.empty"

subsection \<open>The GitHub source\<close>

record GitHubReleaseSource =
  gh_Repo :: string
  gh_Tag :: string
  gh_APIBase :: string
  gh_Timeout :: duration
  gh_UserAgent :: string

definition DefaultGitHubRepo :: string where "DefaultGitHubRepo = ''privacy-ethereum/moica-revocation-smt''"
definition DefaultGitHubTag :: string where "DefaultGitHubTag = ''snapshot-latest''"

definition NewGitHubReleaseSource :: "string \<Rightarrow> string \<Rightarrow> duration \<Rightarrow> GitHubReleaseSource" where
  "NewGitHubReleaseSource repo tag tmo =
     \<lparr>gh_Repo = (if repo = '''' then DefaultGitHubRepo else repo),
      gh_Tag = (if tag = '''' then DefaultGitHubTag else tag),
      gh_APIBase = ''https://api.github.com'',
      gh_Timeout = (if tmo \<le> 0 then 5 * Second else tmo),
      gh_UserAgent = ''go-zkid-verifier''\<rparr>"

record http_request =
  rq_URL :: string
  rq_Headers :: "(string \<times> string) list"

definition github_request :: "GitHubReleaseSource \<Rightarrow> http_request" where
  "github_request s =
     \<lparr>rq_URL = gh_APIBase s @ ''/repos/'' @ gh_Repo s @ ''/releases/tags/'' @ gh_Tag s,
      rq_Headers = [(''Accept'', ''application/vnd.github+json''),
          (''X-GitHub-Api-Version'', ''2022-11-28'')]
        @ (if gh_UserAgent s \<noteq> '''' then [(''User-Agent'', gh_UserAgent s)] else [])\<rparr>"

text \<open>\<open>unmarshal\<close> gives the member \<open>body\<close> of the payload.\<close>

definition github_FetchAll ::
  "(http_request \<Rightarrow> http_call) \<Rightarrow> (string \<Rightarrow> string result) \<Rightarrow> GitHubReleaseSource
    \<Rightarrow> (IssuerID \<rightharpoonup> Root) result" where
  "github_FetchAll transport unmarshal s =
     (case transport (github_request s) of
        BuildFails e \<Rightarrow> Inl (Wrapf ''build request: %w'' [] e)
      | DoFails e \<Rightarrow> Inl (Wrapf ''http: %w'' [] e)
      | Responds resp \<Rightarrow>
     (case read_limited (1 * 1024 * 1024) resp of
        Inl e \<Rightarrow> Inl (Wrapf ''read body: %w'' [] e)
      | Inr body \<Rightarrow>
          if hr_StatusCode resp \<noteq> 200
          then Inl (Errorf ''status %d: %s'' [nat_string 10 (hr_StatusCode resp), truncate_text body 200])
          else case unmarshal body of
                 Inl e \<Rightarrow> Inl (Wrapf ''decode release: %w'' [] e)
               | Inr b \<Rightarrow> parseReleaseBody b))"

subsection \<open>The on-chain source\<close>

record OnchainSource =
  oc_RPCURL :: string
  oc_Contract :: string
  oc_Timeout :: duration

definition DefaultRPCURL :: string where "DefaultRPCURL = ''https://ethereum-rpc.publicnode.com''"
definition DefaultContract :: string where "DefaultContract = ''0xf3aAAe2D017dcC9cA901aDC9Da419f1C70362ab1''"

definition NewOnchainSource :: "string \<Rightarrow> string \<Rightarrow> duration \<Rightarrow> OnchainSource" where
  "NewOnchainSource rpcURL contract tmo =
     \<lparr>oc_RPCURL = (if rpcURL = '''' then DefaultRPCURL else rpcURL),
      oc_Contract = (if contract = '''' then DefaultContract else contract),
      oc_Timeout = (if tmo \<le> 0 then 5 * Second else tmo)\<rparr>"

record rpcRequest =
  rpc_URL :: string
  rpc_JSONRPC :: string
  rpc_ID :: int
  rpc_Method :: string
  rpc_To :: string
  rpc_Data :: string
  rpc_Block :: string

record rpcResponse =
  rr_Result :: string
  rr_Error :: "(int \<times> string) option"

definition getRootSelector :: "(byte list \<Rightarrow> byte list) \<Rightarrow> byte list" where
  "getRootSelector keccak = take 4 (keccak (bytes_of_string ''getRoot(bytes32)''))"

text \<open>The map that \<open>init\<close> fills, and its lookup: the zero hash for a missing key.\<close>

definition issuerIDCache :: "(byte list \<Rightarrow> byte list) \<Rightarrow> IssuerID \<rightharpoonup> byte list" where
  "issuerIDCache keccak = fold (\<lambda>issuer m. m(issuer \<mapsto> keccak (bytes_of_string (LongName issuer)))) AllIssuers Map.empty"

definition IssuerIDHash :: "(byte list \<Rightarrow> byte list) \<Rightarrow> IssuerID \<Rightarrow> byte list" where
  "IssuerIDHash keccak issuer =
     (case issuerIDCache keccak issuer of None \<Rightarrow> replicate 32 0 | Some h \<Rightarrow> h)"

lemma IssuerIDHash_eq:
  "IssuerIDHash keccak issuer =
     (if issuer \<in> set AllIssuers then keccak (bytes_of_string (LongName issuer)) else replicate 32 0)"
  by (simp add: IssuerIDHash_def issuerIDCache_def AllIssuers_def)

definition eth_call :: "(byte list \<Rightarrow> byte list) \<Rightarrow> OnchainSource \<Rightarrow> IssuerID \<Rightarrow> rpcRequest" where
  "eth_call keccak s issuer =
     \<lparr>rpc_URL = oc_RPCURL s, rpc_JSONRPC = ''2.0'', rpc_ID = 1, rpc_Method = ''eth_call'',
      rpc_To = oc_Contract s,
      rpc_Data = ''0x'' @ EncodeToString (getRootSelector keccak @ IssuerIDHash keccak issuer),
      rpc_Block = ''latest''\<rparr>"

definition onchain_fetch ::
  "(byte list \<Rightarrow> byte list) \<Rightarrow> (rpcRequest \<Rightarrow> http_call) \<Rightarrow> (string \<Rightarrow> rpcResponse result)
    \<Rightarrow> OnchainSource \<Rightarrow> IssuerID \<Rightarrow> Root result" where
  "onchain_fetch keccak transport unmarshal s issuer =
     (case transport (eth_call keccak s issuer) of
        BuildFails e \<Rightarrow> Inl (Wrapf ''build request: %w'' [] e)
      | DoFails e \<Rightarrow> Inl (Wrapf ''http: %w'' [] e)
      | Responds resp \<Rightarrow>
     (case read_limited (64 * 1024) resp of
        Inl e \<Rightarrow> Inl (Wrapf ''read body: %w'' [] e)
      | Inr body \<Rightarrow>
          if hr_StatusCode resp \<noteq> 200
          then Inl (Errorf ''status %d: %s'' [nat_string 10 (hr_StatusCode resp), truncate_text body 200])
          else case unmarshal body of
                 Inl e \<Rightarrow> Inl (Wrapf ''decode response: %w'' [] e)
               | Inr rr \<Rightarrow>
              (case rr_Error rr of
                 Some (code, msg) \<Rightarrow> Inl (Errorf ''rpc error %d: %s'' [Int_String code, msg])
               | None \<Rightarrow>
                   let hx = TrimPrefix (rr_Result rr) ''0x'' in
                   if length hx \<noteq> 64
                   then Inl (Errorf ''unexpected result length %d: %q'' [nat_string 10 (length hx), rr_Result rr])
                   else ParseRoot hx)))"

text \<open>
  One goroutine per issuer; \<open>order\<close> is the order in which their results come out of the channel.
\<close>

fun collect :: "(IssuerID \<Rightarrow> Root result) \<Rightarrow> IssuerID list \<Rightarrow> (IssuerID \<rightharpoonup> Root) \<Rightarrow> err list
    \<Rightarrow> (IssuerID \<rightharpoonup> Root) \<times> err list" where
  "collect fetch [] out errs = (out, errs)"
| "collect fetch (i # is) out errs =
     (case fetch i of
        Inl e \<Rightarrow> collect fetch is out (errs @ [Wrapf ''%s: %w'' [LongName i] e])
      | Inr r \<Rightarrow> collect fetch is (out(i \<mapsto> r)) errs)"

definition onchain_FetchAll ::
  "(byte list \<Rightarrow> byte list) \<Rightarrow> (rpcRequest \<Rightarrow> http_call) \<Rightarrow> (string \<Rightarrow> rpcResponse result)
    \<Rightarrow> OnchainSource \<Rightarrow> IssuerID list \<Rightarrow> (IssuerID \<rightharpoonup> Root) result" where
  "onchain_FetchAll keccak transport unmarshal s order =
     (case collect (onchain_fetch keccak transport unmarshal s) order Map.empty [] of
        (out, errs) \<Rightarrow> if 0 < length errs then Inl (Joined errs) else Inr out)"

subsection \<open>Matching a release body\<close>

lemma first_match_skip:
  "\<forall>c \<in> set a. \<forall>s. f (c # s) = None \<Longrightarrow> first_match f (a @ s) = first_match f s"
  by (induction a) simp_all

lemma first_match_Some: "f s = Some x \<Longrightarrow> first_match f s = Some x"
  by (cases s) simp_all

lemma lower_char_hash: "lower_char c = CHR ''#'' \<longleftrightarrow> c = CHR ''#''"
  and lower_char_star: "lower_char c = CHR ''*'' \<longleftrightarrow> c = CHR ''*''"
proof -
  have "lower_char c = d \<longleftrightarrow> c = d" if "(of_char d :: nat) < 65" for d
  proof (cases "65 \<le> (of_char c :: nat) \<and> (of_char c :: nat) \<le> 90")
    case True
    then have "(of_char (lower_char c) :: nat) = of_char c + 32" by (simp add: lower_char_def)
    then have "lower_char c \<noteq> d" "c \<noteq> d" using that True by auto
    then show ?thesis by simp
  next
    case False
    then have "lower_char c = c" by (auto simp: lower_char_def)
    then show ?thesis by simp
  qed
  then show "lower_char c = CHR ''#'' \<longleftrightarrow> c = CHR ''#''" "lower_char c = CHR ''*'' \<longleftrightarrow> c = CHR ''*''"
    by simp_all
qed

lemma match_header_head: "c \<noteq> CHR ''#'' \<Longrightarrow> match_header h (c # s) = None"
  by (simp add: match_header_def strip_ci_def ToLower_def lower_char_hash lower_char_def [of "CHR ''#''"])

lemma match_root_head: "c \<noteq> CHR ''*'' \<Longrightarrow> match_root (c # s) = None"
  by (simp add: match_root_def strip_ci_def ToLower_def lower_char_star lower_char_def [of "CHR ''*''"])

definition backquote :: string where
  "backquote = [CHR 0x60]"

text \<open>A root entry as the releases print it.\<close>

definition root_entry :: "Root \<Rightarrow> string" where
  "root_entry r = ''**Root:** '' @ backquote @ Hex r @ backquote"

lemma match_root_entry:
  assumes "length r = 32"
  shows "match_root (root_entry r @ s) = Some (EncodeToString r)"
proof -
  have "length (EncodeToString r) = 64" using assms by simp
  moreover have "list_all (\<lambda>c. digit_in 16 c \<noteq> None) (EncodeToString r)"
    using EncodeToString_chars by (fastforce simp: list_all_iff)
  ultimately show ?thesis
    by (simp add: match_root_def root_entry_def backquote_def strip_ci_def ToLower_def Hex_def
        re_space_def lower_char_def Let_def)
qed

lemma ParseRoot_EncodeToString:
  assumes "length r = 32"
  shows "ParseRoot (EncodeToString r) = Inr r"
proof -
  have "root_digits (EncodeToString r) = EncodeToString r"
  proof -
    have g: "graphic c \<and> c \<noteq> CHR ''x'' \<and> c \<noteq> CHR ''X''" if "c \<in> set (EncodeToString r)" for c
    proof -
      from EncodeToString_chars [OF that] obtain d where "d < 16" "c = digit_char d" by blast
      then show ?thesis using digit_char_neq [of d] graphic_digit_char [of d] by simp
    qed
    have "TrimSpace (EncodeToString r) = EncodeToString r"
      by (rule TrimSpace_graphic) (use g in \<open>meson hd_in_set last_in_set\<close>)
    moreover have "\<not> HasPrefix (EncodeToString r) ''0x''" "\<not> HasPrefix (EncodeToString r) ''0X''"
      using g [of "CHR ''x''"] g [of "CHR ''X''"] by (auto simp: HasPrefix_iff)
    ultimately show ?thesis by (simp add: root_digits_def TrimPrefix_def)
  qed
  then show ?thesis using ParseRoot_Hex [OF assms] by (simp add: ParseRoot_Inr_iff root_digits_Hex)
qed

lemma root_skip:
  "CHR ''*'' \<notin> set g \<Longrightarrow> first_match match_root (g @ s) = first_match match_root s"
  by (induction g) (auto simp: match_root_head)

lemma header_skip:
  "CHR ''#'' \<notin> set a \<Longrightarrow>
     first_match (\<lambda>s. Option.bind (match_header h s) (first_match match_root)) (a @ s)
       = first_match (\<lambda>s. Option.bind (match_header h s) (first_match match_root)) s"
  by (induction a) (auto simp: match_header_head)

lemma find_root_entry:
  assumes "length r = 32" "CHR ''*'' \<notin> set g"
  shows "first_match match_root (g @ root_entry r @ s) = Some (EncodeToString r)"
  unfolding root_skip [OF assms(2)] by (rule first_match_Some) (rule match_root_entry [OF assms(1)])

lemma header_here:
  assumes "match_header h s = Some r" "first_match match_root r = Some x"
  shows "first_match (\<lambda>s. Option.bind (match_header h s) (first_match match_root)) s = Some x"
  by (rule first_match_Some) (simp add: assms)

lemma match_header_G2 [simp]:
  "match_header ''G2'' (''### G2'' @ CHR 0x0A # s) = Some (CHR 0x0A # s)"
  and match_header_G3 [simp]:
  "match_header ''G3'' (''### G3'' @ CHR 0x0A # s) = Some (CHR 0x0A # s)"
  and match_header_G3_G2 [simp]: "match_header ''G3'' (''### G2'' @ s) = None"
  by (simp_all add: match_header_def strip_ci_def ToLower_def re_space_def word_char_def lower_char_def Let_def)

lemma root_entry_no_hash: "CHR ''#'' \<notin> set (root_entry r)"
proof -
  have "CHR ''#'' \<notin> set (EncodeToString r)"
  proof
    assume "CHR ''#'' \<in> set (EncodeToString r)"
    from EncodeToString_chars [OF this] obtain d where "d < 16" "digit_char d = CHR ''#''" by auto
    with of_char_digit_char [of d] show False by (auto split: if_splits)
  qed
  then show ?thesis by (simp add: root_entry_def backquote_def Hex_def)
qed

lemma match_header_hash:
  "match_header h (CHR ''#'' # CHR ''#'' # CHR '' '' # s) = None"
  "match_header h (CHR ''#'' # CHR '' '' # s) = None"
  by (simp_all add: match_header_def strip_ci_def ToLower_def lower_char_def)

lemma skip_G2_header:
  assumes "CHR ''#'' \<notin> set a"
  shows "issuerRootRegex IssuerG3 (''### G2'' @ a @ s) = issuerRootRegex IssuerG3 s"
proof -
  let ?f = "\<lambda>s. Option.bind (match_header ''G3'' s) (first_match match_root)"
  have "first_match ?f (a @ s) = first_match ?f s"
    by (rule header_skip [OF assms])
  then show ?thesis
    using match_header_G3_G2 [of "a @ s"]
    by (simp add: issuerRootRegex_def shortHeader_def match_header_hash match_header_head del: match_header_G3_G2)
qed

lemma regex_here:
  assumes "shortHeader i = h" "match_header h s = Some r" "first_match match_root r = Some x"
  shows "issuerRootRegex i s = Some x"
  unfolding issuerRootRegex_def assms(1) by (rule header_here [OF assms(2,3)])

subsection \<open>Outcomes of the sources\<close>

lemma parse_issuers_Inr:
  "parse_issuers is body out = Inr rs \<Longrightarrow>
     (\<forall>i. if i \<in> set is
          then \<exists>r. (\<exists>m. issuerRootRegex i body = Some m \<and> ParseRoot m = Inr r) \<and> rs i = Some r
          else rs i = out i)"
proof (induction "is" arbitrary: out)
  case (Cons j js)
  from Cons.prems obtain m r where m: "issuerRootRegex j body = Some m" "ParseRoot m = Inr r"
    "parse_issuers js body (out(j \<mapsto> r)) = Inr rs"
    by (auto split: option.splits sum.splits)
  show ?case
  proof
    fix i
    show "if i \<in> set (j # js)
        then \<exists>r. (\<exists>m. issuerRootRegex i body = Some m \<and> ParseRoot m = Inr r) \<and> rs i = Some r
        else rs i = out i"
      using Cons.IH [OF m(3), THEN spec, of i] m(1,2) by (cases "i \<in> set js"; cases "i = j") auto
  qed
qed simp

lemma parse_issuers_ok:
  "\<forall>i \<in> set is. \<exists>m. issuerRootRegex i body = Some m \<and> ParseRoot m = Inr (v i) \<Longrightarrow>
     parse_issuers is body out = Inr (\<lambda>i. if i \<in> set is then Some (v i) else out i)"
  by (induction "is" arbitrary: out) (fastforce simp: fun_eq_iff)+

lemma collect_eq:
  "collect fetch is out errs =
     (\<lambda>i. if i \<in> set is then (case fetch i of Inr r \<Rightarrow> Some r | Inl e \<Rightarrow> out i) else out i,
      errs @ List.map_filter (\<lambda>i. case fetch i of Inl e \<Rightarrow> Some (Wrapf ''%s: %w'' [LongName i] e) | Inr r \<Rightarrow> None) is)"
  by (induction "is" arbitrary: out errs) (auto simp: map_filter_simps fun_eq_iff split: sum.splits)

lemma map_filter_Nil_iff: "List.map_filter f xs = [] \<longleftrightarrow> (\<forall>x \<in> set xs. f x = None)"
  by (induction xs) (auto simp: map_filter_simps split: option.splits)

text \<open>A map with a given domain whose entries satisfy a predicate.\<close>

lemma map_on_iff:
  "(\<forall>i. if i \<in> A then \<exists>r. P i r \<and> rs i = Some r else rs i = None) \<longleftrightarrow>
     dom rs = A \<and> (\<forall>i r. rs i = Some r \<longrightarrow> P i r)" (is "?l \<longleftrightarrow> ?r")
proof
  assume l: ?l
  have "rs i = Some r \<Longrightarrow> i \<in> A \<and> P i r" for i r using l [THEN spec, of i] by (auto split: if_splits)
  moreover have "i \<in> A \<Longrightarrow> \<exists>r. rs i = Some r" for i using l [THEN spec, of i] by auto
  ultimately show ?r by (auto simp: dom_def)
next
  assume r: ?r
  show ?l
  proof
    fix i
    from r show "if i \<in> A then \<exists>r. P i r \<and> rs i = Some r else rs i = None"
      by (cases "rs i") (auto simp: dom_def)
  qed
qed

lemma collect_ok_iff:
  "collect fetch is Map.empty [] = (rs, []) \<longleftrightarrow>
     (\<forall>i. if i \<in> set is then \<exists>r. fetch i = Inr r \<and> rs i = Some r else rs i = None)" (is "?l \<longleftrightarrow> ?r")
proof -
  have n: "List.map_filter (\<lambda>i. case fetch i of Inl e \<Rightarrow> Some (Wrapf ''%s: %w'' [LongName i] e) | Inr r \<Rightarrow> None) is = []
      \<longleftrightarrow> (\<forall>i \<in> set is. \<exists>r. fetch i = Inr r)"
    by (auto simp: map_filter_Nil_iff split: sum.splits) (metis sum.exhaust)
  show ?thesis
  proof
    assume ?l
    then have "\<forall>i \<in> set is. \<exists>r. fetch i = Inr r" "rs = (\<lambda>i. if i \<in> set is then (case fetch i of Inr r \<Rightarrow> Some r | Inl e \<Rightarrow> None) else None)"
      using n by (auto simp: collect_eq)
    then show ?r by auto
  next
    assume r: ?r
    have "\<exists>v. fetch i = Inr v" if "i \<in> set is" for i using r [THEN spec, of i] that by auto
    then have ok: "\<forall>i \<in> set is. \<exists>r. fetch i = Inr r" by blast
    moreover have "rs = (\<lambda>i. if i \<in> set is then (case fetch i of Inr r \<Rightarrow> Some r | Inl e \<Rightarrow> None) else None)"
    proof
      fix i
      show "rs i = (if i \<in> set is then (case fetch i of Inr r \<Rightarrow> Some r | Inl e \<Rightarrow> None) else None)"
        using r [THEN spec, of i] by auto
    qed
    ultimately show ?l using n by (simp add: collect_eq)
  qed
qed

lemma onchain_FetchAll_Inr:
  assumes "set order = set AllIssuers"
  shows "onchain_FetchAll keccak tr um s order = Inr rs \<longleftrightarrow>
    dom rs = set AllIssuers \<and> (\<forall>i r. rs i = Some r \<longrightarrow> onchain_fetch keccak tr um s i = Inr r)"
proof -
  have "onchain_FetchAll keccak tr um s order = Inr rs \<longleftrightarrow>
      collect (onchain_fetch keccak tr um s) order Map.empty [] = (rs, [])"
    by (auto simp: onchain_FetchAll_def split: prod.split)
  then show ?thesis unfolding collect_ok_iff assms map_on_iff .
qed

lemma onchain_fetch_length: "onchain_fetch keccak tr um s i = Inr r \<Longrightarrow> length r = 32"
  by (auto simp: onchain_fetch_def ParseRoot_Inr_iff Let_def
      split: http_call.splits sum.splits if_splits option.splits)

lemma parseReleaseBody_length: "parseReleaseBody body = Inr rs \<Longrightarrow> rs i = Some r \<Longrightarrow> length r = 32"
  using parse_issuers_Inr [of AllIssuers body Map.empty rs, THEN spec, of i]
  by (auto simp: parseReleaseBody_def ParseRoot_Inr_iff split: if_splits)

lemma github_FetchAll_length: "github_FetchAll tr um s = Inr rs \<Longrightarrow> rs i = Some r \<Longrightarrow> length r = 32"
  by (auto simp: github_FetchAll_def intro: parseReleaseBody_length
      split: http_call.splits sum.splits if_splits)

lemma EncodeToString_zeros: "EncodeToString (replicate n 0) = replicate (2 * n) (CHR ''0'')"
proof -
  have "digit_char 0 = CHR ''0''" by (simp add: digit_char_def char_of_def bit_0)
  then show ?thesis by (induction n) simp_all
qed

lemma ParseRoot_zero: "ParseRoot (replicate 64 (CHR ''0'')) = Inr zero_root"
proof -
  have "EncodeToString zero_root = replicate 64 (CHR ''0'')"
    using EncodeToString_zeros [of 32] by (simp add: zero_root_def)
  then show ?thesis using ParseRoot_EncodeToString [of zero_root] by (simp add: zero_root_def)
qed

lemma onchain_fetch_zero:
  assumes "tr (eth_call keccak s i) = Responds resp" "hr_StatusCode resp = 200" "hr_ReadErr resp = None"
    and "\<forall>b. um b = Inr \<lparr>rr_Result = ''0x'' @ replicate 64 (CHR ''0''), rr_Error = None\<rparr>"
  shows "onchain_fetch keccak tr um s i = Inr zero_root"
proof -
  have "TrimPrefix (''0x'' @ replicate 64 (CHR ''0'')) ''0x'' = replicate 64 (CHR ''0'')"
    by (rule TrimPrefix_append)
  with assms ParseRoot_zero show ?thesis
    by (simp add: onchain_fetch_def read_limited_def Let_def)
qed

lemma parseReleaseBody_Inr:
  "parseReleaseBody body = Inr rs \<longleftrightarrow>
     dom rs = set AllIssuers
     \<and> (\<forall>i r. rs i = Some r \<longrightarrow> (\<exists>m. issuerRootRegex i body = Some m \<and> ParseRoot m = Inr r))"
  (is "?l \<longleftrightarrow> ?d \<and> ?e")
proof
  assume l: ?l
  have "\<forall>i. if i \<in> set AllIssuers
      then \<exists>r. (\<exists>m. issuerRootRegex i body = Some m \<and> ParseRoot m = Inr r) \<and> rs i = Some r
      else rs i = None"
    using parse_issuers_Inr [OF l [unfolded parseReleaseBody_def]] by simp
  then show "?d \<and> ?e" unfolding map_on_iff .
next
  assume r: "?d \<and> ?e"
  have "\<exists>m. issuerRootRegex i body = Some m \<and> ParseRoot m = Inr (the (rs i))" if "i \<in> set AllIssuers" for i
  proof -
    from r that obtain v where "rs i = Some v" by blast
    with r show ?thesis by auto
  qed
  then have "parseReleaseBody body = Inr (\<lambda>i. if i \<in> set AllIssuers then Some (the (rs i)) else None)"
    unfolding parseReleaseBody_def by (intro parse_issuers_ok) blast
  moreover have "(if i \<in> set AllIssuers then Some (the (rs i)) else None) = rs i" for i
    unfolding conjunct1 [OF r, symmetric] by (cases "rs i") auto
  ultimately show ?l by simp
qed

subsection \<open>Properties\<close>

text \<open>A release body is accepted exactly when for both issuers the expression finds a root and
  the root parses, and the result maps exactly the two issuers to those roots: a body that lacks one
  never yields a partial update.\<close>

theorem release_both_or_error:
  "(parseReleaseBody body = Inr rs) =
     (dom rs = {IssuerG2, IssuerG3}
      \<and> (\<forall>i r. rs i = Some r \<longrightarrow> (\<exists>m. issuerRootRegex i body = Some m \<and> ParseRoot m = Inr r)))"
  using parseReleaseBody_Inr by simp

text \<open>C33: the body the releases print, with a root entry in each section, parses to exactly the two
  printed roots.\<close>

theorem release_roundtrip:
  assumes "length r2 = 32" and "length r3 = 32"
    and "CHR ''*'' \<notin> set g2 \<union> set g3" and "CHR ''#'' \<notin> set g2 \<union> set c2"
  shows "parseReleaseBody (''### G2'' @ CHR 0x0A # g2 @ root_entry r2 @ c2
      @ ''### G3'' @ CHR 0x0A # g3 @ root_entry r3 @ c3)
    = Inr [IssuerG2 \<mapsto> r2, IssuerG3 \<mapsto> r3]"
proof -
  let ?t3 = "''### G3'' @ CHR 0x0A # g3 @ root_entry r3 @ c3"
  let ?b = "''### G2'' @ CHR 0x0A # g2 @ root_entry r2 @ c2 @ ?t3"
  have f2: "first_match match_root ((CHR 0x0A # g2) @ root_entry r2 @ c2 @ ?t3) = Some (EncodeToString r2)"
    by (rule find_root_entry) (use assms in auto)
  have f3: "first_match match_root ((CHR 0x0A # g3) @ root_entry r3 @ c3) = Some (EncodeToString r3)"
    by (rule find_root_entry) (use assms in auto)
  have "issuerRootRegex IssuerG2 ?b = Some (EncodeToString r2)"
    by (rule regex_here [OF _ match_header_G2]) (use f2 in \<open>simp_all add: shortHeader_def\<close>)
  moreover have "issuerRootRegex IssuerG3 ?b = Some (EncodeToString r3)"
  proof -
    have "issuerRootRegex IssuerG3 ?b = issuerRootRegex IssuerG3 ?t3"
      using skip_G2_header [of "CHR 0x0A # g2 @ root_entry r2 @ c2" ?t3] assms(4) root_entry_no_hash
      by simp
    also have "\<dots> = Some (EncodeToString r3)"
      by (rule regex_here [OF _ match_header_G3]) (use f3 in \<open>simp_all add: shortHeader_def\<close>)
    finally show ?thesis .
  qed
  ultimately show ?thesis
    using parse_issuers_ok [of AllIssuers ?b "\<lambda>i. if i = IssuerG2 then r2 else r3" Map.empty]
      ParseRoot_EncodeToString assms(1,2)
    by (auto simp: parseReleaseBody_def fun_eq_iff)
qed

theorem release_roundtrip_witness:
  "parseReleaseBody (''### G2'' @ CHR 0x0A # ''- '' @ root_entry (replicate 32 7) @ CHR 0x0A # ''- **Count:** 4''
      @ ''### G3'' @ CHR 0x0A # ''- '' @ root_entry zero_root @ [])
    = Inr [IssuerG2 \<mapsto> replicate 32 7, IssuerG3 \<mapsto> zero_root]"
  using release_roundtrip [of "replicate 32 7" zero_root "''- ''" "''- ''" "CHR 0x0A # ''- **Count:** 4''" "[]"]
  by (simp add: zero_root_def)

text \<open>C40: The lazy gap of the expression is not confined to a section: when the G2 section has no
  root, G3's root is taken for G2 as well, and the body is accepted with one root for both issuers.\<close>

theorem release_section_crossing:
  assumes "length r = 32" and "CHR ''*'' \<notin> set g2 \<union> set g3" and "CHR ''#'' \<notin> set g2"
  shows "parseReleaseBody (''### G2'' @ CHR 0x0A # g2 @ ''### G3'' @ CHR 0x0A # g3 @ root_entry r @ c)
    = Inr [IssuerG2 \<mapsto> r, IssuerG3 \<mapsto> r]"
proof -
  let ?t3 = "''### G3'' @ CHR 0x0A # g3 @ root_entry r @ c"
  let ?b = "''### G2'' @ CHR 0x0A # g2 @ ?t3"
  have f2: "first_match match_root ((CHR 0x0A # g2 @ ''### G3'' @ CHR 0x0A # g3) @ root_entry r @ c)
      = Some (EncodeToString r)"
    by (rule find_root_entry) (use assms in auto)
  have f3: "first_match match_root ((CHR 0x0A # g3) @ root_entry r @ c) = Some (EncodeToString r)"
    by (rule find_root_entry) (use assms in auto)
  have "issuerRootRegex IssuerG2 ?b = Some (EncodeToString r)"
    by (rule regex_here [OF _ match_header_G2]) (use f2 in \<open>simp_all add: shortHeader_def\<close>)
  moreover have "issuerRootRegex IssuerG3 ?b = Some (EncodeToString r)"
  proof -
    have "issuerRootRegex IssuerG3 ?t3 = Some (EncodeToString r)"
      by (rule regex_here [OF _ match_header_G3]) (use f3 in \<open>simp_all add: shortHeader_def\<close>)
    then show ?thesis using skip_G2_header [of "CHR 0x0A # g2" ?t3] assms(3) by simp
  qed
  ultimately show ?thesis
    using parse_issuers_ok [of AllIssuers ?b "\<lambda>i. r" Map.empty] ParseRoot_EncodeToString assms(1)
    by (auto simp: parseReleaseBody_def fun_eq_iff)
qed

theorem release_section_crossing_witness:
  "parseReleaseBody (''### G2'' @ CHR 0x0A # ''pending'' @ ''### G3'' @ CHR 0x0A # ''- '' @ root_entry zero_root @ [])
    = Inr [IssuerG2 \<mapsto> zero_root, IssuerG3 \<mapsto> zero_root]"
  using release_section_crossing [of zero_root "''pending''" "''- ''" "[]"] by (simp add: zero_root_def)

text \<open>C34: the on-chain source is all or nothing, whatever the order in which the parallel calls
  finish: it succeeds exactly when the call of every issuer succeeds, with exactly those roots.\<close>

theorem onchain_all_or_nothing:
  assumes "mset order = mset AllIssuers"
  shows "(onchain_FetchAll keccak tr um s order = Inr rs) =
    (dom rs = {IssuerG2, IssuerG3}
     \<and> (\<forall>i r. rs i = Some r \<longrightarrow> onchain_fetch keccak tr um s i = Inr r \<and> length r = 32))"
  using onchain_FetchAll_Inr [OF mset_eq_setD [OF assms], of keccak tr um s rs]
  by (auto dest: onchain_fetch_length)

theorem onchain_all_or_nothing_witness:
  "(onchain_FetchAll (\<lambda>_. zero_root) (\<lambda>_. Responds \<lparr>hr_StatusCode = 200, hr_Body = [], hr_ReadErr = None\<rparr>)
      (\<lambda>_. Inr \<lparr>rr_Result = ''0x'' @ replicate 64 (CHR ''0''), rr_Error = None\<rparr>)
      (NewOnchainSource '''' '''' 0) [IssuerG3, IssuerG2]) = Inr [IssuerG2 \<mapsto> zero_root, IssuerG3 \<mapsto> zero_root]"
proof -
  have "mset [IssuerG3, IssuerG2] = mset AllIssuers" by (simp add: AllIssuers_def)
  then show ?thesis
    by (subst onchain_all_or_nothing) (auto simp: onchain_fetch_zero, simp_all add: zero_root_def)
qed

text \<open>An issuer the contract does not know is not told from a loaded one: when the node answers
  with the zero word for every issuer, the refresh succeeds and the zero root is trusted.\<close>

theorem zero_root_trusted:
  assumes "\<forall>rq. \<exists>resp. tr rq = Responds resp \<and> hr_StatusCode resp = 200 \<and> hr_ReadErr resp = None"
    and "\<forall>b. um b = Inr \<lparr>rr_Result = ''0x'' @ replicate 64 (CHR ''0''), rr_Error = None\<rparr>"
    and "mset order = mset AllIssuers" and "primary p = Some s"
  shows "\<exists>p'. FetchNow nm (\<lambda>k s. (onchain_FetchAll keccak tr um s order, l)) now p = (None, p')
    \<and> Trusted p' IssuerG2 = Some zero_root \<and> IsZero zero_root"
proof -
  have f: "onchain_fetch keccak tr um s i = Inr zero_root" for i
    using assms(1,2) onchain_fetch_zero by metis
  have "onchain_FetchAll keccak tr um s order = Inr (\<lambda>i. if i \<in> set AllIssuers then Some zero_root else None)"
    by (subst onchain_FetchAll_Inr [OF mset_eq_setD [OF assms(3)]]) (auto simp: f dom_def split: if_splits)
  then show ?thesis
    using assms(4)
    by (simp add: FetchNow_def sources_of_def Let_def setRoots_success Trusted_def IsZero_def map_add_def)
qed

theorem zero_root_trusted_witness:
  "\<exists>p'. FetchNow (\<lambda>s. ''onchain'') (\<lambda>k s. (onchain_FetchAll (\<lambda>_. zero_root)
        (\<lambda>_. Responds \<lparr>hr_StatusCode = 200, hr_Body = [], hr_ReadErr = None\<rparr>)
        (\<lambda>_. Inr \<lparr>rr_Result = ''0x'' @ replicate 64 (CHR ''0''), rr_Error = None\<rparr>) s AllIssuers, 3)) 9
      (NewProvider (Some (NewOnchainSource '''' '''' 0)) None 0 0) = (None, p')
    \<and> Trusted p' IssuerG2 = Some zero_root \<and> IsZero zero_root"
  by (rule zero_root_trusted [where s = "NewOnchainSource '''' '''' 0"]) (simp_all add: NewProvider_def)

text \<open>The call data of an \<open>eth_call\<close> is the 4-byte selector and the 32-byte issuer hash in
  hexadecimal, and two issuers get different calls exactly when their hashes differ.\<close>

theorem eth_call_data:
  assumes "\<forall>b. length (keccak b) = 32"
  shows "length (rpc_Data (eth_call keccak s i)) = 2 + 72
    \<and> (eth_call keccak s IssuerG2 = eth_call keccak s IssuerG3 \<longleftrightarrow>
        keccak (bytes_of_string ''MOICA-G2'') = keccak (bytes_of_string ''MOICA-G3''))"
  using assms by (auto simp: eth_call_def getRootSelector_def IssuerIDHash_eq LongName_def)

theorem eth_call_data_witness:
  "length (rpc_Data (eth_call (\<lambda>b. replicate 32 (if b = bytes_of_string ''MOICA-G2'' then 1 else 0))
      (NewOnchainSource '''' '''' 0) IssuerG3)) = 2 + 72"
  by (rule conjunct1 [OF eth_call_data]) simp

text \<open>Both sources deliver only 32-byte roots, so what they deliver satisfies the validity
  condition of the trust cache.\<close>

theorem sources_deliver_roots:
  "delivers_roots (\<lambda>k s. (github_FetchAll tr um s, l)) \<and>
   delivers_roots (\<lambda>k s. (onchain_FetchAll keccak tr2 um2 s AllIssuers, l))"
proof -
  have "set AllIssuers = set AllIssuers" ..
  note oc = onchain_FetchAll_Inr [OF this, of keccak tr2 um2]
  show ?thesis
    unfolding delivers_roots_def using github_FetchAll_length onchain_fetch_length oc by fastforce
qed

end
