(* ===== verification/Issuer_Cert.thy ===== *)
theory Issuer_Cert
  imports Issuer_Limbs Smt_Sources
begin

text \<open>
  \<open>issuercert/\<close> without the limbs: the validation of an issuer certificate against its pinned
  fingerprint and its parent (\<open>chain.go\<close>), the certificates embedded in the binary (\<open>embed.go\<close>),
  the HTTPS source (\<open>source.go\<close>) and the provider that caches and refreshes them
  (\<open>issuercert.go\<close>, \<open>refresh.go\<close>).  SHA-256, the X.509 parser and the signature check are the
  parameter \<open>crypto\<close>, the embedded files are the parameter \<open>embedded\<close>.  A certificate is what the
  program reads of it.

  \<open>FetchNow\<close> runs one goroutine per source.  A goroutine touches the shared provider only under its
  lock, in \<open>setCert\<close> and \<open>recordAttempt\<close>; \<open>fetchOne\<close> is the list of those atomic steps, and a
  schedule (\<open>picks\<close>) interleaves the lists of all goroutines.
\<close>

subsection \<open>Certificates\<close>

datatype public_key = RSA nat | OtherKey string

record Certificate =
  RawIssuer :: "byte list"
  RawSubject :: "byte list"
  Issuer :: string
  Subject :: string
  IsCA :: bool
  KeyUsage :: int
  NotBefore :: time
  NotAfter :: time
  PublicKey :: public_key

record crypto =
  Sum256 :: "byte list \<Rightarrow> byte list"
  ParseCertificate :: "byte list \<Rightarrow> Certificate result"
  CheckSignatureFrom :: "Certificate \<Rightarrow> Certificate \<Rightarrow> err option"

record embedded =
  embeddedMoicaG2 :: "byte list"
  embeddedMoicaG3 :: "byte list"
  embeddedGrcaG2 :: "byte list"
  embeddedGrcaG3 :: "byte list"

record CertRecord =
  cr_Parsed :: Certificate
  cr_PubKey :: nat
  cr_SHA256 :: "byte list"
  cr_SHA256Hex :: string
  cr_Limbs :: "string list"
  cr_Source :: string
  cr_FetchedAt :: time

definition KeyUsageCertSign :: int where "KeyUsageCertSign = 32"

definition LimbCountFor :: "IssuerID \<Rightarrow> nat" where
  "LimbCountFor i = (if i = IssuerG3 then LimbsRS4096 else LimbsRS2048)"

text \<open>\<open>time.Time.String\<close> of a certificate's time, which is in UTC and has no fraction.\<close>

definition time_text :: "time \<Rightarrow> string" where
  "time_text t = format_datetime t @ '' +0000 UTC''"

subsection \<open>chain.go\<close>

definition validateChain :: "crypto \<Rightarrow> Certificate \<Rightarrow> Certificate \<Rightarrow> time \<Rightarrow> err option" where
  "validateChain cr intermediate root now =
     (case CheckSignatureFrom cr intermediate root of
        Some e \<Rightarrow> Some (Wrapf ''signature from parent: %w'' [] e)
      | None \<Rightarrow>
          if RawIssuer intermediate \<noteq> RawSubject root
          then Some (Errorf ''issuer DN %q does not match parent subject DN %q''
                  [Issuer intermediate, Subject root])
          else if \<not> IsCA root then Some (Errorf ''parent %q is not a CA'' [Subject root])
          else if KeyUsage root \<noteq> 0 \<and> KeyUsage root AND KeyUsageCertSign = 0
          then Some (Errorf ''parent %q KeyUsage=%d lacks CertSign'' [Subject root, Int_String (KeyUsage root)])
          else if Before now (NotBefore intermediate)
          then Some (Errorf ''intermediate not yet valid (notBefore=%s)'' [time_text (NotBefore intermediate)])
          else if After now (NotAfter intermediate)
          then Some (Errorf ''intermediate expired (notAfter=%s)'' [time_text (NotAfter intermediate)])
          else None)"

definition parseAndValidate ::
  "crypto \<Rightarrow> byte list \<Rightarrow> byte list \<Rightarrow> Certificate \<Rightarrow> IssuerID \<Rightarrow> string \<Rightarrow> time \<Rightarrow> CertRecord result" where
  "parseAndValidate cr der expectedSHA256 parent i source now =
     (let gotSHA = Sum256 cr der in
      if gotSHA \<noteq> expectedSHA256
      then Inl (Errorf ''sha256 fingerprint mismatch: got %x, want %x''
             [EncodeToString gotSHA, EncodeToString expectedSHA256])
      else case ParseCertificate cr der of
             Inl e \<Rightarrow> Inl (Wrapf ''parse x509: %w'' [] e)
           | Inr cert \<Rightarrow>
          (case validateChain cr cert parent now of
             Some e \<Rightarrow> Inl e
           | None \<Rightarrow>
          (case PublicKey cert of
             OtherKey ty \<Rightarrow> Inl (Errorf ''public key is %T, want *rsa.PublicKey'' [ty])
           | RSA n \<Rightarrow>
               let k = LimbCountFor i;
                   expectedBits = (if i = IssuerG3 then 4096 else 2048)
               in if BitLen n \<noteq> expectedBits
                  then Inl (Errorf ''%s modulus is %d bits, want %d''
                         [LongName i, nat_string 10 (BitLen n), nat_string 10 expectedBits])
                  else case ModulusToLimbs n k of
                         None \<Rightarrow> Inl (External ''panic: math/big: buffer too small to fit value'')
                       | Some limbs \<Rightarrow>
                           Inr \<lparr>cr_Parsed = cert, cr_PubKey = n, cr_SHA256 = gotSHA,
                                cr_SHA256Hex = ''0x'' @ EncodeToString gotSHA, cr_Limbs = limbs,
                                cr_Source = source, cr_FetchedAt = now\<rparr>)))"

subsection \<open>embed.go\<close>

definition pinnedMoicaG2SHA256 :: "byte list" where
  "pinnedMoicaG2SHA256 =
     [0xc4, 0xc4, 0x62, 0xde, 0x46, 0x3f, 0x85, 0x68, 0x04, 0xdc, 0x89, 0x83, 0x38, 0xd2, 0xce, 0xcb,
      0x55, 0xfb, 0xa7, 0x41, 0x55, 0x85, 0x15, 0x99, 0xd8, 0xfb, 0x7d, 0x70, 0x21, 0x8f, 0xd1, 0xbe]"

definition pinnedMoicaG3SHA256 :: "byte list" where
  "pinnedMoicaG3SHA256 =
     [0xed, 0x79, 0x3f, 0xd0, 0xd5, 0x0a, 0x2a, 0x39, 0x80, 0x49, 0xd5, 0x98, 0x98, 0x2c, 0xf0, 0x1e,
      0x75, 0xf8, 0x73, 0xb5, 0x32, 0x06, 0x6c, 0xae, 0xc2, 0x38, 0xf8, 0x00, 0xa0, 0x6c, 0xa9, 0xda]"

definition pinnedGrcaG2SHA256 :: "byte list" where
  "pinnedGrcaG2SHA256 =
     [0x70, 0xb9, 0x22, 0xbf, 0xda, 0x0e, 0x3f, 0x4a, 0x34, 0x2e, 0x4e, 0xe2, 0x2d, 0x57, 0x9a, 0xe5,
      0x98, 0xd0, 0x71, 0xcc, 0x5e, 0xc9, 0xc3, 0x0f, 0x12, 0x36, 0x80, 0x34, 0x03, 0x88, 0xae, 0xa5]"

definition pinnedGrcaG3SHA256 :: "byte list" where
  "pinnedGrcaG3SHA256 =
     [0x57, 0xdf, 0x6f, 0x20, 0xe0, 0x4c, 0x58, 0x8e, 0x85, 0xf3, 0x5b, 0xe8, 0x83, 0x2f, 0x5d, 0x4e,
      0x78, 0x95, 0x83, 0x36, 0xae, 0x3b, 0x18, 0xfb, 0x7c, 0x9b, 0xae, 0x0d, 0xfe, 0xad, 0x40, 0x44]"

definition em_dash :: string where
  "em_dash = map char_of [0xE2 :: nat, 0x80, 0x94]"

definition parseRoot :: "crypto \<Rightarrow> byte list \<Rightarrow> byte list \<Rightarrow> string \<Rightarrow> Certificate result" where
  "parseRoot cr der expected nm =
     (if Sum256 cr der \<noteq> expected
      then Inl (Errorf (''embedded %s fingerprint drift '' @ em_dash @ '' rebuild required'') [nm])
      else case ParseCertificate cr der of
             Inl e \<Rightarrow> Inl (Wrapf ''parse embedded %s: %w'' [nm] e)
           | Inr cert \<Rightarrow> Inr cert)"

definition GRCARootFor :: "crypto \<Rightarrow> embedded \<Rightarrow> IssuerID \<Rightarrow> Certificate result" where
  "GRCARootFor cr emb i =
     (if i = IssuerG2 then parseRoot cr (embeddedGrcaG2 emb) pinnedGrcaG2SHA256 ''GRCA-G2''
      else if i = IssuerG3 then parseRoot cr (embeddedGrcaG3 emb) pinnedGrcaG3SHA256 ''GRCA-G3''
      else Inl (Errorf ''no GRCA parent known for issuer %d'' [Int_String i]))"

definition LoadEmbedded :: "crypto \<Rightarrow> embedded \<Rightarrow> time \<Rightarrow> (IssuerID \<rightharpoonup> CertRecord) result" where
  "LoadEmbedded cr emb now =
     (case parseRoot cr (embeddedGrcaG2 emb) pinnedGrcaG2SHA256 ''GRCA-G2'' of
        Inl e \<Rightarrow> Inl e
      | Inr grcaG2 \<Rightarrow>
     (case parseRoot cr (embeddedGrcaG3 emb) pinnedGrcaG3SHA256 ''GRCA-G3'' of
        Inl e \<Rightarrow> Inl e
      | Inr grcaG3 \<Rightarrow>
     (case parseAndValidate cr (embeddedMoicaG2 emb) pinnedMoicaG2SHA256 grcaG2 IssuerG2 ''embedded'' now of
        Inl e \<Rightarrow> Inl (Wrapf ''load embedded MOICA-G2: %w'' [] e)
      | Inr g2 \<Rightarrow>
     (case parseAndValidate cr (embeddedMoicaG3 emb) pinnedMoicaG3SHA256 grcaG3 IssuerG3 ''embedded'' now of
        Inl e \<Rightarrow> Inl (Wrapf ''load embedded MOICA-G3: %w'' [] e)
      | Inr g3 \<Rightarrow> Inr [IssuerG2 \<mapsto> g2, IssuerG3 \<mapsto> g3]))))"

subsection \<open>source.go\<close>

record httpSource =
  hs_issuer :: IssuerID
  hs_url :: string
  hs_timeout :: duration

definition maxCertBodyBytes :: nat where "maxCertBodyBytes = 64 * 1024"

definition NewHTTPSource :: "IssuerID \<Rightarrow> string \<Rightarrow> duration \<Rightarrow> httpSource" where
  "NewHTTPSource issuer url tmo = \<lparr>hs_issuer = issuer, hs_url = url, hs_timeout = tmo\<rparr>"

definition DefaultG2URL :: string where "DefaultG2URL = ''https://moica.nat.gov.tw/repository/Certs/MOICA2.cer''"
definition DefaultG3URL :: string where "DefaultG3URL = ''https://moica.nat.gov.tw/repository/Certs/MOICA-G3.cer''"

definition DefaultSources :: "string \<Rightarrow> string \<Rightarrow> duration \<Rightarrow> (IssuerID \<rightharpoonup> httpSource)" where
  "DefaultSources g2URL g3URL tmo =
     (let u2 = (if g2URL = '''' then DefaultG2URL else g2URL);
          u3 = (if g3URL = '''' then DefaultG3URL else g3URL)
      in [IssuerG2 \<mapsto> NewHTTPSource IssuerG2 u2 tmo, IssuerG3 \<mapsto> NewHTTPSource IssuerG3 u3 tmo])"

definition httpSource_Name :: "httpSource \<Rightarrow> string" where
  "httpSource_Name s = LongName (hs_issuer s) @ ''@'' @ hs_url s"

definition httpSource_Fetch :: "(http_request \<Rightarrow> http_call) \<Rightarrow> httpSource \<Rightarrow> byte list result" where
  "httpSource_Fetch transport s =
     (case transport \<lparr>rq_URL = hs_url s,
             rq_Headers = [(''Accept'', ''application/pkix-cert, application/octet-stream, */*'')]\<rparr> of
        BuildFails e \<Rightarrow> Inl (Wrapf ''new request: %w'' [] e)
      | DoFails e \<Rightarrow> Inl (Wrapf ''get %s: %w'' [hs_url s] e)
      | Responds resp \<Rightarrow>
          if hr_StatusCode resp \<noteq> 200
          then Inl (Errorf ''%s: HTTP %d'' [hs_url s, nat_string 10 (hr_StatusCode resp)])
          else case read_limited (maxCertBodyBytes + 1) resp of
                 Inl e \<Rightarrow> Inl (Wrapf ''read body: %w'' [] e)
               | Inr body \<Rightarrow>
                   if maxCertBodyBytes < length body
                   then Inl (Errorf ''body exceeds %d bytes'' [nat_string 10 maxCertBodyBytes])
                   else if length body = 0 then Inl (Errorf ''empty body'' [])
                   else Inr (bytes_of_string body))"

end
