(* ===== verification/Issuer_Provider.thy ===== *)
theory Issuer_Provider
  imports Issuer_Cert
begin

text \<open>
  \<open>issuercert/issuercert.go\<close> and \<open>issuercert/refresh.go\<close>: the provider of trusted issuer
  certificates, its refresh by concurrent goroutines, and the properties of certificate trust:
  whatever the sources deliver and however the goroutines interleave, every cached certificate has
  the pinned fingerprint and a validated chain, and none is ever lost.
\<close>

subsection \<open>The provider\<close>

record CertProvider =
  cp_sources :: "IssuerID \<rightharpoonup> httpSource"
  cp_refresh :: duration
  cp_timeout :: duration
  cp_certs :: "IssuerID \<rightharpoonup> CertRecord"
  cp_updatedAt :: time
  cp_lastAttemptAt :: time
  cp_lastError :: "err option"
  cp_consecutiveFail :: nat
  cp_attempts :: "string \<rightharpoonup> AttemptStat"

text \<open>\<open>now1\<close> is the clock for loading the embedded certificates, \<open>now2\<close> for the time stamp.\<close>

definition NewProvider_cert ::
  "crypto \<Rightarrow> embedded \<Rightarrow> time \<Rightarrow> time \<Rightarrow> (IssuerID \<rightharpoonup> httpSource) \<Rightarrow> duration \<Rightarrow> duration
    \<Rightarrow> CertProvider result" where
  "NewProvider_cert cr emb now1 now2 Sources RefreshInterval FetchTimeout =
     (case LoadEmbedded cr emb now1 of
        Inl e \<Rightarrow> Inl (Wrapf ''load embedded certs: %w'' [] e)
      | Inr records \<Rightarrow>
          Inr \<lparr>cp_sources = Sources,
               cp_refresh = (if RefreshInterval \<le> 0 then 24 * 3600 * Second else RefreshInterval),
               cp_timeout = (if FetchTimeout \<le> 0 then 10 * Second else FetchTimeout),
               cp_certs = records, cp_updatedAt = now2, cp_lastAttemptAt = 0, cp_lastError = None,
               cp_consecutiveFail = 0, cp_attempts = Map.empty\<rparr>)"

definition NewStaticProvider_cert :: "time \<Rightarrow> (IssuerID \<rightharpoonup> CertRecord) \<Rightarrow> CertProvider" where
  "NewStaticProvider_cert now records =
     \<lparr>cp_sources = Map.empty, cp_refresh = 0, cp_timeout = 0, cp_certs = records, cp_updatedAt = now,
      cp_lastAttemptAt = 0, cp_lastError = None, cp_consecutiveFail = 0, cp_attempts = Map.empty\<rparr>"

definition Trusted_cert :: "CertProvider \<Rightarrow> IssuerID \<Rightarrow> CertRecord option" where
  "Trusted_cert p issuer = cp_certs p issuer"

record CertMeta =
  cm_UpdatedAt :: time
  cm_CacheAgeSeconds :: int

definition Meta_cert :: "time \<Rightarrow> CertProvider \<Rightarrow> CertMeta" where
  "Meta_cert now p =
     \<lparr>cm_UpdatedAt = cp_updatedAt p, cm_CacheAgeSeconds = cache_age now (cp_updatedAt p)\<rparr>"

definition TrustedWithMeta ::
  "time \<Rightarrow> CertProvider \<Rightarrow> IssuerID \<Rightarrow> CertRecord option \<times> CertMeta" where
  "TrustedWithMeta now p issuer =
     (cp_certs p issuer,
      \<lparr>cm_UpdatedAt = cp_updatedAt p, cm_CacheAgeSeconds = cache_age now (cp_updatedAt p)\<rparr>)"

record CertStatus =
  cs_Issuer :: string
  cs_SHA256 :: string
  cs_Subject :: string
  cs_NotBefore :: time
  cs_NotAfter :: time
  cs_Source :: string
  cs_FetchedAt :: time
  cs_ModulusBits :: nat

record CertsStatus =
  css_Certs :: "string \<rightharpoonup> CertStatus"
  css_UpdatedAt :: time
  css_LastAttemptAt :: time
  css_LastError :: "err option"
  css_ConsecutiveFail :: nat
  css_CacheAgeSeconds :: int
  css_Attempts :: "string \<rightharpoonup> AttemptStat"

definition cert_status :: "IssuerID \<Rightarrow> CertRecord \<Rightarrow> CertStatus" where
  "cert_status i rec =
     \<lparr>cs_Issuer = LongName i, cs_SHA256 = cr_SHA256Hex rec, cs_Subject = Subject (cr_Parsed rec),
      cs_NotBefore = NotBefore (cr_Parsed rec), cs_NotAfter = NotAfter (cr_Parsed rec),
      cs_Source = cr_Source rec, cs_FetchedAt = cr_FetchedAt rec,
      cs_ModulusBits = BitLen (cr_PubKey rec)\<rparr>"

definition Status_cert :: "time \<Rightarrow> CertProvider \<Rightarrow> CertsStatus" where
  "Status_cert now p =
     \<lparr>css_Certs = (\<lambda>nm. case List.find (\<lambda>i. ShortName i = nm) AllIssuers of
                         None \<Rightarrow> None | Some i \<Rightarrow> map_option (cert_status i) (cp_certs p i)),
      css_UpdatedAt = cp_updatedAt p, css_LastAttemptAt = cp_lastAttemptAt p,
      css_LastError = cp_lastError p, css_ConsecutiveFail = cp_consecutiveFail p,
      css_CacheAgeSeconds = cache_age now (cp_updatedAt p), css_Attempts = cp_attempts p\<rparr>"

definition setCert :: "time \<Rightarrow> IssuerID \<Rightarrow> CertRecord \<Rightarrow> CertProvider \<Rightarrow> CertProvider" where
  "setCert now i rec p = p\<lparr>cp_certs := (cp_certs p)(i \<mapsto> rec), cp_updatedAt := now\<rparr>"

definition recordAttempt_cert ::
  "time \<Rightarrow> string \<Rightarrow> duration \<Rightarrow> err option \<Rightarrow> CertProvider \<Rightarrow> CertProvider" where
  "recordAttempt_cert now source latency err p =
     (let stat = (case cp_attempts p source of
                    None \<Rightarrow> \<lparr>st_Count = 0, st_LastLatencyMs = 0, st_LastErr = None\<rparr>
                  | Some st \<Rightarrow> st);
          p1 = p\<lparr>cp_lastAttemptAt := now,
                 cp_attempts := (cp_attempts p)(source \<mapsto>
                   \<lparr>st_Count = Suc (st_Count stat), st_LastLatencyMs = Milliseconds latency,
                    st_LastErr = err\<rparr>)\<rparr>
      in case err of
           Some e \<Rightarrow> p1\<lparr>cp_lastError := Some e, cp_consecutiveFail := Suc (cp_consecutiveFail p1)\<rparr>
         | None \<Rightarrow> p1\<lparr>cp_lastError := None, cp_consecutiveFail := 0\<rparr>)"

subsection \<open>Refreshing\<close>

text \<open>
  What the environment gives one goroutine: the outcome of \<open>src.Fetch\<close>, its latency, and the clock
  at its three readings.
\<close>

record cert_fetch =
  cf_der :: "byte list result"
  cf_latency :: duration
  cf_validate :: time
  cf_set :: time
  cf_record :: time

datatype cert_action =
    SetCert time IssuerID CertRecord
  | RecordAttempt time string duration "err option"

fun apply_action :: "cert_action \<Rightarrow> CertProvider \<Rightarrow> CertProvider" where
  "apply_action (SetCert now i rec) p = setCert now i rec p"
| "apply_action (RecordAttempt now source latency err) p = recordAttempt_cert now source latency err p"

definition fetchOne ::
  "crypto \<Rightarrow> embedded \<Rightarrow> cert_fetch \<Rightarrow> IssuerID \<Rightarrow> httpSource \<Rightarrow> err option \<times> cert_action list" where
  "fetchOne cr emb f i src =
     (let fail = (\<lambda>e. (Some e, [RecordAttempt (cf_record f) (httpSource_Name src) (cf_latency f) (Some e)])) in
      case cf_der f of
        Inl e \<Rightarrow> fail e
      | Inr der \<Rightarrow>
          if i \<noteq> IssuerG2 \<and> i \<noteq> IssuerG3
          then fail (Errorf ''no pinned fingerprint for issuer %d'' [Int_String i])
          else
            let expected = (if i = IssuerG2 then pinnedMoicaG2SHA256 else pinnedMoicaG3SHA256)
            in (case GRCARootFor cr emb i of
                  Inl e \<Rightarrow> fail e
                | Inr parent \<Rightarrow>
               (case parseAndValidate cr der expected parent i ''https'' (cf_validate f) of
                  Inl e \<Rightarrow> fail e
                | Inr rec \<Rightarrow>
                    (None, [SetCert (cf_set f) i rec,
                            RecordAttempt (cf_record f) (httpSource_Name src) (cf_latency f) None]))))"

text \<open>
  The scheduler: each pick runs the next step of that goroutine, and what is left when the picks run
  out is run goroutine by goroutine.
\<close>

fun interleave :: "nat list \<Rightarrow> 'a list list \<Rightarrow> 'a list" where
  "interleave [] ths = concat ths"
| "interleave (k # ks) ths =
     (if k < length ths \<and> ths ! k \<noteq> []
      then hd (ths ! k) # interleave ks (ths[k := tl (ths ! k)])
      else interleave ks ths)"

text \<open>
  \<open>ids\<close> lists the issuers that have a source, in the order in which their goroutines finish.
\<close>

definition FetchNow_cert ::
  "crypto \<Rightarrow> embedded \<Rightarrow> (IssuerID \<Rightarrow> cert_fetch) \<Rightarrow> IssuerID list \<Rightarrow> nat list
    \<Rightarrow> CertProvider \<Rightarrow> err option \<times> CertProvider" where
  "FetchNow_cert cr emb f ids picks p =
     (if ids = [] then (Some (Sentinel ErrNoSources), p)
      else
        let runs = List.map_filter (\<lambda>i. map_option (\<lambda>src. (src, fetchOne cr emb (f i) i src)) (cp_sources p i)) ids;
            errs = List.map_filter (\<lambda>(src, e, as). map_option (\<lambda>er. Wrapf ''%s: %w'' [httpSource_Name src] er) e) runs
        in (if 0 < length errs then Some (Joined errs) else None,
            fold apply_action (interleave picks (map (\<lambda>(src, e, as). as) runs)) p))"

text \<open>The background goroutine and \<open>Stop\<close> repeat those of the SMT provider.\<close>

fun loop_cert :: "('e \<Rightarrow> CertProvider \<Rightarrow> CertProvider) \<Rightarrow> 'e loop_event list \<Rightarrow> CertProvider \<Rightarrow> CertProvider" where
  "loop_cert fetch [] p = p"
| "loop_cert fetch (CtxDone # evs) p = p"
| "loop_cert fetch (StopCh # evs) p = p"
| "loop_cert fetch (Tick e # evs) p = loop_cert fetch evs (fetch e p)"

lemma loop_cert_eq: "loop_cert fetch evs p = loop fetch evs p"
  by (induction fetch evs p rule: loop_cert.induct) simp_all

definition Stop_cert :: "stopper \<Rightarrow> stopper option" where
  "Stop_cert s = once_Do close_chan s"

definition Start_cert ::
  "('e \<Rightarrow> CertProvider \<Rightarrow> CertProvider) \<Rightarrow> 'e loop_event list \<Rightarrow> CertProvider \<Rightarrow> CertProvider" where
  "Start_cert fetch evs p = (if cp_refresh p \<le> 0 then p else loop_cert fetch evs p)"

subsection \<open>Valid certificates\<close>

definition pinnedMoica :: "IssuerID \<Rightarrow> byte list" where
  "pinnedMoica i = (if i = IssuerG2 then pinnedMoicaG2SHA256 else pinnedMoicaG3SHA256)"

definition chain_ok :: "crypto \<Rightarrow> Certificate \<Rightarrow> Certificate \<Rightarrow> time \<Rightarrow> bool" where
  "chain_ok cr cert parent now \<longleftrightarrow>
     CheckSignatureFrom cr cert parent = None \<and> RawIssuer cert = RawSubject parent \<and> IsCA parent
     \<and> (KeyUsage parent = 0 \<or> KeyUsage parent AND 32 \<noteq> 0)
     \<and> NotBefore cert \<le> now \<and> now \<le> NotAfter cert"

lemma validateChain_None: "validateChain cr cert parent now = None \<longleftrightarrow> chain_ok cr cert parent now"
  by (auto simp: validateChain_def chain_ok_def KeyUsageCertSign_def Before_def After_def
      split: option.splits if_splits)

definition valid_cert :: "crypto \<Rightarrow> Certificate \<Rightarrow> IssuerID \<Rightarrow> byte list \<Rightarrow> CertRecord \<Rightarrow> bool" where
  "valid_cert cr parent i sha rec \<longleftrightarrow>
     (\<exists>der. Sum256 cr der = sha \<and> ParseCertificate cr der = Inr (cr_Parsed rec))
     \<and> chain_ok cr (cr_Parsed rec) parent (cr_FetchedAt rec)
     \<and> PublicKey (cr_Parsed rec) = RSA (cr_PubKey rec)
     \<and> BitLen (cr_PubKey rec) = (if i = IssuerG3 then 4096 else 2048)
     \<and> ModulusToLimbs (cr_PubKey rec) (LimbCountFor i) = Some (cr_Limbs rec)
     \<and> cr_SHA256 rec = sha \<and> cr_SHA256Hex rec = Hex sha"

lemma parseAndValidate_Inr:
  assumes "parseAndValidate cr der sha parent i source now = Inr rec"
  shows "valid_cert cr parent i sha rec \<and> cr_Source rec = source \<and> cr_FetchedAt rec = now
    \<and> Sum256 cr der = sha \<and> ParseCertificate cr der = Inr (cr_Parsed rec)"
  using assms
  by (auto simp: parseAndValidate_def valid_cert_def Let_def validateChain_None [symmetric] Hex_def
      split: if_splits sum.splits option.splits public_key.splits)

lemma parseAndValidate_accepts:
  assumes "Sum256 cr der = sha" "ParseCertificate cr der = Inr cert" "chain_ok cr cert parent now"
    "PublicKey cert = RSA n" "BitLen n = (if i = IssuerG3 then 4096 else 2048)"
  shows "\<exists>rec. parseAndValidate cr der sha parent i source now = Inr rec \<and> cr_PubKey rec = n"
proof -
  have "validateChain cr cert parent now = None" using assms(3) by (simp add: validateChain_None)
  with assms show ?thesis by (simp add: parseAndValidate_def Let_def ModulusToLimbs_eq)
qed

text \<open>A record the binary may trust for an issuer: the pinned fingerprint, and a chain to the
  embedded parent.\<close>

definition trusted_cert :: "crypto \<Rightarrow> embedded \<Rightarrow> IssuerID \<Rightarrow> CertRecord \<Rightarrow> bool" where
  "trusted_cert cr emb i rec \<longleftrightarrow>
     i \<in> set AllIssuers
     \<and> (\<exists>parent. GRCARootFor cr emb i = Inr parent \<and> valid_cert cr parent i (pinnedMoica i) rec)"

lemma LoadEmbedded_Inr:
  assumes "LoadEmbedded cr emb now = Inr cs"
  shows "dom cs = set AllIssuers \<and> (\<forall>i rec. cs i = Some rec \<longrightarrow> trusted_cert cr emb i rec)"
  using assms
  by (auto simp: LoadEmbedded_def trusted_cert_def GRCARootFor_def pinnedMoica_def dom_def
      dest: parseAndValidate_Inr split: sum.splits if_splits)

lemma fetchOne_SetCert:
  "SetCert t j rec \<in> set (snd (fetchOne cr emb f i src)) \<Longrightarrow> j = i \<and> trusted_cert cr emb i rec"
  by (auto simp: fetchOne_def Let_def trusted_cert_def pinnedMoica_def
      dest: parseAndValidate_Inr split: sum.splits if_splits)

lemma sum_list_mset_update:
  "k < length ths \<Longrightarrow>
     sum_list (map mset (ths[k := u])) + mset (ths ! k) = sum_list (map mset ths) + mset u"
proof (induction ths arbitrary: k)
  case (Cons t ths)
  then show ?case by (cases k) (simp_all add: ac_simps)
qed simp

text \<open>A schedule runs every step of every goroutine exactly once.\<close>

lemma mset_interleave: "mset (interleave ks ths) = sum_list (map mset ths)"
proof (induction ks ths rule: interleave.induct)
  case (1 ths)
  show ?case by (induction ths) simp_all
next
  case (2 k ks ths)
  show ?case
  proof (cases "k < length ths \<and> ths ! k \<noteq> []")
    case True
    then obtain x xs where x: "ths ! k = x # xs" by (cases "ths ! k") auto
    have "sum_list (map mset (ths[k := xs])) + mset (x # xs) = sum_list (map mset ths) + mset xs"
      using sum_list_mset_update [of k ths xs] True x by simp
    then have "add_mset x (sum_list (map mset (ths[k := xs]))) = sum_list (map mset ths)"
      by simp
    with True x 2(1) show ?thesis by simp
  next
    case False
    with 2(2) show ?thesis by auto
  qed
qed

lemma set_interleave: "set (interleave ks ths) = \<Union> (set ` set ths)"
proof -
  have "set_mset (sum_list (map mset ths)) = \<Union> (set ` set ths)" by (induction ths) auto
  then show ?thesis using mset_interleave [of ks ths] by (metis set_mset_mset)
qed

lemma recordAttempt_cert_certs [simp]: "cp_certs (recordAttempt_cert now s l e p) = cp_certs p"
  by (simp add: recordAttempt_cert_def Let_def split: option.split)

lemma setCert_certs [simp]: "cp_certs (setCert now i rec p) = (cp_certs p)(i \<mapsto> rec)"
  by (simp add: setCert_def)

lemma apply_action_get:
  "cp_certs (apply_action a p) i = Some v \<Longrightarrow> cp_certs p i = Some v \<or> (\<exists>t. a = SetCert t i v)"
  by (cases a) (auto split: if_splits)

lemma fold_get:
  "cp_certs (fold apply_action as p) i = Some v \<Longrightarrow>
     cp_certs p i = Some v \<or> (\<exists>t. SetCert t i v \<in> set as)"
proof (induction as arbitrary: p)
  case (Cons a as)
  from Cons.IH [of "apply_action a p"] Cons.prems apply_action_get [of a p i v] show ?case by auto
qed simp

lemma fold_keeps: "cp_certs p i \<noteq> None \<Longrightarrow> cp_certs (fold apply_action as p) i \<noteq> None"
proof (induction as arbitrary: p)
  case (Cons a as)
  have "cp_certs (apply_action a p) i \<noteq> None" using Cons.prems by (cases a) auto
  from Cons.IH [OF this] show ?case by simp
qed simp

lemma map_filter_set: "y \<in> set (List.map_filter f xs) \<longleftrightarrow> (\<exists>x \<in> set xs. f x = Some y)"
  by (induction xs) (auto simp: map_filter_simps split: option.splits)

definition cert_step ::
  "crypto \<Rightarrow> embedded \<Rightarrow> (IssuerID \<Rightarrow> cert_fetch) \<times> IssuerID list \<times> nat list \<Rightarrow> CertProvider \<Rightarrow> CertProvider" where
  "cert_step cr emb e p = (case e of (f, ids, picks) \<Rightarrow> snd (FetchNow_cert cr emb f ids picks p))"

lemma FetchNow_cert_sets:
  assumes "cp_certs (snd (FetchNow_cert cr emb f ids picks p)) i = Some v"
  shows "cp_certs p i = Some v \<or> (\<exists>t j src. SetCert t i v \<in> set (snd (fetchOne cr emb (f j) j src)))"
proof (cases "ids = []")
  case False
  with assms have "cp_certs p i = Some v \<or> (\<exists>t. SetCert t i v \<in> set (interleave picks (map (\<lambda>(src, e, as). as)
      (List.map_filter (\<lambda>i. map_option (\<lambda>src. (src, fetchOne cr emb (f i) i src)) (cp_sources p i)) ids))))"
    by (intro fold_get) (simp add: FetchNow_cert_def Let_def)
  then show ?thesis
  proof
    assume "\<exists>t. SetCert t i v \<in> set (interleave picks (map (\<lambda>(src, e, as). as)
      (List.map_filter (\<lambda>i. map_option (\<lambda>src. (src, fetchOne cr emb (f i) i src)) (cp_sources p i)) ids)))"
    then show ?thesis by (auto simp: set_interleave map_filter_set) (metis snd_conv)
  qed simp
qed (use assms in \<open>simp add: FetchNow_cert_def\<close>)

lemma FetchNow_cert_get:
  "cp_certs (snd (FetchNow_cert cr emb f ids picks p)) i = Some v \<Longrightarrow> cp_certs p i = Some v \<or> trusted_cert cr emb i v"
  using FetchNow_cert_sets [of cr emb f ids picks p i v] fetchOne_SetCert by blast

interpretation cert_cache: trust_cache Trusted_cert "cert_step cr emb" "\<lambda>e. True" "trusted_cert cr emb"
proof
  fix e p i v
  assume "Trusted_cert (cert_step cr emb e p) i = Some v"
  then show "Trusted_cert p i = Some v \<or> trusted_cert cr emb i v"
    using FetchNow_cert_get by (cases e) (auto simp: cert_step_def Trusted_cert_def)
next
  fix e p i
  assume "Trusted_cert p i \<noteq> None"
  then show "Trusted_cert (cert_step cr emb e p) i \<noteq> None"
    using fold_keeps by (cases e) (simp add: cert_step_def Trusted_cert_def FetchNow_cert_def Let_def del: not_None_eq)
qed

lemma new_provider_trusted:
  assumes "NewProvider_cert cr emb now1 now2 srcs ri ft = Inr p"
  shows "(\<forall>i \<in> set AllIssuers. \<exists>rec. Trusted_cert p i = Some rec)
    \<and> (\<forall>i rec. Trusted_cert p i = Some rec \<longrightarrow> trusted_cert cr emb i rec)"
proof -
  from assms obtain cs where "LoadEmbedded cr emb now1 = Inr cs" "cp_certs p = cs"
    by (auto simp: NewProvider_cert_def split: sum.splits)
  with LoadEmbedded_Inr [OF this(1)] show ?thesis unfolding Trusted_cert_def by (metis domD)
qed

text \<open>The key of the embedded certificate, and the events in which no source delivers another file with
  its pinned fingerprint.\<close>

definition embedded_der :: "embedded \<Rightarrow> IssuerID \<Rightarrow> byte list" where
  "embedded_der emb i = (if i = IssuerG2 then embeddedMoicaG2 emb else embeddedMoicaG3 emb)"

definition embedded_key :: "crypto \<Rightarrow> embedded \<Rightarrow> IssuerID \<Rightarrow> CertRecord \<Rightarrow> bool" where
  "embedded_key cr emb i rec \<longleftrightarrow>
     ParseCertificate cr (embedded_der emb i) = Inr (cr_Parsed rec) \<and> PublicKey (cr_Parsed rec) = RSA (cr_PubKey rec)
     \<and> ModulusToLimbs (cr_PubKey rec) (LimbCountFor i) = Some (cr_Limbs rec)"

definition no_second_file ::
  "crypto \<Rightarrow> embedded \<Rightarrow> IssuerID \<Rightarrow> (IssuerID \<Rightarrow> cert_fetch) \<times> IssuerID list \<times> nat list \<Rightarrow> bool" where
  "no_second_file cr emb i e \<longleftrightarrow>
     (\<forall>der. cf_der (fst e i) = Inr der \<longrightarrow> Sum256 cr der = pinnedMoica i \<longrightarrow> der = embedded_der emb i)"

lemma fetchOne_file:
  "SetCert t j rec \<in> set (snd (fetchOne cr emb f i src)) \<Longrightarrow>
     j = i \<and> (\<exists>der. cf_der f = Inr der \<and> Sum256 cr der = pinnedMoica i \<and> ParseCertificate cr der = Inr (cr_Parsed rec)
       \<and> PublicKey (cr_Parsed rec) = RSA (cr_PubKey rec)
       \<and> ModulusToLimbs (cr_PubKey rec) (LimbCountFor i) = Some (cr_Limbs rec))"
  by (auto simp: fetchOne_def Let_def pinnedMoica_def valid_cert_def
      dest: parseAndValidate_Inr split: sum.splits if_splits)

lemma embedded_provider_key:
  assumes "NewProvider_cert cr emb now1 now2 srcs ri ft = Inr p" "Trusted_cert p i = Some rec"
  shows "embedded_key cr emb i rec \<and> Sum256 cr (embedded_der emb i) = pinnedMoica i"
proof -
  from assms obtain cs where cs: "LoadEmbedded cr emb now1 = Inr cs" "cs i = Some rec"
    by (auto simp: NewProvider_cert_def Trusted_cert_def split: sum.splits)
  then show ?thesis
    by (auto simp: LoadEmbedded_def embedded_key_def embedded_der_def pinnedMoica_def valid_cert_def
        dest!: parseAndValidate_Inr split: sum.splits if_splits)
qed

interpretation cert_key: trust_cache Trusted_cert "cert_step cr emb" "no_second_file cr emb k"
  "\<lambda>i rec. i = k \<longrightarrow> embedded_key cr emb i rec"
proof
  fix e p i v
  assume n: "no_second_file cr emb k e" and g: "Trusted_cert (cert_step cr emb e p) i = Some v"
  obtain f ids picks where e: "e = (f, ids, picks)" by (cases e)
  from g have "Trusted_cert p i = Some v \<or> (\<exists>t j src. SetCert t i v \<in> set (snd (fetchOne cr emb (f j) j src)))"
    using FetchNow_cert_sets [of cr emb f ids picks p i v] by (simp add: e cert_step_def Trusted_cert_def)
  with n show "Trusted_cert p i = Some v \<or> (i = k \<longrightarrow> embedded_key cr emb i v)"
    by (auto simp: e no_second_file_def embedded_key_def dest!: fetchOne_file)
qed (rule cert_cache.keeps_step)

definition cert_runs ::
  "crypto \<Rightarrow> embedded \<Rightarrow> (IssuerID \<Rightarrow> cert_fetch) \<Rightarrow> IssuerID list \<Rightarrow> CertProvider
    \<Rightarrow> (httpSource \<times> err option \<times> cert_action list) list" where
  "cert_runs cr emb f ids p =
     List.map_filter (\<lambda>i. map_option (\<lambda>src. (src, fetchOne cr emb (f i) i src)) (cp_sources p i)) ids"

lemma set_cert_runs:
  "x \<in> set (cert_runs cr emb f ids p) \<longleftrightarrow>
     (\<exists>i \<in> set ids. \<exists>src. cp_sources p i = Some src \<and> x = (src, fetchOne cr emb (f i) i src))"
  by (auto simp: cert_runs_def map_filter_set)

lemma cert_runs_all_ok:
  "(\<forall>x \<in> set (cert_runs cr emb f ids p). fst (snd x) = None) \<longleftrightarrow>
     (\<forall>i \<in> set ids. \<forall>src. cp_sources p i = Some src \<longrightarrow> fst (fetchOne cr emb (f i) i src) = None)"
proof -
  have "(\<forall>x \<in> set (cert_runs cr emb f ids p). fst (snd x) = None) \<longleftrightarrow>
      (\<forall>x. (\<exists>i \<in> set ids. \<exists>src. cp_sources p i = Some src \<and> x = (src, fetchOne cr emb (f i) i src))
         \<longrightarrow> fst (snd x) = None)"
    unfolding Ball_def set_cert_runs ..
  also have "\<dots> \<longleftrightarrow> (\<forall>i \<in> set ids. \<forall>src. cp_sources p i = Some src \<longrightarrow> fst (fetchOne cr emb (f i) i src) = None)"
    by (metis snd_conv)
  finally show ?thesis .
qed

lemma FetchNow_cert_runs:
  assumes "ids \<noteq> []"
  shows "FetchNow_cert cr emb f ids picks p =
    (let errs = List.map_filter (\<lambda>x. map_option (\<lambda>er. Wrapf ''%s: %w'' [httpSource_Name (fst x)] er) (fst (snd x)))
                  (cert_runs cr emb f ids p)
     in if 0 < length errs then Some (Joined errs) else None,
     fold apply_action (interleave picks (map (snd \<circ> snd) (cert_runs cr emb f ids p))) p)"
  using assms by (simp add: FetchNow_cert_def Let_def cert_runs_def case_prod_unfold comp_def)

lemma fetchOne_unique:
  "SetCert t i v \<in> set (snd (fetchOne cr emb f j src)) \<Longrightarrow> SetCert t' i' v' \<in> set (snd (fetchOne cr emb f j src)) \<Longrightarrow>
     v = v'"
  by (auto simp: fetchOne_def Let_def split: sum.splits if_splits)

lemma interleave_SetCert:
  assumes "SetCert t i v \<in> set (interleave ks (map (snd \<circ> snd) (cert_runs cr emb f ids p)))"
  shows "\<exists>src. cp_sources p i = Some src \<and> SetCert t i v \<in> set (snd (fetchOne cr emb (f i) i src))"
proof -
  from assms obtain x where x: "x \<in> set (cert_runs cr emb f ids p)" "SetCert t i v \<in> set (snd (snd x))"
    by (auto simp: set_interleave)
  from x(1) obtain j src where j: "cp_sources p j = Some src" "x = (src, fetchOne cr emb (f j) j src)"
    by (auto simp: set_cert_runs)
  with x(2) have "SetCert t i v \<in> set (snd (fetchOne cr emb (f j) j src))" by simp
  with fetchOne_SetCert [OF this] j show ?thesis by blast
qed

lemma interleave_SetCert_unique:
  assumes "SetCert t i v \<in> set (interleave ks (map (snd \<circ> snd) (cert_runs cr emb f ids p)))"
    and "SetCert t' i v' \<in> set (interleave ks (map (snd \<circ> snd) (cert_runs cr emb f ids p)))"
  shows "v = v'"
  using interleave_SetCert [OF assms(1)] interleave_SetCert [OF assms(2)] fetchOne_unique by fastforce

subsection \<open>A concrete instance\<close>

lemma BitLen_power: "BitLen (2 ^ k) = Suc k"
proof -
  have b: "2 ^ (BitLen (2 ^ k) - 1) \<le> (2 :: nat) ^ k" "(2 :: nat) ^ k < 2 ^ BitLen (2 ^ k)"
    using BitLen_bounds [of "2 ^ k"] by simp_all
  have "BitLen (2 ^ k) - 1 \<le> k" using b(1) by (simp only: power_increasing_iff)
  moreover have "k < BitLen (2 ^ k)" using b(2) by (simp only: power_strict_increasing_iff)
  ultimately show ?thesis by linarith
qed

definition demo_modulus :: "nat \<Rightarrow> nat" where
  "demo_modulus k = 2 ^ k"

lemma BitLen_demo_modulus [simp]: "BitLen (demo_modulus k) = Suc k"
  by (simp add: demo_modulus_def BitLen_power)

text \<open>A parser that knows four one-byte files, one per embedded certificate.\<close>

definition demo_cert :: "nat \<Rightarrow> Certificate" where
  "demo_cert n = \<lparr>RawIssuer = [1], RawSubject = [1], Issuer = ''CN=GRCA'', Subject = ''CN=GRCA'',
     IsCA = True, KeyUsage = 96, NotBefore = 0, NotAfter = 1000, PublicKey = RSA n\<rparr>"

definition demo_crypto :: crypto where
  "demo_crypto =
     \<lparr>Sum256 = (\<lambda>der. if der = [2] then pinnedMoicaG2SHA256 else if der = [3] then pinnedMoicaG3SHA256
                 else if der = [4] then pinnedGrcaG2SHA256 else if der = [5] then pinnedGrcaG3SHA256 else []),
      ParseCertificate = (\<lambda>der. Inr (demo_cert (if der = [3] then demo_modulus 4095 else demo_modulus 2047))),
      CheckSignatureFrom = (\<lambda>c p. None)\<rparr>"

definition demo_embedded :: embedded where
  "demo_embedded = \<lparr>embeddedMoicaG2 = [2], embeddedMoicaG3 = [3], embeddedGrcaG2 = [4], embeddedGrcaG3 = [5]\<rparr>"

lemma pinned_distinct [simp]:
  "pinnedMoicaG2SHA256 \<noteq> pinnedMoicaG3SHA256" "pinnedMoicaG2SHA256 \<noteq> pinnedGrcaG2SHA256"
  "pinnedMoicaG2SHA256 \<noteq> pinnedGrcaG3SHA256" "pinnedMoicaG3SHA256 \<noteq> pinnedGrcaG2SHA256"
  "pinnedMoicaG3SHA256 \<noteq> pinnedGrcaG3SHA256" "pinnedMoicaG2SHA256 \<noteq> []" "pinnedMoicaG3SHA256 \<noteq> []"
  by (simp_all add: pinnedMoicaG2SHA256_def pinnedMoicaG3SHA256_def pinnedGrcaG2SHA256_def pinnedGrcaG3SHA256_def)

lemma demo_chain: "0 \<le> now \<Longrightarrow> now \<le> 1000 \<Longrightarrow> chain_ok demo_crypto (demo_cert n) (demo_cert m) now"
  by (simp add: chain_ok_def demo_crypto_def demo_cert_def)

lemma demo_simps [simp]:
  "Sum256 demo_crypto [2] = pinnedMoicaG2SHA256" "Sum256 demo_crypto [3] = pinnedMoicaG3SHA256"
  "ParseCertificate demo_crypto [2] = Inr (demo_cert (demo_modulus 2047))"
  "ParseCertificate demo_crypto [3] = Inr (demo_cert (demo_modulus 4095))"
  "parseRoot demo_crypto [4] pinnedGrcaG2SHA256 nm = Inr (demo_cert (demo_modulus 2047))"
  "parseRoot demo_crypto [5] pinnedGrcaG3SHA256 nm = Inr (demo_cert (demo_modulus 2047))"
  "PublicKey (demo_cert n) = RSA n"
  by (simp_all add: demo_crypto_def demo_cert_def parseRoot_def)

lemma demo_loads:
  assumes "0 \<le> now1" "now1 \<le> 1000"
  shows "\<exists>p. NewProvider_cert demo_crypto demo_embedded now1 now2 srcs 0 0 = Inr p"
proof -
  have "\<exists>rec. parseAndValidate demo_crypto [2] pinnedMoicaG2SHA256 (demo_cert (demo_modulus 2047)) IssuerG2 ''embedded'' now1
      = Inr rec \<and> cr_PubKey rec = demo_modulus 2047"
    by (rule parseAndValidate_accepts [where cert = "demo_cert (demo_modulus 2047)"]) (simp_all add: demo_chain assms)
  moreover have "\<exists>rec. parseAndValidate demo_crypto [3] pinnedMoicaG3SHA256 (demo_cert (demo_modulus 2047)) IssuerG3 ''embedded'' now1
      = Inr rec \<and> cr_PubKey rec = demo_modulus 4095"
    by (rule parseAndValidate_accepts [where cert = "demo_cert (demo_modulus 4095)"]) (simp_all add: demo_chain assms)
  ultimately show ?thesis by (auto simp: NewProvider_cert_def LoadEmbedded_def demo_embedded_def)
qed

lemma fold_certs:
  assumes "\<And>t v t' v'. SetCert t i v \<in> set as \<Longrightarrow> SetCert t' i v' \<in> set as \<Longrightarrow> v = v'"
  shows "cp_certs (fold apply_action as p) i =
    (if \<exists>t v. SetCert t i v \<in> set as then Some (THE v. \<exists>t. SetCert t i v \<in> set as) else cp_certs p i)"
proof (cases "\<exists>t v. SetCert t i v \<in> set as")
  case True
  then obtain t v where v: "SetCert t i v \<in> set as" by blast
  have "cp_certs (fold apply_action as p) i = Some v"
    using v assms
  proof (induction as arbitrary: p rule: rev_induct)
    case (snoc a as)
    show ?case
    proof (cases "\<exists>t v. a = SetCert t i v")
      case True
      then obtain t' v' where a: "a = SetCert t' i v'" by blast
      have "v' = v" by (rule snoc.prems(2) [of t' v' t v]) (use a snoc.prems(1) in simp_all)
      with a show ?thesis by simp
    next
      case False
      then have "SetCert t i v \<in> set as" using snoc.prems(1) by auto
      moreover have "\<And>t v t' v'. SetCert t i v \<in> set as \<Longrightarrow> SetCert t' i v' \<in> set as \<Longrightarrow> v = v'"
        by (rule snoc.prems(2)) auto
      ultimately have "cp_certs (fold apply_action as p) i = Some v" by (rule snoc.IH)
      with False show ?thesis by (cases a) auto
    qed
  qed simp
  moreover have "(THE v. \<exists>t. SetCert t i v \<in> set as) = v" using v assms by blast
  ultimately show ?thesis using True by simp
next
  case False
  have "cp_certs (fold apply_action as p) i = cp_certs p i" using False
  proof (induction as arbitrary: p)
    case (Cons a as)
    then show ?case by (cases a) auto
  qed simp
  with False show ?thesis by simp
qed

subsection \<open>What the schedule decides\<close>

text \<open>The attempt that a goroutine records, in the order of the locked steps.\<close>

fun attempt_of :: "cert_action \<Rightarrow> (string \<times> duration \<times> err option) option" where
  "attempt_of (SetCert t i rec) = None"
| "attempt_of (RecordAttempt t nm l e) = Some (nm, l, e)"

definition recorded_attempts :: "cert_action list \<Rightarrow> (string \<times> duration \<times> err option) list" where
  "recorded_attempts as = List.map_filter attempt_of as"

lemma recorded_attempts_simps [simp]:
  "recorded_attempts [] = []" "recorded_attempts (SetCert t i rec # as) = recorded_attempts as"
  "recorded_attempts (RecordAttempt t nm l e # as) = (nm, l, e) # recorded_attempts as"
  by (simp_all add: recorded_attempts_def map_filter_simps)

lemma recorded_attempts_append [simp]: "recorded_attempts (as @ bs) = recorded_attempts as @ recorded_attempts bs"
  by (simp add: recorded_attempts_def map_filter_def)

lemma fetchOne_recorded: "recorded_attempts (snd (fetchOne cr emb f i src)) = [(httpSource_Name src, cf_latency f, fst (fetchOne cr emb f i src))]"
  by (simp add: fetchOne_def Let_def split: sum.split)

lemma mset_recorded:
  assumes "mset as = mset bs"
  shows "mset (recorded_attempts as) = mset (recorded_attempts bs)"
  by (simp only: recorded_attempts_def map_filter_def mset_map mset_filter assms)

lemma mset_recorded_concat: "mset (recorded_attempts (concat ths)) = sum_list (map (\<lambda>th. mset (recorded_attempts th)) ths)"
  by (induction ths) simp_all

text \<open>The attempt that the goroutine of an issuer records.\<close>

definition attempt_by ::
  "crypto \<Rightarrow> embedded \<Rightarrow> (IssuerID \<Rightarrow> cert_fetch) \<Rightarrow> CertProvider \<Rightarrow> IssuerID \<Rightarrow> string \<times> duration \<times> err option" where
  "attempt_by cr emb f p i =
     (let src = the (cp_sources p i) in (httpSource_Name src, cf_latency (f i), fst (fetchOne cr emb (f i) i src)))"

lemma recorded_runs:
  assumes "\<forall>i \<in> set ids. cp_sources p i \<noteq> None"
  shows "mset (recorded_attempts (interleave picks (map (snd \<circ> snd) (cert_runs cr emb f ids p)))) = mset (map (attempt_by cr emb f p) ids)"
proof -
  let ?ths = "map (snd \<circ> snd) (cert_runs cr emb f ids p)"
  have "mset (interleave picks ?ths) = mset (concat ?ths)" by (simp add: mset_interleave mset_concat)
  from mset_recorded [OF this]
  have "mset (recorded_attempts (interleave picks ?ths)) = sum_list (map (\<lambda>th. mset (recorded_attempts th)) ?ths)"
    by (simp only: mset_recorded_concat)
  also have "\<dots> = mset (map (attempt_by cr emb f p) ids)"
    using assms
  proof (induction ids)
    case (Cons i ids)
    then obtain src where src: "cp_sources p i = Some src" by auto
    have "cert_runs cr emb f (i # ids) p = (src, fetchOne cr emb (f i) i src) # cert_runs cr emb f ids p"
      by (simp add: cert_runs_def map_filter_simps src)
    with Cons src show ?case by (simp add: fetchOne_recorded attempt_by_def)
  qed (simp add: cert_runs_def map_filter_simps)
  finally show ?thesis .
qed

lemma attempts_recorded:
  "cp_attempts (fold apply_action as p) nm =
     fold (\<lambda>(nm', l, e) st. Some \<lparr>st_Count = (case st of None \<Rightarrow> 1 | Some s \<Rightarrow> Suc (st_Count s)),
             st_LastLatencyMs = Milliseconds l, st_LastErr = e\<rparr>)
       (filter (\<lambda>(nm', l, e). nm' = nm) (recorded_attempts as)) (cp_attempts p nm)"
proof (induction as arbitrary: p)
  case (Cons a as)
  show ?case
  proof (cases a)
    case (RecordAttempt t nm' l e)
    then show ?thesis
      by (simp add: Cons.IH recordAttempt_cert_def Let_def split: option.split)
  qed (simp add: Cons.IH setCert_def)
qed simp

lemma small_mset_eq: "mset xs = mset ys \<Longrightarrow> length xs \<le> 1 \<Longrightarrow> xs = ys"
  by (cases xs; cases "tl xs") (auto dest: mset_eq_length)

lemma fails_recorded:
  "recorded_attempts as \<noteq> [] \<Longrightarrow> \<forall>x \<in> set (recorded_attempts as). snd (snd x) = None \<Longrightarrow> cp_consecutiveFail (fold apply_action as p) = 0"
  "\<forall>x \<in> set (recorded_attempts as). snd (snd x) \<noteq> None \<Longrightarrow>
     cp_consecutiveFail (fold apply_action as p) = cp_consecutiveFail p + length (recorded_attempts as)"
  "\<exists>x \<in> set (recorded_attempts as). snd (snd x) = None \<Longrightarrow> cp_consecutiveFail (fold apply_action as p) < length (recorded_attempts as)"
  "recorded_attempts as \<noteq> [] \<Longrightarrow> cp_lastError (fold apply_action as p) = snd (snd (last (recorded_attempts as)))"
proof (induction as rule: rev_induct)
  case (snoc a as)
  {
    case 1
    then show ?case using snoc by (cases a; cases "recorded_attempts as") (auto simp: setCert_def recordAttempt_cert_def Let_def split: option.splits)
  next
    case 2
    then show ?case using snoc by (cases a) (auto simp: setCert_def recordAttempt_cert_def Let_def split: option.splits)
  next
    case 3
    then show ?case using snoc by (cases a) (auto simp: setCert_def recordAttempt_cert_def Let_def split: option.splits)
  next
    case 4
    then show ?case using snoc by (cases a) (auto simp: setCert_def recordAttempt_cert_def Let_def split: option.splits)
  }
qed simp_all

lemma FetchNow_cert_state:
  "snd (FetchNow_cert cr emb f ids picks p) =
     fold apply_action (interleave picks (map (snd \<circ> snd) (cert_runs cr emb f ids p))) p"
proof (cases "ids = []")
  case True
  have "interleave picks ([] :: cert_action list list) = []" by (induction picks) simp_all
  with True show ?thesis by (simp add: FetchNow_cert_def cert_runs_def map_filter_simps)
qed (simp add: FetchNow_cert_runs)

lemma cert_runs_set:
  "set ids = set ids' \<Longrightarrow> set (interleave picks (map (snd \<circ> snd) (cert_runs cr emb f ids p)))
     = set (interleave picks' (map (snd \<circ> snd) (cert_runs cr emb f ids' p)))"
proof -
  assume "set ids = set ids'"
  then have "set (cert_runs cr emb f ids p) = set (cert_runs cr emb f ids' p)" by (auto simp: set_cert_runs)
  then show ?thesis by (simp add: set_interleave)
qed

lemma one_per_key: "distinct (map g xs) \<Longrightarrow> length (filter (\<lambda>x. g x = k) xs) \<le> 1"
proof (induction xs)
  case (Cons x xs)
  then show ?case by (cases "g x = k") (auto simp: filter_empty_conv image_iff)
qed simp

text \<open>The sources of a provider have names of their own, as the default ones do.\<close>

definition named_apart :: "CertProvider \<Rightarrow> bool" where
  "named_apart p \<longleftrightarrow> inj_on (\<lambda>i. httpSource_Name (the (cp_sources p i))) (dom (cp_sources p))"

lemma attempts_schedule:
  assumes "named_apart p" "set ids = dom (cp_sources p)" "distinct ids" "set ids' = dom (cp_sources p)" "distinct ids'"
  shows "cp_attempts (snd (FetchNow_cert cr emb f ids picks p)) = cp_attempts (snd (FetchNow_cert cr emb f ids' picks' p))"
proof
  fix nm :: string
  let ?R = "\<lambda>ids picks. recorded_attempts (interleave picks (map (snd \<circ> snd) (cert_runs cr emb f ids p)))"
  let ?P = "\<lambda>(nm', l, e). nm' = nm"
  have src: "\<forall>i \<in> set ids. cp_sources p i \<noteq> None" "\<forall>i \<in> set ids'. cp_sources p i \<noteq> None" using assms(2,4) by auto
  have "mset ids = mset ids'" using assms(2-5) by (simp add: set_eq_iff_mset_eq_distinct [symmetric])
  then have m: "mset (?R ids picks) = mset (?R ids' picks')" by (simp add: recorded_runs src)
  have d: "distinct (map (\<lambda>i. httpSource_Name (the (cp_sources p i))) ids)"
    using assms(1-3) by (simp add: named_apart_def distinct_map)
  have "length (filter ?P (?R ids picks)) = length (filter ?P (map (attempt_by cr emb f p) ids))"
    using arg_cong [where f = "\<lambda>m. size (filter_mset ?P m)", OF recorded_runs [OF src(1), of picks cr emb f]]
    by (simp only: mset_filter [symmetric] size_mset)
  also have "\<dots> = length (filter (\<lambda>i. httpSource_Name (the (cp_sources p i)) = nm) ids)"
    by (simp add: filter_map comp_def attempt_by_def Let_def)
  finally have "length (filter ?P (?R ids picks)) \<le> 1" using one_per_key [OF d, of nm] by simp
  then have "filter ?P (?R ids picks) = filter ?P (?R ids' picks')"
    by (intro small_mset_eq) (simp_all add: m)
  then show "cp_attempts (snd (FetchNow_cert cr emb f ids picks p)) nm = cp_attempts (snd (FetchNow_cert cr emb f ids' picks' p)) nm"
    by (simp add: FetchNow_cert_state attempts_recorded)
qed

lemma certs_schedule:
  assumes "set ids = set ids'"
  shows "cp_certs (snd (FetchNow_cert cr emb f ids picks p)) = cp_certs (snd (FetchNow_cert cr emb f ids' picks' p))"
proof
  fix i
  show "cp_certs (snd (FetchNow_cert cr emb f ids picks p)) i = cp_certs (snd (FetchNow_cert cr emb f ids' picks' p)) i"
    unfolding FetchNow_cert_state
    using fold_certs [of i "interleave picks (map (snd \<circ> snd) (cert_runs cr emb f ids p))" p, OF interleave_SetCert_unique]
      fold_certs [of i "interleave picks' (map (snd \<circ> snd) (cert_runs cr emb f ids' p))" p, OF interleave_SetCert_unique]
    by (simp only: cert_runs_set [OF assms, where picks = picks and picks' = picks'])
qed

text \<open>The success of a refresh, and the count of failures in a row and the last error after it.\<close>

lemma success_schedule:
  assumes "set ids = dom (cp_sources p)"
  shows "fst (FetchNow_cert cr emb f ids picks p) = None \<longleftrightarrow>
    ids \<noteq> [] \<and> (\<forall>i src. cp_sources p i = Some src \<longrightarrow> fst (fetchOne cr emb (f i) i src) = None)"
proof (cases "ids = []")
  case False
  have "fst (FetchNow_cert cr emb f ids picks p) = None \<longleftrightarrow> (\<forall>x \<in> set (cert_runs cr emb f ids p). fst (snd x) = None)"
    unfolding FetchNow_cert_runs [OF False] by (simp add: map_filter_Nil_iff split_beta)
  with False assms show ?thesis unfolding cert_runs_all_ok by auto
qed (simp add: FetchNow_cert_def)

lemma fails_schedule:
  assumes "set ids = dom (cp_sources p)" "ids \<noteq> []" "snd (FetchNow_cert cr emb f ids picks p) = q"
  shows "\<forall>i src. cp_sources p i = Some src \<longrightarrow> fst (fetchOne cr emb (f i) i src) = None \<Longrightarrow> cp_consecutiveFail q = 0"
    and "\<forall>i src. cp_sources p i = Some src \<longrightarrow> fst (fetchOne cr emb (f i) i src) \<noteq> None \<Longrightarrow>
      cp_consecutiveFail q = cp_consecutiveFail p + length ids"
    and "\<exists>i src. cp_sources p i = Some src \<and> fst (fetchOne cr emb (f i) i src) = None \<Longrightarrow> cp_consecutiveFail q < length ids"
    and "\<exists>i src. cp_sources p i = Some src \<and> cp_lastError q = fst (fetchOne cr emb (f i) i src)"
proof -
  let ?L = "interleave picks (map (snd \<circ> snd) (cert_runs cr emb f ids p))"
  have src: "\<forall>i \<in> set ids. cp_sources p i \<noteq> None" using assms(1) by auto
  from recorded_runs [OF src] have m: "mset (recorded_attempts ?L) = mset (map (attempt_by cr emb f p) ids)" .
  have img: "set (recorded_attempts ?L) = attempt_by cr emb f p ` dom (cp_sources p)"
    using arg_cong [where f = set_mset, OF m] assms(1) by simp
  have s: "x \<in> set (recorded_attempts ?L) \<longleftrightarrow>
      (\<exists>i src. cp_sources p i = Some src \<and> x = (httpSource_Name src, cf_latency (f i), fst (fetchOne cr emb (f i) i src)))" for x
  proof -
    have a: "attempt_by cr emb f p i = (httpSource_Name src, cf_latency (f i), fst (fetchOne cr emb (f i) i src))"
      if "cp_sources p i = Some src" for i src using that by (simp add: attempt_by_def Let_def)
    have "x \<in> set (recorded_attempts ?L) \<longleftrightarrow> (\<exists>i src. cp_sources p i = Some src \<and> x = attempt_by cr emb f p i)"
      unfolding img by (simp add: image_iff Bex_def dom_def)
    then show ?thesis by (metis a)
  qed
  have l: "length (recorded_attempts ?L) = length ids" using mset_eq_length [OF m] by simp
  then have ne: "recorded_attempts ?L \<noteq> []" using assms(2) by auto
  have q: "q = fold apply_action ?L p" using assms(3) by (simp add: FetchNow_cert_state)
  show "\<forall>i src. cp_sources p i = Some src \<longrightarrow> fst (fetchOne cr emb (f i) i src) = None \<Longrightarrow> cp_consecutiveFail q = 0"
    unfolding q by (rule fails_recorded(1) [OF ne]) (auto simp: s)
  show "\<forall>i src. cp_sources p i = Some src \<longrightarrow> fst (fetchOne cr emb (f i) i src) \<noteq> None \<Longrightarrow>
      cp_consecutiveFail q = cp_consecutiveFail p + length ids"
    unfolding q l [symmetric] by (rule fails_recorded(2)) (auto simp: s)
  show "\<exists>i src. cp_sources p i = Some src \<and> fst (fetchOne cr emb (f i) i src) = None \<Longrightarrow> cp_consecutiveFail q < length ids"
    unfolding q l [symmetric] by (rule fails_recorded(3)) (unfold Bex_def s, metis snd_conv)
  show "\<exists>i src. cp_sources p i = Some src \<and> cp_lastError q = fst (fetchOne cr emb (f i) i src)"
    using last_in_set [OF ne] unfolding q fails_recorded(4) [OF ne] s by (metis snd_conv)
qed

subsection \<open>Properties\<close>

text \<open>The provider starts from the embedded certificates or not at all: when it is created, both
  issuers have a certificate, each with the pinned SHA-256, signed by the embedded GRCA root whose
  own fingerprint is pinned, within its validity period, with an RSA key of 2048 (G2) or 4096 (G3)
  bits and the limbs of that key.\<close>

theorem new_cert_provider_valid:
  assumes "NewProvider_cert cr emb now1 now2 srcs ri ft = Inr p"
  shows "\<forall>i \<in> {IssuerG2, IssuerG3}. \<exists>rec parent. Trusted_cert p i = Some rec
    \<and> GRCARootFor cr emb i = Inr parent \<and> valid_cert cr parent i (pinnedMoica i) rec"
  using new_provider_trusted [OF assms] unfolding trusted_cert_def set_AllIssuers by metis

theorem new_cert_provider_valid_witness:
  "\<exists>p rec parent. NewProvider_cert demo_crypto demo_embedded 5 6 Map.empty 0 0 = Inr p
    \<and> Trusted_cert p IssuerG3 = Some rec \<and> valid_cert demo_crypto parent IssuerG3 (pinnedMoica IssuerG3) rec"
proof -
  obtain p where p: "NewProvider_cert demo_crypto demo_embedded 5 6 Map.empty 0 0 = Inr p"
    using demo_loads [of 5 6] by auto
  with new_cert_provider_valid [OF p] show ?thesis by blast
qed

text \<open>C20: certificate trust is an invariant of the refresher: whatever the sources deliver, in any
  order of ticks and stops and under every interleaving of the goroutines, every cached certificate
  stays one with the pinned fingerprint and a validated chain, and no issuer loses its
  certificate.\<close>

theorem cert_refresh_keeps_trust:
  assumes "\<forall>i rec. Trusted_cert p i = Some rec \<longrightarrow> trusted_cert cr emb i rec"
  shows "\<forall>i. (\<forall>rec. Trusted_cert (Start_cert (\<lambda>(f, ids, picks) q. snd (FetchNow_cert cr emb f ids picks q)) evs p) i
          = Some rec \<longrightarrow> trusted_cert cr emb i rec)
    \<and> (Trusted_cert p i \<noteq> None \<longrightarrow>
        Trusted_cert (Start_cert (\<lambda>(f, ids, picks) q. snd (FetchNow_cert cr emb f ids picks q)) evs p) i \<noteq> None)"
proof -
  have "(\<lambda>(f, ids, picks) q. snd (FetchNow_cert cr emb f ids picks q)) = cert_step cr emb"
    by (simp add: cert_step_def fun_eq_iff split: prod.split)
  then show ?thesis
    using cert_cache.loop_all_valid [of evs p cr emb] cert_cache.loop_keeps [of p _ cr emb evs] assms
    by (simp add: Start_cert_def loop_cert_eq del: not_None_eq)
qed

theorem cert_refresh_keeps_trust_witness:
  "\<exists>p. NewProvider_cert demo_crypto demo_embedded 5 6 (DefaultSources '''' '''' 10) 0 0 = Inr p
    \<and> Trusted_cert (Start_cert (\<lambda>(f, ids, picks) q. snd (FetchNow_cert demo_crypto demo_embedded f ids picks q))
        [Tick (\<lambda>i. \<lparr>cf_der = Inr [2], cf_latency = 1, cf_validate = 7, cf_set = 8, cf_record = 9\<rparr>,
               AllIssuers, [1, 0, 0])] p) IssuerG2 \<noteq> None"
proof -
  obtain p where p: "NewProvider_cert demo_crypto demo_embedded 5 6 (DefaultSources '''' '''' 10) 0 0 = Inr p"
    using demo_loads [of 5 6] by auto
  from new_provider_trusted [OF p]
  have "\<forall>i rec. Trusted_cert p i = Some rec \<longrightarrow> trusted_cert demo_crypto demo_embedded i rec"
    "Trusted_cert p IssuerG2 \<noteq> None" by auto
  from cert_refresh_keeps_trust [OF this(1)] this(2) p show ?thesis by blast
qed

text \<open>C38: the key the proofs are checked against never changes.  From the creation of the provider on,
  whatever the refreshers do, the trusted modulus of an issuer and its limbs are those of the
  embedded certificate, unless some refresh was delivered a file that differs from the embedded one
  and has the same SHA-256: a change of the key exhibits a second preimage of the fingerprint.\<close>

theorem pinned_modulus_stable:
  assumes "NewProvider_cert cr emb now1 now2 srcs ri ft = Inr p" and "Trusted_cert p i = Some rec"
    and "Trusted_cert (Start_cert (\<lambda>(f, ids, picks) q. snd (FetchNow_cert cr emb f ids picks q)) evs p) i = Some rec'"
  shows "cr_PubKey rec' = cr_PubKey rec \<and> cr_Limbs rec' = cr_Limbs rec
    \<or> (\<exists>f ids picks der. Tick (f, ids, picks) \<in> set evs \<and> cf_der (f i) = Inr der
         \<and> der \<noteq> embedded_der emb i \<and> Sum256 cr der = Sum256 cr (embedded_der emb i))"
proof (rule disjCI)
  assume none: "\<not> (\<exists>f ids picks der. Tick (f, ids, picks) \<in> set evs \<and> cf_der (f i) = Inr der
         \<and> der \<noteq> embedded_der emb i \<and> Sum256 cr der = Sum256 cr (embedded_der emb i))"
  note emb = embedded_provider_key [OF assms(1,2)]
  have legal: "\<forall>e. Tick e \<in> set evs \<longrightarrow> no_second_file cr emb i e"
    using none emb by (auto simp: no_second_file_def)
  have "(\<lambda>(f, ids, picks) q. snd (FetchNow_cert cr emb f ids picks q)) = cert_step cr emb"
    by (simp add: cert_step_def fun_eq_iff split: prod.split)
  with assms(3) have "Trusted_cert p i = Some rec' \<or> Trusted_cert (loop (cert_step cr emb) evs p) i = Some rec'"
    by (auto simp: Start_cert_def loop_cert_eq split: if_splits)
  with cert_key.loop_valid [OF legal, of p i rec'] assms(2) emb have "embedded_key cr emb i rec'" by auto
  with emb show "cr_PubKey rec' = cr_PubKey rec \<and> cr_Limbs rec' = cr_Limbs rec"
    by (auto simp: embedded_key_def)
qed

text \<open>One refresh delivers the certificate of G2 again, a second one a file with another fingerprint.\<close>

theorem pinned_modulus_stable_witness:
  "\<exists>p rec rec'. NewProvider_cert demo_crypto demo_embedded 5 6 (DefaultSources '''' '''' 10) 0 0 = Inr p
    \<and> Trusted_cert p IssuerG2 = Some rec
    \<and> Trusted_cert (Start_cert (\<lambda>(f, ids, picks) q. snd (FetchNow_cert demo_crypto demo_embedded f ids picks q))
        [Tick (\<lambda>i. \<lparr>cf_der = Inr [2], cf_latency = 1, cf_validate = 7, cf_set = 8, cf_record = 9\<rparr>, AllIssuers, [1, 0, 0]),
         Tick (\<lambda>i. \<lparr>cf_der = Inr [9], cf_latency = 1, cf_validate = 7, cf_set = 8, cf_record = 9\<rparr>, AllIssuers, [])] p) IssuerG2
      = Some rec' \<and> cr_PubKey rec' = cr_PubKey rec"
proof -
  let ?evs = "[Tick (\<lambda>i. \<lparr>cf_der = Inr [2], cf_latency = 1, cf_validate = 7, cf_set = 8, cf_record = 9\<rparr>, AllIssuers, [1, 0, 0]),
         Tick (\<lambda>i. \<lparr>cf_der = Inr [9], cf_latency = 1, cf_validate = 7, cf_set = 8, cf_record = 9\<rparr>, AllIssuers, [])]
      :: ((IssuerID \<Rightarrow> cert_fetch) \<times> IssuerID list \<times> nat list) loop_event list"
  let ?step = "\<lambda>(f, ids, picks) q. snd (FetchNow_cert demo_crypto demo_embedded f ids picks q)"
  obtain p where p: "NewProvider_cert demo_crypto demo_embedded 5 6 (DefaultSources '''' '''' 10) 0 0 = Inr p"
    using demo_loads [of 5 6] by auto
  from new_provider_trusted [OF p] obtain rec where rec: "Trusted_cert p IssuerG2 = Some rec" by auto
  have "?step = cert_step demo_crypto demo_embedded" by (simp add: cert_step_def fun_eq_iff split: prod.split)
  then have "Start_cert ?step evs p = (if cp_refresh p \<le> 0 then p else loop (cert_step demo_crypto demo_embedded) evs p)"
    for evs by (simp add: Start_cert_def loop_cert_eq)
  then have "Trusted_cert (Start_cert ?step ?evs p) IssuerG2 \<noteq> None"
    using cert_cache.loop_keeps [of p IssuerG2 demo_crypto demo_embedded ?evs] rec by simp
  then obtain rec' where rec': "Trusted_cert (Start_cert ?step ?evs p) IssuerG2 = Some rec'" by blast
  have "Sum256 demo_crypto [2] \<noteq> Sum256 demo_crypto [9]" by (simp add: demo_crypto_def)
  with pinned_modulus_stable [OF p rec rec'] have "cr_PubKey rec' = cr_PubKey rec"
    by (auto simp: embedded_der_def demo_embedded_def)
  with p rec rec' show ?thesis by blast
qed

text \<open>C31: \<open>parseAndValidate\<close> accepts exactly the file with the expected fingerprint that parses to a
  certificate which the parent signed and names, whose parent may sign certificates, which is valid
  at the given time, and whose key is RSA of the issuer's size; nothing else is accepted.\<close>

theorem parse_and_validate_exact:
  "(\<exists>rec. parseAndValidate cr der sha parent i source now = Inr rec \<and> cr_PubKey rec = n) =
    (\<exists>cert. Sum256 cr der = sha \<and> ParseCertificate cr der = Inr cert
      \<and> CheckSignatureFrom cr cert parent = None \<and> RawIssuer cert = RawSubject parent \<and> IsCA parent
      \<and> \<not> (KeyUsage parent \<noteq> 0 \<and> KeyUsage parent AND 32 = 0)
      \<and> NotBefore cert \<le> now \<and> now \<le> NotAfter cert
      \<and> PublicKey cert = RSA n \<and> BitLen n = (if i = IssuerG3 then 4096 else 2048))"
proof
  assume "\<exists>rec. parseAndValidate cr der sha parent i source now = Inr rec \<and> cr_PubKey rec = n"
  then obtain rec where r: "parseAndValidate cr der sha parent i source now = Inr rec" "cr_PubKey rec = n" by blast
  from parseAndValidate_Inr [OF r(1)] r(2) show "\<exists>cert. Sum256 cr der = sha \<and> ParseCertificate cr der = Inr cert
      \<and> CheckSignatureFrom cr cert parent = None \<and> RawIssuer cert = RawSubject parent \<and> IsCA parent
      \<and> \<not> (KeyUsage parent \<noteq> 0 \<and> KeyUsage parent AND 32 = 0)
      \<and> NotBefore cert \<le> now \<and> now \<le> NotAfter cert
      \<and> PublicKey cert = RSA n \<and> BitLen n = (if i = IssuerG3 then 4096 else 2048)"
    by (auto simp: valid_cert_def chain_ok_def)
next
  assume "\<exists>cert. Sum256 cr der = sha \<and> ParseCertificate cr der = Inr cert
      \<and> CheckSignatureFrom cr cert parent = None \<and> RawIssuer cert = RawSubject parent \<and> IsCA parent
      \<and> \<not> (KeyUsage parent \<noteq> 0 \<and> KeyUsage parent AND 32 = 0)
      \<and> NotBefore cert \<le> now \<and> now \<le> NotAfter cert
      \<and> PublicKey cert = RSA n \<and> BitLen n = (if i = IssuerG3 then 4096 else 2048)"
  then show "\<exists>rec. parseAndValidate cr der sha parent i source now = Inr rec \<and> cr_PubKey rec = n"
    using parseAndValidate_accepts by (auto simp: chain_ok_def)
qed

text \<open>C39: what the schedule of a refresh decides and what it does not.  For any two orders in which the
  goroutines of the sources finish and interleave, the certificates, the attempt statistics of every
  source and the success of the refresh are the same; it succeeds exactly when there is a source and
  every goroutine succeeded.  What \<open>/issuer-cert/status\<close> shows besides may depend on the schedule,
  within these bounds: the last error is the outcome of one of the goroutines; the count of failures
  in a row is 0 when all succeed, grows by their number when all fail, and is less than their number
  when some succeed.  The sources have names of their own.\<close>

theorem cert_refresh_schedule_independent:
  assumes "FetchNow_cert cr emb f ids picks p = (e, q)" and "FetchNow_cert cr emb f ids' picks' p = (e', q')"
    and "set ids = dom (cp_sources p)" and "distinct ids" and "set ids' = dom (cp_sources p)" and "distinct ids'"
    and "named_apart p"
  shows "cp_certs q = cp_certs q' \<and> cp_attempts q = cp_attempts q' \<and> (e = None \<longleftrightarrow> e' = None)
    \<and> (e = None \<longleftrightarrow> ids \<noteq> [] \<and> (\<forall>i src. cp_sources p i = Some src \<longrightarrow> fst (fetchOne cr emb (f i) i src) = None))
    \<and> (e = None \<longrightarrow> cp_lastError q = None \<and> cp_consecutiveFail q = 0)
    \<and> (ids \<noteq> [] \<longrightarrow>
        (\<exists>i src. cp_sources p i = Some src \<and> cp_lastError q = fst (fetchOne cr emb (f i) i src))
        \<and> ((\<forall>i src. cp_sources p i = Some src \<longrightarrow> fst (fetchOne cr emb (f i) i src) \<noteq> None) \<longrightarrow>
            cp_consecutiveFail q = cp_consecutiveFail p + length ids)
        \<and> ((\<exists>i src. cp_sources p i = Some src \<and> fst (fetchOne cr emb (f i) i src) = None) \<longrightarrow>
            cp_consecutiveFail q < length ids))"
proof -
  have q: "snd (FetchNow_cert cr emb f ids picks p) = q" "snd (FetchNow_cert cr emb f ids' picks' p) = q'"
    using assms(1,2) by simp_all
  have ok: "e = None \<longleftrightarrow> ids \<noteq> [] \<and> (\<forall>i src. cp_sources p i = Some src \<longrightarrow> fst (fetchOne cr emb (f i) i src) = None)"
    "e' = None \<longleftrightarrow> ids' \<noteq> [] \<and> (\<forall>i src. cp_sources p i = Some src \<longrightarrow> fst (fetchOne cr emb (f i) i src) = None)"
    using success_schedule [OF assms(3), of cr emb f picks] success_schedule [OF assms(5), of cr emb f picks'] assms(1,2)
    by simp_all
  have same: "cp_certs q = cp_certs q'" "cp_attempts q = cp_attempts q'"
    using certs_schedule [of ids ids' cr emb f picks p picks'] attempts_schedule [OF assms(7,3-6), of cr emb f picks picks'] assms(3,5) q
    by simp_all
  have ne: "ids = [] \<longleftrightarrow> ids' = []" using assms(3,5) by (metis set_empty)
  note fails = fails_schedule [OF assms(3) _ q(1)]
  have good: "cp_lastError q = None \<and> cp_consecutiveFail q = 0" if "e = None"
    using that ok(1) fails(1,4) by metis
  show ?thesis using same ok ne good fails(2-4) by blast
qed

lemma default_sources_named: "cp_sources p = DefaultSources g2URL g3URL tmo \<Longrightarrow> named_apart p"
  by (auto simp: named_apart_def inj_on_def DefaultSources_def Let_def httpSource_Name_def NewHTTPSource_def LongName_def
      split: if_splits)

text \<open>The certificate of G2 comes, that of G3 does not: which one is recorded last decides what the status
  shows as the last error.\<close>

definition half_fetched :: "IssuerID \<Rightarrow> cert_fetch" where
  "half_fetched i = \<lparr>cf_der = (if i = IssuerG2 then Inr [2] else Inl (External ''timeout'')), cf_latency = 1,
     cf_validate = 7, cf_set = 8, cf_record = 9\<rparr>"

lemma half_fetched_outcomes:
  "fst (fetchOne demo_crypto demo_embedded (half_fetched IssuerG2) IssuerG2 src) = None"
  "fst (fetchOne demo_crypto demo_embedded (half_fetched IssuerG3) IssuerG3 src) \<noteq> None"
proof -
  have "\<exists>rec. parseAndValidate demo_crypto [2] pinnedMoicaG2SHA256 (demo_cert (demo_modulus 2047)) IssuerG2 ''https'' 7
      = Inr rec \<and> cr_PubKey rec = demo_modulus 2047"
    by (rule parseAndValidate_accepts [where cert = "demo_cert (demo_modulus 2047)"]) (simp_all add: demo_chain)
  then show "fst (fetchOne demo_crypto demo_embedded (half_fetched IssuerG2) IssuerG2 src) = None"
    by (auto simp: fetchOne_def half_fetched_def GRCARootFor_def demo_embedded_def Let_def)
qed (simp add: fetchOne_def half_fetched_def Let_def)

lemma half_fetched_last:
  assumes "cp_sources p i = Some s" "cp_sources p j = Some t"
  shows "cp_lastError (snd (FetchNow_cert cr emb f [i, j] [] p)) = fst (fetchOne cr emb (f j) j t)"
proof -
  let ?L = "interleave [] (map (snd \<circ> snd) (cert_runs cr emb f [i, j] p))"
  have "recorded_attempts ?L = [(httpSource_Name s, cf_latency (f i), fst (fetchOne cr emb (f i) i s)),
      (httpSource_Name t, cf_latency (f j), fst (fetchOne cr emb (f j) j t))]"
    by (simp add: cert_runs_def map_filter_simps assms fetchOne_recorded)
  then show ?thesis by (simp add: FetchNow_cert_state fails_recorded(4))
qed

theorem cert_refresh_schedule_independent_witness:
  "\<exists>p e q e' q'. NewProvider_cert demo_crypto demo_embedded 5 6 (DefaultSources '''' '''' 10) 0 0 = Inr p
    \<and> FetchNow_cert demo_crypto demo_embedded half_fetched [IssuerG2, IssuerG3] [] p = (e, q)
    \<and> FetchNow_cert demo_crypto demo_embedded half_fetched [IssuerG3, IssuerG2] [] p = (e', q')
    \<and> cp_certs q = cp_certs q' \<and> cp_attempts q = cp_attempts q' \<and> cp_consecutiveFail q < 2
    \<and> cp_lastError q \<noteq> cp_lastError q'"
proof -
  obtain p where p: "NewProvider_cert demo_crypto demo_embedded 5 6 (DefaultSources '''' '''' 10) 0 0 = Inr p"
    using demo_loads [of 5 6] by auto
  then have srcs: "cp_sources p = DefaultSources '''' '''' 10"
    by (auto simp: NewProvider_cert_def split: sum.splits)
  obtain e q e' q' where r: "FetchNow_cert demo_crypto demo_embedded half_fetched [IssuerG2, IssuerG3] [] p = (e, q)"
    "FetchNow_cert demo_crypto demo_embedded half_fetched [IssuerG3, IssuerG2] [] p = (e', q')" by fastforce
  have ids: "set [IssuerG2, IssuerG3] = dom (cp_sources p)" "set [IssuerG3, IssuerG2] = dom (cp_sources p)"
    by (auto simp: srcs DefaultSources_def Let_def)
  have "named_apart p" by (rule default_sources_named [OF srcs])
  note s = cert_refresh_schedule_independent [OF r ids(1) _ ids(2) _ this]
  obtain s2 s3 where src: "cp_sources p IssuerG2 = Some s2" "cp_sources p IssuerG3 = Some s3"
    by (simp add: srcs DefaultSources_def Let_def)
  have "cp_lastError q \<noteq> cp_lastError q'"
    using half_fetched_last [OF src, of demo_crypto demo_embedded half_fetched]
      half_fetched_last [OF src(2,1), of demo_crypto demo_embedded half_fetched] r half_fetched_outcomes by simp
  moreover have "cp_consecutiveFail q < 2" using s src half_fetched_outcomes(1) by auto
  ultimately show ?thesis using s p r by auto
qed

text \<open>The HTTPS source delivers a file exactly when the server answers 200 with a complete body of
  1 to 65536 bytes, and it is that body.\<close>

theorem cert_source_body_bounds:
  "httpSource_Fetch tr s = Inr b \<longleftrightarrow>
    (\<exists>resp. tr \<lparr>rq_URL = hs_url s,
               rq_Headers = [(''Accept'', ''application/pkix-cert, application/octet-stream, */*'')]\<rparr> = Responds resp
      \<and> hr_StatusCode resp = 200 \<and> hr_ReadErr resp = None
      \<and> 0 < length (hr_Body resp) \<and> length (hr_Body resp) \<le> 65536 \<and> b = bytes_of_string (hr_Body resp))"
  by (auto simp: httpSource_Fetch_def read_limited_def maxCertBodyBytes_def
      split: http_call.splits option.splits if_splits)

end
