(* ===== verification/Public_Inputs.thy ===== *)
theory Public_Inputs
  imports Go_Numerals
begin

text \<open>
  \<open>verifier/public_inputs.go\<close>: the layout of the two circuits' public signals, the
  normalisation of field elements to decimal, and the packing of the 31-byte application id
  into one field element.  The lemmas characterise each parser on every branch, show that the
  packing round-trips, and that two field elements unpack to one id only when they are equal.
\<close>

subsection \<open>Public signals\<close>

record PublicSignals =
  CertChain :: "string list"
  UserSig :: "string list"

type_synonym CertChainType = int

definition CertChainRS2048 :: CertChainType where "CertChainRS2048 = 0"
definition CertChainRS4096 :: CertChainType where "CertChainRS4096 = 1"

definition AppIDLen :: nat where "AppIDLen = 31"

record CertChainPublicInputs =
  cc_PkCommit :: string
  cc_IssuerRSAModulus :: "string list"
  cc_SmtRoot :: string

definition ParseCertChainRS2048 :: "string list \<Rightarrow> CertChainPublicInputs result" where
  "ParseCertChainRS2048 signals =
     (if length signals \<noteq> 19
      then Inl (Errorf ''cert_chain RS2048 requires exactly %d public inputs, got %d''
                  [nat_string 10 19, nat_string 10 (length signals)])
      else Inr \<lparr>cc_PkCommit = signals ! 0,
                cc_IssuerRSAModulus = take (18 - 1) (drop 1 signals),
                cc_SmtRoot = signals ! 18\<rparr>)"

definition ParseCertChainRS4096 :: "string list \<Rightarrow> CertChainPublicInputs result" where
  "ParseCertChainRS4096 signals =
     (if length signals \<noteq> 36
      then Inl (Errorf ''cert_chain RS4096 requires exactly %d public inputs, got %d''
                  [nat_string 10 36, nat_string 10 (length signals)])
      else Inr \<lparr>cc_PkCommit = signals ! 0,
                cc_IssuerRSAModulus = take (35 - 1) (drop 1 signals),
                cc_SmtRoot = signals ! 35\<rparr>)"

record UserSigPublicInputs =
  us_PkCommit :: string
  us_Nullifier :: string
  us_AppIDPacked :: string
  us_Challenge :: string

definition ExpectedUserSigSignals :: nat where "ExpectedUserSigSignals = 4"

definition ParseUserSig :: "string list \<Rightarrow> UserSigPublicInputs result" where
  "ParseUserSig signals =
     (if length signals \<noteq> ExpectedUserSigSignals
      then Inl (Errorf ''user_sig requires exactly %d public inputs, got %d''
                  [nat_string 10 ExpectedUserSigSignals, nat_string 10 (length signals)])
      else Inr \<lparr>us_PkCommit = signals ! 0, us_Nullifier = signals ! 1,
                us_AppIDPacked = signals ! 2, us_Challenge = signals ! 3\<rparr>)"

subsection \<open>Field elements\<close>

definition NormalizeDecimal :: "string \<Rightarrow> string result" where
  "NormalizeDecimal s0 =
     (let s = TrimSpace s0 in
      if \<not> HasPrefix s ''0x'' \<and> \<not> HasPrefix s ''0X'' then Inr s
      else case SetString (drop 2 s) 16 of
             None \<Rightarrow> Inl (Errorf ''invalid hex field element %q'' [s])
           | Some n \<Rightarrow> Inr (Int_String n))"

text \<open>The loop of \<open>PackAppIDLE\<close> fills position \<open>i\<close> with byte \<open>30 - i\<close>.\<close>

definition PackAppIDLE :: "byte list \<Rightarrow> string result" where
  "PackAppIDLE b =
     (if length b \<noteq> AppIDLen
      then Inl (Errorf ''app_id must be %d bytes, got %d''
                  [nat_string 10 AppIDLen, nat_string 10 (length b)])
      else let r = map (\<lambda>i. b ! (AppIDLen - 1 - i)) [0..<AppIDLen]
           in Inr (Int_String (int (SetBytes r))))"

definition UnpackAppID :: "string \<Rightarrow> string result" where
  "UnpackAppID packed =
     (let s = TrimSpace packed;
          hexa = HasPrefix s ''0x'' \<or> HasPrefix s ''0X'';
          digits = (if hexa then drop 2 s else s);
          base = (if hexa then 16 else 10)
      in case SetString digits base of
           None \<Rightarrow> Inl (Errorf ''parse packed app_id %q'' [packed])
         | Some n \<Rightarrow>
             if n < 0 then Inl (Errorf ''packed app_id is negative'' [])
             else let raw = Bytes (nat n) in
                  if AppIDLen < length raw
                  then Inl (Errorf ''packed app_id exceeds %d bytes'' [nat_string 10 AppIDLen])
                  else Inr (string_of_bytes
                         (map (\<lambda>i. if i < length raw then raw ! (length raw - 1 - i) else 0)
                            [0..<AppIDLen])))"

subsection \<open>All public inputs\<close>

record ParsedInputs =
  pi_PkCommit :: string
  pi_Nullifier :: string
  pi_AppID :: string
  pi_AppIDPacked :: string
  pi_Challenge :: string
  pi_IssuerRSAModulus :: "string list"
  pi_SmtRoot :: string

definition ParsePublicInputsRS2048 :: "string list \<Rightarrow> string list \<Rightarrow> ParsedInputs result" where
  "ParsePublicInputsRS2048 certChain userSig =
     (case ParseCertChainRS2048 certChain of
        Inl e \<Rightarrow> Inl (Wrapf ''cert_chain: %w'' [] e)
      | Inr cc \<Rightarrow>
     (case ParseUserSig userSig of
        Inl e \<Rightarrow> Inl (Wrapf ''user_sig: %w'' [] e)
      | Inr ds \<Rightarrow>
     (case UnpackAppID (us_AppIDPacked ds) of
        Inl e \<Rightarrow> Inl (Wrapf ''user_sig: %w'' [] e)
      | Inr appID \<Rightarrow>
          Inr \<lparr>pi_PkCommit = cc_PkCommit cc, pi_Nullifier = us_Nullifier ds, pi_AppID = appID,
               pi_AppIDPacked = us_AppIDPacked ds, pi_Challenge = us_Challenge ds,
               pi_IssuerRSAModulus = cc_IssuerRSAModulus cc, pi_SmtRoot = cc_SmtRoot cc\<rparr>)))"

definition ParsePublicInputsRS4096 :: "string list \<Rightarrow> string list \<Rightarrow> ParsedInputs result" where
  "ParsePublicInputsRS4096 certChain userSig =
     (case ParseCertChainRS4096 certChain of
        Inl e \<Rightarrow> Inl (Wrapf ''cert_chain: %w'' [] e)
      | Inr cc \<Rightarrow>
     (case ParseUserSig userSig of
        Inl e \<Rightarrow> Inl (Wrapf ''user_sig: %w'' [] e)
      | Inr ds \<Rightarrow>
     (case UnpackAppID (us_AppIDPacked ds) of
        Inl e \<Rightarrow> Inl (Wrapf ''user_sig: %w'' [] e)
      | Inr appID \<Rightarrow>
          Inr \<lparr>pi_PkCommit = cc_PkCommit cc, pi_Nullifier = us_Nullifier ds, pi_AppID = appID,
               pi_AppIDPacked = us_AppIDPacked ds, pi_Challenge = us_Challenge ds,
               pi_IssuerRSAModulus = cc_IssuerRSAModulus cc, pi_SmtRoot = cc_SmtRoot cc\<rparr>)))"

text \<open>A nil pointer to the signals is \<open>None\<close>.\<close>

definition ParsePublicInputs :: "PublicSignals option \<Rightarrow> CertChainType \<Rightarrow> ParsedInputs result" where
  "ParsePublicInputs signals t =
     (case signals of
        None \<Rightarrow> Inl (Errorf ''nil public signals'' [])
      | Some sg \<Rightarrow>
          if t = CertChainRS4096 then ParsePublicInputsRS4096 (CertChain sg) (UserSig sg)
          else ParsePublicInputsRS2048 (CertChain sg) (UserSig sg))"

subsection \<open>The packed application id\<close>

text \<open>The field element a packed application id denotes.\<close>

definition packed_value :: "string \<Rightarrow> int option" where
  "packed_value packed =
     (let s = TrimSpace packed in
      if HasPrefix s ''0x'' \<or> HasPrefix s ''0X'' then SetString (drop 2 s) 16 else SetString s 10)"

lemma le_fill_rev:
  "length raw \<le> k \<Longrightarrow>
   map (\<lambda>i. if i < length raw then raw ! (length raw - 1 - i) else 0) [0..<k]
     = rev (replicate (k - length raw) 0 @ raw)"
  by (rule nth_equalityI) (auto simp: rev_nth nth_append)

lemma map_nth_rev: "length b = k \<Longrightarrow> map (\<lambda>i. b ! (k - 1 - i)) [0..<k] = rev b"
  by (rule nth_equalityI) (auto simp: rev_nth)

lemma UnpackAppID_eq:
  "UnpackAppID p =
     (case packed_value p of
        None \<Rightarrow> Inl (Errorf ''parse packed app_id %q'' [p])
      | Some n \<Rightarrow>
          if n < 0 then Inl (Errorf ''packed app_id is negative'' [])
          else case FillBytes AppIDLen (nat n) of
                 None \<Rightarrow> Inl (Errorf ''packed app_id exceeds %d bytes'' [nat_string 10 AppIDLen])
               | Some bs \<Rightarrow> Inr (string_of_bytes (rev bs)))"
  by (auto simp: UnpackAppID_def packed_value_def FillBytes_def Let_def le_fill_rev not_le
      split: option.splits)

lemma UnpackAppID_Inr_iff:
  "UnpackAppID p = Inr a \<longleftrightarrow>
     length a = AppIDLen \<and> packed_value p = Some (int (SetBytes (rev (bytes_of_string a))))"
proof
  assume "UnpackAppID p = Inr a"
  then obtain n bs where "packed_value p = Some n" "0 \<le> n" "FillBytes AppIDLen (nat n) = Some bs"
    "a = string_of_bytes (rev bs)"
    by (auto simp: UnpackAppID_eq split: option.splits if_splits)
  with FillBytes_Some [OF this(3)] show
    "length a = AppIDLen \<and> packed_value p = Some (int (SetBytes (rev (bytes_of_string a))))" by simp
next
  assume a: "length a = AppIDLen \<and> packed_value p = Some (int (SetBytes (rev (bytes_of_string a))))"
  have "FillBytes AppIDLen (SetBytes (rev (bytes_of_string a))) = Some (rev (bytes_of_string a))"
    using FillBytes_SetBytes [of "rev (bytes_of_string a)"] a by simp
  with a show "UnpackAppID p = Inr a" by (simp add: UnpackAppID_eq)
qed

lemma PackAppIDLE_eq:
  "length b = AppIDLen \<Longrightarrow> PackAppIDLE b = Inr (Int_String (int (SetBytes (rev b))))"
  using map_nth_rev [of b AppIDLen] by (simp add: PackAppIDLE_def)

lemma PackAppIDLE_Inr_iff:
  "PackAppIDLE b = Inr p \<longleftrightarrow> length b = AppIDLen \<and> p = Int_String (int (SetBytes (rev b)))"
  by (cases "length b = AppIDLen") (auto simp: PackAppIDLE_eq, auto simp: PackAppIDLE_def)

lemma packed_value_Int_String [simp]: "packed_value (Int_String n) = Some n"
  by (simp add: packed_value_def Int_String_no_hex_prefix)

interpretation app_id: codec PackAppIDLE UnpackAppID string_of_bytes
  by unfold_locales (auto simp: PackAppIDLE_Inr_iff UnpackAppID_Inr_iff)

subsection \<open>Normalised field elements\<close>

definition hex_prefixed :: "string \<Rightarrow> bool" where
  "hex_prefixed s \<longleftrightarrow> HasPrefix s ''0x'' \<or> HasPrefix s ''0X''"

lemma NormalizeDecimal_plain:
  "\<not> hex_prefixed (TrimSpace s) \<Longrightarrow> NormalizeDecimal s = Inr (TrimSpace s)"
  by (simp add: NormalizeDecimal_def hex_prefixed_def)

lemma NormalizeDecimal_hex:
  "hex_prefixed (TrimSpace s) \<Longrightarrow>
     NormalizeDecimal s =
       (case packed_value s of
          None \<Rightarrow> Inl (Errorf ''invalid hex field element %q'' [TrimSpace s])
        | Some n \<Rightarrow> Inr (Int_String n))"
  by (auto simp: NormalizeDecimal_def hex_prefixed_def packed_value_def Let_def)

lemma hex_prefixed_Int_String [simp]: "\<not> hex_prefixed (Int_String i)"
  by (simp add: hex_prefixed_def Int_String_no_hex_prefix)

lemma NormalizeDecimal_Int_String [simp]: "NormalizeDecimal (Int_String i) = Inr (Int_String i)"
  by (simp add: NormalizeDecimal_plain)

lemma NormalizeDecimal_again: "NormalizeDecimal s = Inr d \<Longrightarrow> NormalizeDecimal d = Inr d"
  by (cases "hex_prefixed (TrimSpace s)")
    (auto simp: NormalizeDecimal_plain NormalizeDecimal_hex split: option.splits)

subsection \<open>The layout of the parsed inputs\<close>

lemma take_mid: "length xs = Suc (Suc k) \<Longrightarrow> xs ! 0 # take k (drop 1 xs) @ [xs ! Suc k] = xs"
  by (cases xs) (auto simp: take_Suc_conv_app_nth [symmetric])

lemmas cert_chain_defs = ParseCertChainRS2048_def ParseCertChainRS4096_def ParseUserSig_def
  ParsePublicInputsRS2048_def ParsePublicInputsRS4096_def ExpectedUserSigSignals_def

definition limb_count :: "CertChainType \<Rightarrow> nat" where
  "limb_count t = (if t = CertChainRS4096 then 34 else 17)"

lemma ParsePublicInputs_Inr:
  assumes "ParsePublicInputs sg t = Inr p"
  shows "\<exists>s. sg = Some s
    \<and> CertChain s = pi_PkCommit p # pi_IssuerRSAModulus p @ [pi_SmtRoot p]
    \<and> length (pi_IssuerRSAModulus p) = limb_count t
    \<and> (\<exists>pk. UserSig s = [pk, pi_Nullifier p, pi_AppIDPacked p, pi_Challenge p])
    \<and> UnpackAppID (pi_AppIDPacked p) = Inr (pi_AppID p)"
proof -
  from assms obtain s where s: "sg = Some s" by (auto simp: ParsePublicInputs_def split: option.splits)
  have four: "length xs = 4 \<Longrightarrow> \<exists>pk. xs = [pk, xs ! Suc 0, xs ! 2, xs ! 3]" for xs :: "string list"
    by (auto simp: numeral_eq_Suc length_Suc_conv)
  show ?thesis
  proof (cases "t = CertChainRS4096")
    case True
    with assms s have c: "length (CertChain s) = Suc (Suc 34)" "length (UserSig s) = 4"
      by (auto simp: ParsePublicInputs_def cert_chain_defs split: sum.splits if_splits)
    with assms s True show ?thesis using take_mid [OF c(1)] four [OF c(2)]
      by (auto simp: ParsePublicInputs_def cert_chain_defs limb_count_def split: sum.splits if_splits)
  next
    case False
    with assms s have c: "length (CertChain s) = Suc (Suc 17)" "length (UserSig s) = 4"
      by (auto simp: ParsePublicInputs_def cert_chain_defs split: sum.splits if_splits)
    with assms s False show ?thesis using take_mid [OF c(1)] four [OF c(2)]
      by (auto simp: ParsePublicInputs_def cert_chain_defs limb_count_def split: sum.splits if_splits)
  qed
qed

lemma ParsePublicInputs_Inr_iff:
  "ParsePublicInputs sg t = Inr p \<longleftrightarrow>
     (\<exists>pk. sg = Some \<lparr>CertChain = pi_PkCommit p # pi_IssuerRSAModulus p @ [pi_SmtRoot p],
                     UserSig = [pk, pi_Nullifier p, pi_AppIDPacked p, pi_Challenge p]\<rparr>)
     \<and> length (pi_IssuerRSAModulus p) = limb_count t
     \<and> UnpackAppID (pi_AppIDPacked p) = Inr (pi_AppID p)" (is "?l \<longleftrightarrow> ?r")
proof
  assume ?l
  then show ?r by (auto dest!: ParsePublicInputs_Inr intro!: exI PublicSignals.equality)
next
  assume ?r
  then show ?l
    by (cases "t = CertChainRS4096")
      (auto simp: ParsePublicInputs_def cert_chain_defs limb_count_def nth_append CertChainRS4096_def)
qed

subsection \<open>Properties\<close>

text \<open>C23: packing an application id of exactly 31 bytes succeeds and unpacking the packed field
  element gives back the same 31 bytes, leading and trailing zero bytes included.\<close>

theorem pack_unpack_app_id:
  assumes "length b = AppIDLen"
  shows "\<exists>p. PackAppIDLE b = Inr p \<and> UnpackAppID p = Inr (string_of_bytes b)"
  using app_id.dec_enc PackAppIDLE_eq [OF assms] by blast

theorem pack_unpack_app_id_witness:
  "\<exists>p. PackAppIDLE (replicate 31 65) = Inr p \<and> UnpackAppID p = Inr (replicate 31 CHR ''A'')"
  using pack_unpack_app_id [of "replicate 31 65"]
  by (simp add: AppIDLen_def string_of_bytes_def char_of_byte_def char_of_def bit_0)

text \<open>Two packed application ids unpack to the same id exactly when they denote the same field
  element, however they are written (decimal, hexadecimal, padded): comparing the unpacked strings
  is comparing the field elements.\<close>

theorem app_id_equal_iff_field_equal:
  assumes "UnpackAppID p = Inr a" and "UnpackAppID q = Inr b"
  shows "a = b \<longleftrightarrow> packed_value p = packed_value q"
proof
  assume "packed_value p = packed_value q"
  with assms have "rev (bytes_of_string a) = rev (bytes_of_string b)"
    by (intro SetBytes_inj) (simp_all add: UnpackAppID_Inr_iff)
  then show "a = b" by simp
qed (use assms in \<open>simp add: UnpackAppID_Inr_iff\<close>)

lemma SetBytes_Cons: "SetBytes (b # bs) = unat b * 256 ^ length bs + SetBytes bs"
  by (simp add: SetBytes_def nat_of_digits_Cons)

lemma SetBytes_replicate_0 [simp]: "SetBytes (replicate k 0) = 0"
  using SetBytes_zeros [of k "[]"] by simp

lemma unpack_small: "packed_value p = Some (int n) \<Longrightarrow> n < 256 \<Longrightarrow>
  UnpackAppID p = Inr (char_of n # replicate 30 (CHR 0x00))"
  using SetBytes_zeros [of 30 "[of_nat n]"]
  by (simp add: UnpackAppID_Inr_iff AppIDLen_def bytes_of_string_def byte_of_char_def
      unat_of_nat SetBytes_Cons)

theorem app_id_equal_iff_field_equal_witness:
  "UnpackAppID ''0x41'' = UnpackAppID ''65'' \<and> packed_value ''0x41'' = packed_value ''65''"
proof -
  have v: "packed_value ''0x41'' = Some (int 65)" "packed_value ''65'' = Some (int 65)"
    by (simp_all add: packed_value_def num_eval)
  then show ?thesis
    using app_id_equal_iff_field_equal [OF unpack_small [OF v(1)] unpack_small [OF v(2)]]
    by (simp add: unpack_small)
qed

text \<open>\<open>UnpackAppID\<close> accepts a packed value exactly when, after trimming, it is a decimal
  numeral or a 0x-prefixed hexadecimal numeral of a number from 0 to 256 ^ 31 - 1; every other text
  is an error.\<close>

theorem unpack_app_id_domain:
  "(\<exists>a. UnpackAppID p = Inr a) \<longleftrightarrow> (\<exists>n. packed_value p = Some n \<and> 0 \<le> n \<and> n < 256 ^ AppIDLen)"
proof
  assume "\<exists>a. UnpackAppID p = Inr a"
  then obtain a where a: "length a = AppIDLen"
    "packed_value p = Some (int (SetBytes (rev (bytes_of_string a))))"
    by (auto simp: UnpackAppID_Inr_iff)
  have "int (SetBytes (rev (bytes_of_string a))) < 256 ^ AppIDLen"
    using SetBytes_less [of "rev (bytes_of_string a)"] a(1)
    by (metis length_bytes_of_string length_rev of_nat_less_iff of_nat_numeral of_nat_power)
  with a show "\<exists>n. packed_value p = Some n \<and> 0 \<le> n \<and> n < 256 ^ AppIDLen" by simp
next
  assume "\<exists>n. packed_value p = Some n \<and> 0 \<le> n \<and> n < 256 ^ AppIDLen"
  then obtain n where n: "packed_value p = Some n" "0 \<le> n" "n < 256 ^ AppIDLen" by blast
  then have "nat n < 256 ^ AppIDLen" by (simp add: nat_less_iff)
  then obtain bs where "FillBytes AppIDLen (nat n) = Some bs"
    using FillBytes_fits [of AppIDLen "nat n"] by (auto simp: AppIDLen_def)
  with n show "\<exists>a. UnpackAppID p = Inr a" by (simp add: UnpackAppID_eq)
qed

text \<open>Parsing the public inputs succeeds exactly when the cert-chain signals are the pk
  commitment, 17 modulus limbs (34 for RS4096) and the SMT root and nothing else, the user
  signature signals are exactly four, and the packed application id unpacks; each parsed field is
  the signal at its position, so no signal is dropped, duplicated or reordered.\<close>

theorem parse_public_inputs_layout:
  "ParsePublicInputs sg t = Inr p \<longleftrightarrow>
     (\<exists>pk. sg = Some \<lparr>CertChain = pi_PkCommit p # pi_IssuerRSAModulus p @ [pi_SmtRoot p],
                     UserSig = [pk, pi_Nullifier p, pi_AppIDPacked p, pi_Challenge p]\<rparr>)
     \<and> length (pi_IssuerRSAModulus p) = (if t = CertChainRS4096 then 34 else 17)
     \<and> UnpackAppID (pi_AppIDPacked p) = Inr (pi_AppID p)"
  using ParsePublicInputs_Inr_iff [of sg t p] by (simp add: limb_count_def)

text \<open>\<open>NormalizeDecimal\<close> gives a key that normalises to itself; for a 0x-prefixed numeral the
  key is the decimal numeral of its value, and two such numerals get one key exactly when they
  denote the same number.\<close>

theorem normalize_decimal_canonical:
  assumes "NormalizeDecimal s = Inr d" and "NormalizeDecimal t = Inr e"
    and "hex_prefixed (TrimSpace s)" and "hex_prefixed (TrimSpace t)"
  shows "NormalizeDecimal d = Inr d \<and> packed_value d = packed_value s
    \<and> (d = e \<longleftrightarrow> packed_value s = packed_value t)"
  using assms by (auto simp: NormalizeDecimal_hex split: option.splits)

theorem normalize_decimal_canonical_witness:
  "NormalizeDecimal ''255'' = Inr ''255'' \<and> packed_value ''255'' = packed_value ''0xff''
    \<and> (''255'' = ''255'' \<longleftrightarrow> packed_value ''0xff'' = packed_value ''0X00FF'')"
proof -
  have "NormalizeDecimal ''0xff'' = Inr ''255''" "NormalizeDecimal ''0X00FF'' = Inr ''255''"
    "hex_prefixed (TrimSpace ''0xff'')" "hex_prefixed (TrimSpace ''0X00FF'')"
    by (simp_all add: NormalizeDecimal_def hex_prefixed_def num_eval)
  then show ?thesis by (rule normalize_decimal_canonical)
qed

end
