(* ===== verification/Link_Verify.thy ===== *)
theory Link_Verify
  imports Issuer_Provider Public_Inputs Go_Path
begin

text \<open>
  \<open>verifier/verifier.go\<close>, \<open>linkverify/linkverify.go\<close> and \<open>linkverify/verifier.go\<close>: the call of the
  Rust verifier, the staging of a request's proofs in a temporary directory, and the checks of the
  public inputs against the trusted SMT root, the trusted issuer key and the configured
  application id.

  The Rust library is the parameter \<open>ffi\<close>: what a call on a file system returns, with the error and
  the JSON of the signals it leaves in its thread-local state (\<open>unmarshal\<close> decodes the latter).
  The operating system is the parameter \<open>os\<close>: which of its calls fail, and the name it gives the
  temporary directory.  The events the checks log are in \<open>Verify_Log\<close>.
\<close>

subsection \<open>verifier.go\<close>

record ffi_result =
  ffi_ret :: int
  ffi_last_error :: string
  ffi_last_signals :: string

datatype fs_node = Dir | File "byte list" | Link string

type_synonym fs = "string \<rightharpoonup> fs_node"

record ffi =
  zk_link_verify :: "fs \<Rightarrow> string \<Rightarrow> int \<Rightarrow> ffi_result"
  unmarshal_signals :: "string \<Rightarrow> PublicSignals option"

definition lastError :: "ffi_result \<Rightarrow> err" where
  "lastError r =
     (if ffi_last_error r = '''' then Errorf ''unknown error'' [] else External (ffi_last_error r))"

definition lastSignals :: "ffi \<Rightarrow> ffi_result \<Rightarrow> PublicSignals option" where
  "lastSignals ff r = unmarshal_signals ff (ffi_last_signals r)"

definition LinkVerify ::
  "ffi \<Rightarrow> fs \<Rightarrow> string \<Rightarrow> CertChainType \<Rightarrow> (bool \<times> PublicSignals option) result" where
  "LinkVerify ff fs baseDir certChainType =
     (let r = zk_link_verify ff fs baseDir certChainType in
      if 0 < ffi_ret r then Inr (True, lastSignals ff r)
      else if ffi_ret r = 0 then Inr (False, lastSignals ff r)
      else Inl (lastError r))"

subsection \<open>linkverify.go\<close>

type_synonym ProofType = string

definition ProofTypeRS2048 :: ProofType where "ProofTypeRS2048 = ''rs2048''"
definition ProofTypeRS4096 :: ProofType where "ProofTypeRS4096 = ''rs4096''"

definition ParseProofType :: "string \<Rightarrow> ProofType result" where
  "ParseProofType s =
     (if s = '''' \<or> s = ProofTypeRS2048 then Inr ProofTypeRS2048
      else if s = ProofTypeRS4096 then Inr ProofTypeRS4096
      else Inl (Errorf ''invalid cert_chain_type: must be %q or %q'' [ProofTypeRS2048, ProofTypeRS4096]))"

definition StoreKey :: "ProofType \<Rightarrow> string" where
  "StoreKey pt = (if pt = ProofTypeRS4096 then ''link_rs4096'' else ''link_rs2048'')"

record Request =
  rq_CertChainProof :: "byte list"
  rq_UserSigProof :: "byte list"
  rq_ProofType :: ProofType

text \<open>The names of the proofs and of the verifying keys: \<open>ccProof\<close>, \<open>usProof\<close>, \<open>ccVK\<close>, \<open>dsVK\<close>.\<close>

definition proofFileNames :: "ProofType \<Rightarrow> string \<times> string \<times> string \<times> string" where
  "proofFileNames pt =
     (let usProof = ''user_sig_rs2048_proof.bin''; dsVK = ''user_sig_rs2048_verifying.key'' in
      if pt = ProofTypeRS4096
      then (''cert_chain_rs4096_proof.bin'', usProof, ''cert_chain_rs4096_verifying.key'', dsVK)
      else (''cert_chain_rs2048_proof.bin'', usProof, ''cert_chain_rs2048_verifying.key'', dsVK))"

text \<open>
  What the operating system answers for each path.  A write that fails leaves what it wrote, or no
  file; the removal of an entry may fail, also because an entry below it could not be removed.
\<close>

record os =
  os_MkdirTemp :: "string result"
  os_Mkdir :: "string \<Rightarrow> err option"
  os_WriteFile :: "string \<Rightarrow> (err \<times> byte list option) option"
  os_Symlink :: "string \<Rightarrow> err option"
  os_Remove :: "string \<Rightarrow> err option"

text \<open>\<open>filepath.Join\<close> of the temporary directory, whose name is clean, and a file name.\<close>

definition Join :: "string \<Rightarrow> string \<Rightarrow> string" where
  "Join d f = d @ ''/'' @ f"

definition below :: "string \<Rightarrow> string \<Rightarrow> bool" where
  "below d p \<longleftrightarrow> p = d \<or> HasPrefix p (d @ ''/'')"

text \<open>\<open>os.RemoveAll\<close> removes what it can; the deferred call drops its error.\<close>

definition RemoveAll :: "os \<Rightarrow> string \<Rightarrow> fs \<Rightarrow> fs" where
  "RemoveAll osv d fs = (\<lambda>p. if below d p \<and> os_Remove osv p = None then None else fs p)"

definition WriteFile :: "os \<Rightarrow> string \<Rightarrow> byte list \<Rightarrow> fs \<Rightarrow> err option \<times> fs" where
  "WriteFile osv p b fs =
     (case os_WriteFile osv p of
        Some (e, None) \<Rightarrow> (Some e, fs)
      | Some (e, Some written) \<Rightarrow> (Some e, fs(p \<mapsto> File written))
      | None \<Rightarrow> (None, fs(p \<mapsto> File b)))"

fun link_keys :: "os \<Rightarrow> string \<Rightarrow> string \<Rightarrow> string list \<Rightarrow> fs \<Rightarrow> err option \<times> fs" where
  "link_keys osv keysDir tmpKeys [] fs = (None, fs)"
| "link_keys osv keysDir tmpKeys (vk # vks) fs =
     (let src = filepath_Join keysDir vk; dst = Join tmpKeys vk in
      case os_Symlink osv dst of
        Some e \<Rightarrow> (Some (Wrapf ''symlink %s: %w'' [vk] e), fs)
      | None \<Rightarrow> link_keys osv keysDir tmpKeys vks (fs(dst \<mapsto> Link src)))"

text \<open>
  The outcome, and the file system after the deferred \<open>os.RemoveAll\<close>.  The wait for one of the ten
  slots of \<open>verifySem\<close> is the subject of \<open>sem_step\<close> below.
\<close>

definition Verify ::
  "os \<Rightarrow> ffi \<Rightarrow> Request \<Rightarrow> string \<Rightarrow> fs \<Rightarrow> (bool \<times> PublicSignals option) result \<times> fs" where
  "Verify osv ff req keysDir fs0 =
     (let pt = (if rq_ProofType req = '''' then ProofTypeRS2048 else rq_ProofType req) in
      case proofFileNames pt of (ccProofName, usProofName, ccVKName, dsVKName) \<Rightarrow>
      (case os_MkdirTemp osv of
         Inl e \<Rightarrow> (Inl (Wrapf ''create temp dir: %w'' [] e), fs0)
       | Inr tmpDir \<Rightarrow>
           let fs1 = fs0(tmpDir \<mapsto> Dir); tmpKeys = Join tmpDir ''keys'' in
           (case os_Mkdir osv tmpKeys of
              Some e \<Rightarrow> (Inl (Wrapf ''create temp keys dir: %w'' [] e), RemoveAll osv tmpDir fs1)
            | None \<Rightarrow>
           (case WriteFile osv (Join tmpKeys ccProofName) (rq_CertChainProof req) (fs1(tmpKeys \<mapsto> Dir)) of
              (Some e, fs3) \<Rightarrow> (Inl (Wrapf ''write cert-chain proof: %w'' [] e), RemoveAll osv tmpDir fs3)
            | (None, fs3) \<Rightarrow>
           (case WriteFile osv (Join tmpKeys usProofName) (rq_UserSigProof req) fs3 of
              (Some e, fs4) \<Rightarrow> (Inl (Wrapf ''write user-sig proof: %w'' [] e), RemoveAll osv tmpDir fs4)
            | (None, fs4) \<Rightarrow>
           (case link_keys osv keysDir tmpKeys [ccVKName, dsVKName] fs4 of
              (Some e, fs5) \<Rightarrow> (Inl e, RemoveAll osv tmpDir fs5)
            | (None, fs5) \<Rightarrow>
                let certChainType = (if pt = ProofTypeRS4096 then CertChainRS4096 else CertChainRS2048)
                in (LinkVerify ff fs5 tmpDir certChainType, RemoveAll osv tmpDir fs5)))))))"

subsection \<open>The slots\<close>

text \<open>\<open>verifySem\<close>: a send blocks while ten calls hold a slot; the deferred receive frees one.\<close>

definition maxConcurrent :: nat where "maxConcurrent = 10"

record sem_state =
  waiting :: "nat list"
  running :: "nat list"

inductive sem_step :: "sem_state \<Rightarrow> sem_state \<Rightarrow> bool" where
  arrive: "r \<notin> set (waiting s) \<union> set (running s) \<Longrightarrow> sem_step s (s\<lparr>waiting := waiting s @ [r]\<rparr>)"
| acquire: "r \<in> set (waiting s) \<Longrightarrow> length (running s) < maxConcurrent \<Longrightarrow>
     sem_step s (s\<lparr>waiting := remove1 r (waiting s), running := running s @ [r]\<rparr>)"
| release: "r \<in> set (running s) \<Longrightarrow> sem_step s (s\<lparr>running := remove1 r (running s)\<rparr>)"

inductive sem_reachable :: "sem_state \<Rightarrow> bool" where
  sem_start: "sem_reachable \<lparr>waiting = [], running = []\<rparr>"
| sem_next: "sem_reachable s \<Longrightarrow> sem_step s s' \<Longrightarrow> sem_reachable s'"

inductive_cases sem_stepE: "sem_step s s'"

subsection \<open>verifier.go of linkverify\<close>

definition ReasonProofInvalid :: string where "ReasonProofInvalid = ''proof_invalid''"
definition ReasonSmtRootMismatch :: string where "ReasonSmtRootMismatch = ''smt_root_mismatch''"
definition ReasonIssuerModulusMismatch :: string where
  "ReasonIssuerModulusMismatch = ''issuer_modulus_mismatch''"
definition ReasonAppIDMismatch :: string where "ReasonAppIDMismatch = ''app_id_mismatch''"
definition ReasonChallengeMismatch :: string where "ReasonChallengeMismatch = ''challenge_mismatch''"

record SmtRootOutcome =
  sr_Issuer :: IssuerID
  sr_IssuerName :: string
  sr_Match :: bool
  sr_Expected :: string
  sr_Observed :: string
  sr_TrustSource :: string
  sr_TrustedAt :: time

record IssuerModulusOutcome =
  im_Issuer :: IssuerID
  im_IssuerName :: string
  im_Match :: bool
  im_ExpectedSHA256 :: string
  im_TrustSource :: string
  im_TrustedAt :: time

record AppIDOutcome =
  ao_Match :: bool
  ao_Expected :: string
  ao_Observed :: string

record ChallengeOutcome =
  co_Match :: bool
  co_Expected :: string
  co_Observed :: string

record Result =
  r_Verified :: bool
  r_Reason :: string
  r_Signals :: "PublicSignals option"
  r_Parsed :: "ParsedInputs option"
  r_SmtRoot :: "SmtRootOutcome option"
  r_IssuerModulus :: "IssuerModulusOutcome option"
  r_AppID :: "AppIDOutcome option"
  r_Challenge :: "ChallengeOutcome option"

record 's Verifier =
  v_KeysDir :: string
  v_SmtRoot :: "'s Provider option"
  v_IssuerCert :: "CertProvider option"
  v_ExpectedAppID :: string

text \<open>RS2048 goes with G2, RS4096 with G3.\<close>

definition issuerForProofType :: "ProofType \<Rightarrow> IssuerID" where
  "issuerForProofType pt = (if pt = ProofTypeRS4096 then IssuerG3 else IssuerG2)"

definition ConstantTimeCompare :: "string \<Rightarrow> string \<Rightarrow> bool" where
  "ConstantTimeCompare a b \<longleftrightarrow> a = b"

text \<open>
  The provider is locked twice, for the root and for its metadata; \<open>later\<close> is what a refresh may
  have made of it in between.
\<close>

definition checkSmtRoot ::
  "('s Provider \<Rightarrow> 's Provider) \<Rightarrow> time \<Rightarrow> ProofType \<Rightarrow> ParsedInputs \<Rightarrow> 's Provider
    \<Rightarrow> SmtRootOutcome result" where
  "checkSmtRoot later now pt parsed provider =
     (let issuer = issuerForProofType pt in
      case ParseRoot (pi_SmtRoot parsed) of
        Inl e \<Rightarrow> Inl (Wrapf ''parse proof smt_root %q: %w'' [pi_SmtRoot parsed] e)
      | Inr observed \<Rightarrow>
     (case Trusted provider issuer of
        None \<Rightarrow> Inl (Wrapf ''%w: %s'' [LongName issuer] (Sentinel ErrSmtRootUnavailable))
      | Some trusted \<Rightarrow>
          let mt = Provider_Meta now (later provider)
          in Inr \<lparr>sr_Issuer = issuer, sr_IssuerName = ShortName issuer,
                  sr_Match = Root_Equal observed trusted, sr_Expected = Hex trusted,
                  sr_Observed = Hex observed, sr_TrustSource = m_SourceUsed mt,
                  sr_TrustedAt = m_UpdatedAt mt\<rparr>))"

definition checkIssuerModulus ::
  "time \<Rightarrow> ProofType \<Rightarrow> ParsedInputs \<Rightarrow> CertProvider \<Rightarrow> IssuerModulusOutcome result" where
  "checkIssuerModulus now pt parsed provider =
     (let issuer = issuerForProofType pt in
      case TrustedWithMeta now provider issuer of
        (None, mt) \<Rightarrow> Inl (Wrapf ''%w: %s'' [LongName issuer] (Sentinel ErrIssuerCertUnavailable))
      | (Some rec, mt) \<Rightarrow>
          if length (pi_IssuerRSAModulus parsed) \<noteq> length (cr_Limbs rec)
          then Inl (Errorf ''issuer modulus limb count: got %d, want %d for %s''
                 [nat_string 10 (length (pi_IssuerRSAModulus parsed)),
                  nat_string 10 (length (cr_Limbs rec)), LongName issuer])
          else Inr \<lparr>im_Issuer = issuer, im_IssuerName = ShortName issuer,
                    im_Match = LimbsEqual (cr_Limbs rec) (pi_IssuerRSAModulus parsed),
                    im_ExpectedSHA256 = cr_SHA256Hex rec, im_TrustSource = cr_Source rec,
                    im_TrustedAt = cm_UpdatedAt mt\<rparr>)"

definition checkAppID :: "ParsedInputs \<Rightarrow> string \<Rightarrow> AppIDOutcome" where
  "checkAppID parsed expected =
     \<lparr>ao_Match = ConstantTimeCompare (pi_AppID parsed) expected, ao_Expected = expected,
      ao_Observed = pi_AppID parsed\<rparr>"

definition CheckChallenge :: "ParsedInputs \<Rightarrow> string \<Rightarrow> ChallengeOutcome" where
  "CheckChallenge parsed expected =
     (let observed = (case NormalizeDecimal (pi_Challenge parsed) of
                        Inl e \<Rightarrow> pi_Challenge parsed | Inr d \<Rightarrow> d)
      in \<lparr>co_Match = ConstantTimeCompare observed expected, co_Expected = expected,
          co_Observed = observed\<rparr>)"

text \<open>The three checks, each on the result the one before leaves; a nil provider skips its check.\<close>

definition smt_check ::
  "('s Provider \<Rightarrow> 's Provider) \<Rightarrow> time \<Rightarrow> 's Verifier \<Rightarrow> Request \<Rightarrow> ParsedInputs \<Rightarrow> Result \<Rightarrow> Result result" where
  "smt_check later now v req parsed res =
     (case v_SmtRoot v of
        None \<Rightarrow> Inr res
      | Some p \<Rightarrow>
     (case checkSmtRoot later now (rq_ProofType req) parsed p of
        Inl e \<Rightarrow> Inl e
      | Inr outcome \<Rightarrow>
          let res1 = res\<lparr>r_SmtRoot := Some outcome\<rparr>
          in Inr (if \<not> sr_Match outcome
                  then res1\<lparr>r_Verified := False, r_Reason := ReasonSmtRootMismatch\<rparr> else res1)))"

definition issuer_check ::
  "time \<Rightarrow> 's Verifier \<Rightarrow> Request \<Rightarrow> ParsedInputs \<Rightarrow> Result \<Rightarrow> Result result" where
  "issuer_check now v req parsed res =
     (case v_IssuerCert v of
        None \<Rightarrow> Inr res
      | Some p \<Rightarrow>
     (case checkIssuerModulus now (rq_ProofType req) parsed p of
        Inl e \<Rightarrow> Inl e
      | Inr outcome \<Rightarrow>
          let res1 = res\<lparr>r_IssuerModulus := Some outcome\<rparr>
          in Inr (if \<not> im_Match outcome \<and> r_Reason res1 = ''''
                  then res1\<lparr>r_Verified := False, r_Reason := ReasonIssuerModulusMismatch\<rparr> else res1)))"

definition app_id_check :: "'s Verifier \<Rightarrow> ParsedInputs \<Rightarrow> Result \<Rightarrow> Result" where
  "app_id_check v parsed res =
     (if v_ExpectedAppID v \<noteq> ''''
      then let outcome = checkAppID parsed (v_ExpectedAppID v);
               res1 = res\<lparr>r_AppID := Some outcome\<rparr>
           in if \<not> ao_Match outcome \<and> r_Reason res1 = ''''
              then res1\<lparr>r_Verified := False, r_Reason := ReasonAppIDMismatch\<rparr> else res1
      else res)"

definition new_result :: "bool \<Rightarrow> string \<Rightarrow> PublicSignals option \<Rightarrow> ParsedInputs option \<Rightarrow> Result" where
  "new_result verified reason signals parsed =
     \<lparr>r_Verified = verified, r_Reason = reason, r_Signals = signals, r_Parsed = parsed,
      r_SmtRoot = None, r_IssuerModulus = None, r_AppID = None, r_Challenge = None\<rparr>"

definition Verifier_Verify ::
  "os \<Rightarrow> ffi \<Rightarrow> ('s Provider \<Rightarrow> 's Provider) \<Rightarrow> time \<Rightarrow> 's Verifier \<Rightarrow> Request \<Rightarrow> fs
    \<Rightarrow> Result result \<times> fs" where
  "Verifier_Verify osv ff later now v req fs0 =
     (case Verify osv ff req (v_KeysDir v) fs0 of
        (Inl e, fs1) \<Rightarrow> (Inl e, fs1)
      | (Inr (ffiVerified, signals), fs1) \<Rightarrow>
          (if \<not> ffiVerified then Inr (new_result False ReasonProofInvalid signals None)
           else
             let certChainType = (if rq_ProofType req = ProofTypeRS4096 then CertChainRS4096 else CertChainRS2048)
             in case ParsePublicInputs signals certChainType of
                  Inl e \<Rightarrow> Inl (Wrapf ''parse public inputs: %w'' [] e)
                | Inr parsed \<Rightarrow>
               (case smt_check later now v req parsed (new_result True '''' signals (Some parsed)) of
                  Inl e \<Rightarrow> Inl e
                | Inr res1 \<Rightarrow>
               (case issuer_check now v req parsed res1 of
                  Inl e \<Rightarrow> Inl e
                | Inr res2 \<Rightarrow> Inr (app_id_check v parsed res2))), fs1))"

subsection \<open>Staging\<close>

lemma below_Join: "below d (Join d f)" "below d (Join (Join d k) f)" "below d d"
  by (auto simp: below_def Join_def HasPrefix_iff)

lemma WriteFile_outside: "WriteFile osv q b fs = (e, fs') \<Longrightarrow> p \<noteq> q \<Longrightarrow> fs' p = fs p"
  by (auto simp: WriteFile_def split: option.splits)

lemma link_keys_outside:
  "(\<And>f. p \<noteq> Join tmpKeys f) \<Longrightarrow> link_keys osv keysDir tmpKeys vks fs = (e, fs') \<Longrightarrow> fs' p = fs p"
proof (induction vks arbitrary: fs)
  case (Cons vk vks)
  show ?case
  proof (cases "os_Symlink osv (Join tmpKeys vk)")
    case None
    with Cons.prems have "link_keys osv keysDir tmpKeys vks (fs(Join tmpKeys vk \<mapsto> Link (filepath_Join keysDir vk))) = (e, fs')"
      by (simp add: Let_def)
    from Cons.IH [OF Cons.prems(1) this] Cons.prems(1) [of vk] show ?thesis by simp
  qed (use Cons.prems in \<open>simp add: Let_def\<close>)
qed simp

text \<open>Whatever fails, \<open>Verify\<close> works below its temporary directory and then removes what it can of it.\<close>

lemma Verify_fs:
  "snd (Verify osv ff req keysDir fs) p =
     (case os_MkdirTemp osv of
        Inl e \<Rightarrow> fs p
      | Inr tmpDir \<Rightarrow>
          if \<not> below tmpDir p then fs p
          else if os_Remove osv p = None then None else snd (Verify osv ff req keysDir fs) p)"
proof (cases "os_MkdirTemp osv")
  case (Inl e)
  then show ?thesis by (simp add: Verify_def Let_def split: prod.split)
next
  case (Inr tmpDir)
  let ?k = "Join tmpDir ''keys''"
  obtain cc us cv dv where n: "proofFileNames (if rq_ProofType req = '''' then ProofTypeRS2048 else rq_ProofType req)
      = (cc, us, cv, dv)" by (metis prod_cases4)
  obtain e3 fs3 where w3: "WriteFile osv (Join ?k cc) (rq_CertChainProof req) (fs(tmpDir \<mapsto> Dir, ?k \<mapsto> Dir)) = (e3, fs3)"
    by fastforce
  obtain e4 fs4 where w4: "WriteFile osv (Join ?k us) (rq_UserSigProof req) fs3 = (e4, fs4)" by fastforce
  obtain e5 fs5 where w5: "link_keys osv keysDir ?k [cv, dv] fs4 = (e5, fs5)" by fastforce
  have out: "fs3 p = fs p \<and> fs4 p = fs p \<and> fs5 p = fs p" if "\<not> below tmpDir p"
  proof -
    have ne: "p \<noteq> tmpDir" "p \<noteq> ?k" "p \<noteq> Join ?k f" for f using that below_Join by auto
    from WriteFile_outside [OF w3 ne(3)] WriteFile_outside [OF w4 ne(3)] link_keys_outside [OF ne(3) w5] ne(1,2)
    show ?thesis by simp
  qed
  obtain fs6 where v: "snd (Verify osv ff req keysDir fs) = RemoveAll osv tmpDir fs6"
    and f: "fs6 \<in> {fs(tmpDir \<mapsto> Dir), fs3, fs4, fs5}"
    using Inr w3 w4 w5 unfolding Verify_def Let_def n
    by (cases "os_Mkdir osv ?k"; cases e3; cases e4; cases e5) auto
  have "fs6 p = fs p" if "\<not> below tmpDir p"
    using f out [OF that] that below_Join(3) [of tmpDir] by auto
  with Inr v show ?thesis by (simp add: RemoveAll_def)
qed

text \<open>The files the Rust verifier finds when every call of the operating system succeeds.\<close>

definition staged :: "Request \<Rightarrow> string \<Rightarrow> string \<Rightarrow> fs \<Rightarrow> fs" where
  "staged req keysDir tmpDir fs =
     (let pt = (if rq_ProofType req = '''' then ProofTypeRS2048 else rq_ProofType req);
          k = Join tmpDir ''keys''
      in case proofFileNames pt of (cc, us, cv, dv) \<Rightarrow>
        fs(tmpDir \<mapsto> Dir, k \<mapsto> Dir, Join k cc \<mapsto> File (rq_CertChainProof req),
           Join k us \<mapsto> File (rq_UserSigProof req), Join k cv \<mapsto> Link (filepath_Join keysDir cv),
           Join k dv \<mapsto> Link (filepath_Join keysDir dv)))"

lemma Verify_staged:
  assumes "os_MkdirTemp osv = Inr tmpDir" "\<forall>p. os_Mkdir osv p = None" "\<forall>p. os_WriteFile osv p = None"
    "\<forall>p. os_Symlink osv p = None"
  shows "fst (Verify osv ff req keysDir fs) = LinkVerify ff (staged req keysDir tmpDir fs) tmpDir
    (if rq_ProofType req = ProofTypeRS4096 then CertChainRS4096 else CertChainRS2048)"
proof -
  have "'''' \<noteq> ProofTypeRS4096" "ProofTypeRS2048 \<noteq> ProofTypeRS4096"
    by (simp_all add: ProofTypeRS4096_def ProofTypeRS2048_def)
  with assms show ?thesis
    by (simp add: Verify_def staged_def WriteFile_def Let_def split: prod.split)
qed

lemma Join_inject [simp]: "Join d f = Join d g \<longleftrightarrow> f = g"
  by (simp add: Join_def)

lemma Join_neq [simp]: "Join d f \<noteq> d" "d \<noteq> Join d f" "Join (Join d f) g \<noteq> d" "d \<noteq> Join (Join d f) g"
proof -
  have "length (Join d f) \<noteq> length d" "length (Join (Join d f) g) \<noteq> length d" by (simp_all add: Join_def)
  then show "Join d f \<noteq> d" "d \<noteq> Join d f" "Join (Join d f) g \<noteq> d" "d \<noteq> Join (Join d f) g" by metis+
qed

subsection \<open>The verdict\<close>

definition smt_ok :: "'s Verifier \<Rightarrow> ProofType \<Rightarrow> ParsedInputs \<Rightarrow> bool" where
  "smt_ok v pt parsed =
     (case v_SmtRoot v of
        None \<Rightarrow> True
      | Some p \<Rightarrow>
          (case ParseRoot (pi_SmtRoot parsed) of
             Inl e \<Rightarrow> False
           | Inr r \<Rightarrow> Trusted p (issuerForProofType pt) = Some r))"

definition issuer_ok :: "'s Verifier \<Rightarrow> ProofType \<Rightarrow> ParsedInputs \<Rightarrow> bool" where
  "issuer_ok v pt parsed =
     (case v_IssuerCert v of
        None \<Rightarrow> True
      | Some p \<Rightarrow>
          (case Trusted_cert p (issuerForProofType pt) of
             None \<Rightarrow> False
           | Some rec \<Rightarrow> LimbsEqual (cr_Limbs rec) (pi_IssuerRSAModulus parsed)))"

definition app_ok :: "'s Verifier \<Rightarrow> ParsedInputs \<Rightarrow> bool" where
  "app_ok v parsed \<longleftrightarrow> v_ExpectedAppID v = '''' \<or> pi_AppID parsed = v_ExpectedAppID v"

text \<open>Limbs that match a trusted certificate are its modulus.\<close>

lemma issuer_ok_modulus:
  assumes "issuer_ok v pt parsed" and "v_IssuerCert v = Some p"
    and "\<forall>i rec. Trusted_cert p i = Some rec \<longrightarrow> trusted_cert cr emb i rec"
  shows "\<exists>rec. Trusted_cert p (issuerForProofType pt) = Some rec
    \<and> observed_modulus (pi_IssuerRSAModulus parsed) = Some (cr_PubKey rec)
    \<and> BitLen (cr_PubKey rec) = (if pt = ProofTypeRS4096 then 4096 else 2048)"
proof -
  obtain rec where rec: "Trusted_cert p (issuerForProofType pt) = Some rec"
    "LimbsEqual (cr_Limbs rec) (pi_IssuerRSAModulus parsed)"
    using assms(1,2) by (auto simp: issuer_ok_def split: option.splits)
  define i where "i = issuerForProofType pt"
  have b: "BitLen (cr_PubKey rec) = (if i = IssuerG3 then 4096 else 2048)"
    and l: "cr_Limbs rec = map (\<lambda>j. Hex (limb_bytes (cr_PubKey rec) j)) [0..<LimbCountFor i]"
    using assms(3) [rule_format, OF rec(1)] unfolding i_def [symmetric]
    by (auto simp: trusted_cert_def valid_cert_def ModulusToLimbs_eq)
  have "cr_PubKey rec < 2 ^ BitLen (cr_PubKey rec)" by (rule BitLen_less)
  also have "\<dots> \<le> 2 ^ (LimbBits * LimbCountFor i)"
    unfolding b by (rule power_increasing) (simp_all add: LimbBits_def LimbCountFor_def LimbsRS2048_def LimbsRS4096_def)
  finally have "observed_modulus (pi_IssuerRSAModulus parsed) = Some (cr_PubKey rec)"
    using LimbsEqual_observed rec(2) l by simp
  moreover have "BitLen (cr_PubKey rec) = (if pt = ProofTypeRS4096 then 4096 else 2048)"
    using b by (simp add: i_def issuerForProofType_def split: if_splits)
  ultimately show ?thesis using rec(1) by blast
qed

lemmas reason_defs = ReasonProofInvalid_def ReasonSmtRootMismatch_def ReasonIssuerModulusMismatch_def
  ReasonAppIDMismatch_def ReasonChallengeMismatch_def

lemma checkSmtRoot_Inr:
  assumes "checkSmtRoot later now pt parsed p = Inr outcome"
  shows "\<exists>observed trusted. ParseRoot (pi_SmtRoot parsed) = Inr observed
    \<and> Trusted p (issuerForProofType pt) = Some trusted \<and> (sr_Match outcome \<longleftrightarrow> observed = trusted)
    \<and> sr_Expected outcome = Hex trusted \<and> sr_Observed outcome = Hex observed"
  using assms by (auto simp: checkSmtRoot_def Root_Equal_def Let_def split: option.splits sum.splits)

lemma checkIssuerModulus_Inr:
  assumes "checkIssuerModulus now pt parsed p = Inr outcome"
  shows "\<exists>rec. Trusted_cert p (issuerForProofType pt) = Some rec
    \<and> (im_Match outcome \<longleftrightarrow> LimbsEqual (cr_Limbs rec) (pi_IssuerRSAModulus parsed))
    \<and> im_ExpectedSHA256 outcome = cr_SHA256Hex rec"
  using assms
  by (auto simp: checkIssuerModulus_def TrustedWithMeta_def Trusted_cert_def Let_def
      split: option.splits if_splits)

lemma smt_check_Inr:
  assumes "smt_check later now v req parsed res = Inr res'"
  shows "\<exists>o'. res' = res\<lparr>r_Verified := r_Verified res \<and> smt_ok v (rq_ProofType req) parsed,
      r_Reason := (if smt_ok v (rq_ProofType req) parsed then r_Reason res else ReasonSmtRootMismatch),
      r_SmtRoot := o'\<rparr>
    \<and> (if v_SmtRoot v = None then o' = r_SmtRoot res else o' \<noteq> None)"
proof (cases "v_SmtRoot v")
  case None
  with assms show ?thesis by (simp add: smt_check_def smt_ok_def)
next
  case (Some p)
  with assms obtain outcome where c: "checkSmtRoot later now (rq_ProofType req) parsed p = Inr outcome"
    and r: "res' = (if \<not> sr_Match outcome
      then res\<lparr>r_SmtRoot := Some outcome, r_Verified := False, r_Reason := ReasonSmtRootMismatch\<rparr>
      else res\<lparr>r_SmtRoot := Some outcome\<rparr>)"
    by (auto simp: smt_check_def Let_def split: sum.splits)
  from checkSmtRoot_Inr [OF c] Some have "sr_Match outcome \<longleftrightarrow> smt_ok v (rq_ProofType req) parsed"
    by (auto simp: smt_ok_def)
  with r Some show ?thesis by (intro exI [of _ "Some outcome"]) simp
qed

lemma issuer_check_Inr:
  assumes "issuer_check now v req parsed res = Inr res'"
  shows "\<exists>o'. res' = res\<lparr>r_Verified := r_Verified res \<and> (issuer_ok v (rq_ProofType req) parsed \<or> r_Reason res \<noteq> ''''),
      r_Reason := (if issuer_ok v (rq_ProofType req) parsed \<or> r_Reason res \<noteq> '''' then r_Reason res
                   else ReasonIssuerModulusMismatch),
      r_IssuerModulus := o'\<rparr>
    \<and> (if v_IssuerCert v = None then o' = r_IssuerModulus res else o' \<noteq> None)"
proof (cases "v_IssuerCert v")
  case None
  with assms show ?thesis by (simp add: issuer_check_def issuer_ok_def)
next
  case (Some p)
  with assms obtain outcome where c: "checkIssuerModulus now (rq_ProofType req) parsed p = Inr outcome"
    and r: "res' = (if \<not> im_Match outcome \<and> r_Reason res = ''''
      then res\<lparr>r_IssuerModulus := Some outcome, r_Verified := False, r_Reason := ReasonIssuerModulusMismatch\<rparr>
      else res\<lparr>r_IssuerModulus := Some outcome\<rparr>)"
    by (auto simp: issuer_check_def Let_def split: sum.splits)
  from checkIssuerModulus_Inr [OF c] Some have "im_Match outcome \<longleftrightarrow> issuer_ok v (rq_ProofType req) parsed"
    by (auto simp: issuer_ok_def)
  with r Some show ?thesis by (intro exI [of _ "Some outcome"]) simp
qed

lemma app_id_check_eq:
  "app_id_check v parsed res = res\<lparr>r_Verified := r_Verified res \<and> (app_ok v parsed \<or> r_Reason res \<noteq> ''''),
      r_Reason := (if app_ok v parsed \<or> r_Reason res \<noteq> '''' then r_Reason res else ReasonAppIDMismatch),
      r_AppID := (if v_ExpectedAppID v = '''' then r_AppID res else Some (checkAppID parsed (v_ExpectedAppID v)))\<rparr>"
  by (auto simp: app_id_check_def app_ok_def checkAppID_def ConstantTimeCompare_def Let_def intro!: Result.equality)

definition cert_chain_type :: "ProofType \<Rightarrow> CertChainType" where
  "cert_chain_type pt = (if pt = ProofTypeRS4096 then CertChainRS4096 else CertChainRS2048)"

lemma Verifier_Verify_Inr:
  assumes "Verifier_Verify osv ff later now v req fs0 = (Inr r, fs1)"
  shows "case fst (Verify osv ff req (v_KeysDir v) fs0) of
      Inl e \<Rightarrow> False
    | Inr (False, sg) \<Rightarrow> r = new_result False ReasonProofInvalid sg None
    | Inr (True, sg) \<Rightarrow>
        (\<exists>parsed. ParsePublicInputs sg (cert_chain_type (rq_ProofType req)) = Inr parsed
          \<and> r_Parsed r = Some parsed \<and> r_Signals r = sg \<and> r_Challenge r = None
          \<and> (r_Verified r \<longleftrightarrow> smt_ok v (rq_ProofType req) parsed \<and> issuer_ok v (rq_ProofType req) parsed \<and> app_ok v parsed)
          \<and> r_Reason r = (if \<not> smt_ok v (rq_ProofType req) parsed then ReasonSmtRootMismatch
              else if \<not> issuer_ok v (rq_ProofType req) parsed then ReasonIssuerModulusMismatch
              else if \<not> app_ok v parsed then ReasonAppIDMismatch else '''')
          \<and> (r_SmtRoot r = None \<longleftrightarrow> v_SmtRoot v = None)
          \<and> (r_IssuerModulus r = None \<longleftrightarrow> v_IssuerCert v = None)
          \<and> (r_AppID r = None \<longleftrightarrow> v_ExpectedAppID v = ''''))"
proof -
  obtain w fs2 where w: "Verify osv ff req (v_KeysDir v) fs0 = (w, fs2)" by fastforce
  show ?thesis
  proof (cases w)
    case (Inl e)
    with assms w show ?thesis by (simp add: Verifier_Verify_def)
  next
    case (Inr b)
    then obtain ok sg where b: "w = Inr (ok, sg)" by (cases b) auto
    show ?thesis
    proof (cases ok)
      case False
      with assms w b show ?thesis by (simp add: Verifier_Verify_def)
    next
      case True
      with b have wt: "w = Inr (True, sg)" by simp
      let ?n = "\<lambda>p. new_result True '''' sg (Some p)"
      from assms w wt obtain parsed res1 res2 where
        p: "ParsePublicInputs sg (cert_chain_type (rq_ProofType req)) = Inr parsed"
        and c1: "smt_check later now v req parsed (?n parsed) = Inr res1"
        and c2: "issuer_check now v req parsed res1 = Inr res2"
        and r: "r = app_id_check v parsed res2"
        by (auto simp: Verifier_Verify_def cert_chain_type_def Let_def split: sum.splits)
      obtain o1 where r1: "res1 = (?n parsed)\<lparr>r_Verified := smt_ok v (rq_ProofType req) parsed,
            r_Reason := (if smt_ok v (rq_ProofType req) parsed then '''' else ReasonSmtRootMismatch), r_SmtRoot := o1\<rparr>"
        and o1: "o1 = None \<longleftrightarrow> v_SmtRoot v = None"
        using smt_check_Inr [OF c1] by (auto simp: new_result_def split: if_splits)
      obtain o2 where r2: "res2 = res1\<lparr>r_Verified := r_Verified res1 \<and> (issuer_ok v (rq_ProofType req) parsed \<or> r_Reason res1 \<noteq> ''''),
            r_Reason := (if issuer_ok v (rq_ProofType req) parsed \<or> r_Reason res1 \<noteq> '''' then r_Reason res1
                         else ReasonIssuerModulusMismatch), r_IssuerModulus := o2\<rparr>"
        and o2: "o2 = None \<longleftrightarrow> v_IssuerCert v = None"
        using issuer_check_Inr [OF c2] by (auto simp: r1 new_result_def split: if_splits)
      show ?thesis
        unfolding w wt fst_conv sum.case prod.case bool.case
        by (rule exI [of _ parsed])
          (use p o1 o2 in \<open>simp add: r app_id_check_eq r2 r1 new_result_def reason_defs\<close>)
    qed
  qed
qed

subsection \<open>The slots of the semaphore\<close>

lemma sem_step_inv:
  assumes "sem_step s s'" "length (running s) \<le> maxConcurrent \<and> distinct (waiting s @ running s)"
  shows "length (running s') \<le> maxConcurrent \<and> distinct (waiting s' @ running s')"
  using assms
proof (cases rule: sem_step.cases)
  case (release r)
  then show ?thesis using assms(2) by (auto simp: length_remove1 dest: notin_set_remove1)
qed (use assms(2) in \<open>auto simp: maxConcurrent_def dest: in_set_remove1 notin_set_remove1\<close>)

lemma sem_reachable_inv:
  "sem_reachable s \<Longrightarrow> length (running s) \<le> maxConcurrent \<and> distinct (waiting s @ running s)"
  by (induction rule: sem_reachable.induct) (simp, use sem_step_inv in blast)

subsection \<open>A concrete environment\<close>

definition demo_os :: os where
  "demo_os = \<lparr>os_MkdirTemp = Inr ''/tmp/zkid-linkverify-1'', os_Mkdir = (\<lambda>_. None),
     os_WriteFile = (\<lambda>_. None), os_Symlink = (\<lambda>_. None), os_Remove = (\<lambda>_. None)\<rparr>"

definition demo_signals :: "string list \<Rightarrow> PublicSignals" where
  "demo_signals limbs = \<lparr>CertChain = ''0'' # limbs @ [''0''], UserSig = [''0'', ''n'', ''0'', ''7'']\<rparr>"

definition demo_ffi :: "int \<Rightarrow> string list \<Rightarrow> ffi" where
  "demo_ffi ret limbs = \<lparr>zk_link_verify = (\<lambda>fs d t. \<lparr>ffi_ret = ret, ffi_last_error = ''bad proof'', ffi_last_signals = ''{}''\<rparr>),
     unmarshal_signals = (\<lambda>_. Some (demo_signals limbs))\<rparr>"

definition demo_request :: Request where
  "demo_request = \<lparr>rq_CertChainProof = [1, 2], rq_UserSigProof = [3], rq_ProofType = ProofTypeRS2048\<rparr>"

definition demo_parsed :: "string list \<Rightarrow> ParsedInputs" where
  "demo_parsed limbs = \<lparr>pi_PkCommit = ''0'', pi_Nullifier = ''n'', pi_AppID = replicate 31 (char_of (0 :: nat)),
     pi_AppIDPacked = ''0'', pi_Challenge = ''7'', pi_IssuerRSAModulus = limbs, pi_SmtRoot = ''0''\<rparr>"

lemma TrimSpace_0: "TrimSpace ''0'' = ''0''" and SetString_0: "SetString ''0'' 10 = Some 0"
  by (simp_all add: num_eval)

lemma UnpackAppID_zero: "UnpackAppID ''0'' = Inr (replicate 31 (char_of (0 :: nat)))"
proof -
  have v: "packed_value ''0'' = Some 0" by (simp add: packed_value_def TrimSpace_0 SetString_0)
  have "FillBytes AppIDLen 0 = Some (replicate 31 0)" by (simp add: FillBytes_def AppIDLen_def)
  with v show ?thesis by (simp add: UnpackAppID_eq string_of_bytes_def char_of_byte_def)
qed

definition zero_limbs :: "string list" where
  "zero_limbs = replicate 17 ''0''"

lemma demo_parses:
  "length limbs = 17 \<Longrightarrow> ParsePublicInputs (Some (demo_signals limbs)) CertChainRS2048 = Inr (demo_parsed limbs)"
  by (simp add: ParsePublicInputs_Inr_iff demo_signals_def demo_parsed_def UnpackAppID_zero limb_count_def
      CertChainRS2048_def CertChainRS4096_def)

lemma demo_Verify:
  "fst (Verify demo_os (demo_ffi 1 limbs) demo_request keysDir fs) = Inr (True, Some (demo_signals limbs))"
  by (subst Verify_staged [of _ "''/tmp/zkid-linkverify-1''"])
    (simp_all add: demo_os_def LinkVerify_def lastSignals_def demo_ffi_def)

lemma demo_cert_chain_type: "cert_chain_type (rq_ProofType demo_request) = CertChainRS2048"
  by (simp add: cert_chain_type_def demo_request_def ProofTypeRS2048_def ProofTypeRS4096_def)

lemma zero_limbs_length: "length zero_limbs = 17"
  by (simp add: zero_limbs_def)

subsection \<open>Properties\<close>

text \<open>A proof whose root is not the trusted one.\<close>

definition mismatch_verifier :: "string Verifier" where
  "mismatch_verifier = \<lparr>v_KeysDir = ''keys'', v_SmtRoot = Some (NewStaticProvider 0 [IssuerG2 \<mapsto> replicate 32 1]),
     v_IssuerCert = None, v_ExpectedAppID = ''x''\<rparr>"

lemma mismatch_verifier_fields: "v_KeysDir mismatch_verifier = ''keys''" "v_IssuerCert mismatch_verifier = None"
  "v_ExpectedAppID mismatch_verifier = ''x''"
  "v_SmtRoot mismatch_verifier = Some (NewStaticProvider 0 [IssuerG2 \<mapsto> replicate 32 1])"
  by (simp_all add: mismatch_verifier_def)

lemma mismatch_root: "ParseRoot ''0'' = Inr zero_root"
    "Trusted (NewStaticProvider 0 [IssuerG2 \<mapsto> replicate 32 1] :: string Provider) (issuerForProofType (rq_ProofType demo_request))
      = Some (replicate 32 1)"
  by (simp add: ParseRoot_Inr_iff root_digits_def TrimSpace_0 TrimPrefix_def scan_nat_def digit_in_def digit_val_def zero_root_def)
    (simp add: Trusted_def NewStaticProvider_def setRoots_success issuerForProofType_def demo_request_def
      ProofTypeRS2048_def ProofTypeRS4096_def)

lemma mismatch_not_ok: "smt_ok mismatch_verifier (rq_ProofType demo_request) (demo_parsed zero_limbs) = False"
  using mismatch_root by (simp add: smt_ok_def mismatch_verifier_fields demo_parsed_def zero_root_def)

lemma mismatch_run:
  obtains r fs1 where "Verifier_Verify demo_os (demo_ffi 1 zero_limbs) (\<lambda>p. p) 0 mismatch_verifier demo_request Map.empty = (Inr r, fs1)"
proof -
  obtain w fs2 where w: "Verify demo_os (demo_ffi 1 zero_limbs) demo_request ''keys'' Map.empty = (w, fs2)" by fastforce
  then have "w = Inr (True, Some (demo_signals zero_limbs))" using demo_Verify [of zero_limbs "''keys''" Map.empty] by simp
  with w show ?thesis
    using demo_parses [of zero_limbs] zero_limbs_length demo_cert_chain_type mismatch_root that
    by (auto simp: Verifier_Verify_def cert_chain_type_def smt_check_def issuer_check_def checkSmtRoot_def
        mismatch_verifier_fields demo_parsed_def Let_def)
qed

text \<open>C7: the verdict.  When the verifier returns a result, it is verified exactly when the Rust
  library accepted both proofs, the public inputs parse, the proof's SMT root is the trusted root of
  the issuer, its modulus limbs match the trusted certificate and its application id is the
  configured one (a check without a provider or a configured id is skipped).  The reason names the
  first check that failed, and every configured check reports its outcome.\<close>

theorem verify_verdict:
  assumes "Verifier_Verify osv ff later now v req fs0 = (Inr r, fs1)"
  shows "case fst (Verify osv ff req (v_KeysDir v) fs0) of
      Inl e \<Rightarrow> False
    | Inr (False, sg) \<Rightarrow> r = new_result False ReasonProofInvalid sg None
    | Inr (True, sg) \<Rightarrow>
        (\<exists>parsed. ParsePublicInputs sg (cert_chain_type (rq_ProofType req)) = Inr parsed
          \<and> r_Parsed r = Some parsed \<and> r_Signals r = sg \<and> r_Challenge r = None
          \<and> (r_Verified r \<longleftrightarrow> smt_ok v (rq_ProofType req) parsed \<and> issuer_ok v (rq_ProofType req) parsed \<and> app_ok v parsed)
          \<and> r_Reason r = (if \<not> smt_ok v (rq_ProofType req) parsed then ''smt_root_mismatch''
              else if \<not> issuer_ok v (rq_ProofType req) parsed then ''issuer_modulus_mismatch''
              else if \<not> app_ok v parsed then ''app_id_mismatch'' else '''')
          \<and> (r_SmtRoot r = None \<longleftrightarrow> v_SmtRoot v = None)
          \<and> (r_IssuerModulus r = None \<longleftrightarrow> v_IssuerCert v = None)
          \<and> (r_AppID r = None \<longleftrightarrow> v_ExpectedAppID v = ''''))"
  using Verifier_Verify_Inr [OF assms]
  unfolding ReasonSmtRootMismatch_def ReasonIssuerModulusMismatch_def ReasonAppIDMismatch_def .

theorem verify_verdict_witness:
  "\<exists>r. fst (Verifier_Verify demo_os (demo_ffi 1 zero_limbs) (\<lambda>p. p) 0 mismatch_verifier demo_request Map.empty) = Inr r
    \<and> \<not> r_Verified r \<and> r_Reason r = ''smt_root_mismatch'' \<and> r_AppID r \<noteq> None"
proof -
  obtain r fs1 where r: "Verifier_Verify demo_os (demo_ffi 1 zero_limbs) (\<lambda>p. p) 0 mismatch_verifier demo_request Map.empty = (Inr r, fs1)"
    by (rule mismatch_run)
  from verify_verdict [OF r] demo_Verify [of zero_limbs "''keys''" Map.empty] demo_parses [OF zero_limbs_length] mismatch_not_ok
  show ?thesis using r by (auto simp: demo_cert_chain_type mismatch_verifier_fields)
qed

text \<open>C13: a verified proof was made with the trusted issuer's key: when the certificate provider holds
  a certificate the binary may trust, the modulus limbs among the proof's signals, read as numbers,
  are the modulus of that certificate, of 2048 bits for G2 and 4096 bits for G3.\<close>

theorem verified_modulus_is_trusted:
  assumes "Verifier_Verify osv ff later now v req fs0 = (Inr r, fs1)" and "r_Verified r"
    and "v_IssuerCert v = Some p"
    and "\<forall>i rec. Trusted_cert p i = Some rec \<longrightarrow> trusted_cert cr emb i rec"
  shows "\<exists>parsed rec. r_Parsed r = Some parsed
    \<and> Trusted_cert p (issuerForProofType (rq_ProofType req)) = Some rec
    \<and> observed_modulus (pi_IssuerRSAModulus parsed) = Some (cr_PubKey rec)
    \<and> BitLen (cr_PubKey rec) = (if rq_ProofType req = ProofTypeRS4096 then 4096 else 2048)"
proof -
  obtain parsed where pr: "r_Parsed r = Some parsed" "issuer_ok v (rq_ProofType req) parsed"
    using Verifier_Verify_Inr [OF assms(1)] assms(2)
    by (auto simp: new_result_def split: sum.splits bool.splits)
  with issuer_ok_modulus [OF pr(2) assms(3,4)] show ?thesis by blast
qed

theorem verified_modulus_is_trusted_witness:
  "\<exists>p (parsed :: ParsedInputs) rec (r :: Result) fs1. NewProvider_cert demo_crypto demo_embedded 5 6 Map.empty 0 0 = Inr p
    \<and> Trusted_cert p IssuerG2 = Some rec
    \<and> Verifier_Verify demo_os (demo_ffi 1 (cr_Limbs rec)) (\<lambda>p. p) 0
        \<lparr>v_KeysDir = ''keys'', v_SmtRoot = None :: string Provider option, v_IssuerCert = Some p, v_ExpectedAppID = []\<rparr>
        demo_request Map.empty = (Inr r, fs1)
    \<and> r_Verified r \<and> r_Parsed r = Some parsed
    \<and> observed_modulus (pi_IssuerRSAModulus parsed) = Some (cr_PubKey rec)"
proof -
  obtain p where p: "NewProvider_cert demo_crypto demo_embedded 5 6 Map.empty 0 0 = Inr p"
    using demo_loads [of 5 6] by auto
  note tr = new_provider_trusted [OF p]
  then obtain rec where rec: "Trusted_cert p IssuerG2 = Some rec" by auto
  let ?v = "\<lparr>v_KeysDir = ''keys'', v_SmtRoot = None :: string Provider option, v_IssuerCert = Some p, v_ExpectedAppID = []\<rparr>"
  have len: "length (cr_Limbs rec) = 17"
  proof -
    have "trusted_cert demo_crypto demo_embedded IssuerG2 rec" using tr rec by blast
    then show ?thesis
      by (auto simp: trusted_cert_def valid_cert_def ModulusToLimbs_eq LimbCountFor_def LimbsRS2048_def
          dest!: sym [of "map _ _"])
  qed
  have i: "issuerForProofType (rq_ProofType demo_request) = IssuerG2"
    by (simp add: issuerForProofType_def demo_request_def ProofTypeRS2048_def ProofTypeRS4096_def)
  obtain fs2 where "Verify demo_os (demo_ffi 1 (cr_Limbs rec)) demo_request ''keys'' Map.empty
      = (Inr (True, Some (demo_signals (cr_Limbs rec))), fs2)"
    using demo_Verify [of "cr_Limbs rec" "''keys''" Map.empty] by (metis prod.collapse)
  then obtain r fs1 where r: "Verifier_Verify demo_os (demo_ffi 1 (cr_Limbs rec)) (\<lambda>p. p) 0 ?v demo_request Map.empty = (Inr r, fs1)"
    "r_Verified r"
    using demo_parses [OF len] rec len
    by (auto simp: Verifier_Verify_def demo_cert_chain_type [unfolded cert_chain_type_def] smt_check_def issuer_check_def
        checkIssuerModulus_def TrustedWithMeta_def Trusted_cert_def i app_id_check_def new_result_def
        demo_parsed_def LimbsEqual_iff Let_def)
  obtain parsed where "r_Parsed r = Some parsed" "observed_modulus (pi_IssuerRSAModulus parsed) = Some (cr_PubKey rec)"
    using verified_modulus_is_trusted [OF r, of p demo_crypto demo_embedded] tr rec i by auto
  with p rec r show ?thesis by blast
qed

text \<open>A missing trust anchor is an error, not a mismatch: when the proofs are accepted and parse but
  the provider has no root (or no certificate) for the issuer, the result is an error that
  \<open>errors.Is\<close> recognises as the unavailable anchor.\<close>

theorem trust_anchor_unavailable:
  assumes "fst (Verify osv ff req (v_KeysDir v) fs0) = Inr (True, sg)"
    and "ParsePublicInputs sg (cert_chain_type (rq_ProofType req)) = Inr parsed"
    and "v_SmtRoot v = Some p" and "ParseRoot (pi_SmtRoot parsed) = Inr root"
    and "v_IssuerCert v = Some q"
    and "Trusted p (issuerForProofType (rq_ProofType req)) = None \<or>
         Trusted_cert q (issuerForProofType (rq_ProofType req)) = None"
  shows "\<exists>e. fst (Verifier_Verify osv ff later now v req fs0) = Inl e
    \<and> err_is e (if Trusted p (issuerForProofType (rq_ProofType req)) = None
                then ErrSmtRootUnavailable else ErrIssuerCertUnavailable)"
proof -
  obtain fs2 where w: "Verify osv ff req (v_KeysDir v) fs0 = (Inr (True, sg), fs2)"
    using assms(1) by (metis prod.collapse)
  show ?thesis
  proof (cases "Trusted p (issuerForProofType (rq_ProofType req))")
    case None
    with w assms(2-4) show ?thesis
      by (simp add: Verifier_Verify_def cert_chain_type_def smt_check_def checkSmtRoot_def Let_def)
  next
    case (Some root')
    with assms(6) have n: "Trusted_cert q (issuerForProofType (rq_ProofType req)) = None" by simp
    obtain res1 where "smt_check later now v req parsed (new_result True '''' sg (Some parsed)) = Inr res1"
      using Some assms(3,4) by (simp add: smt_check_def checkSmtRoot_def Let_def)
    with w assms(2,5) n Some show ?thesis
      by (simp add: Verifier_Verify_def cert_chain_type_def issuer_check_def checkIssuerModulus_def
          TrustedWithMeta_def Trusted_cert_def Let_def)
  qed
qed

theorem trust_anchor_unavailable_witness:
  "\<exists>e. fst (Verifier_Verify demo_os (demo_ffi 1 zero_limbs) (\<lambda>p. p) 0
      \<lparr>v_KeysDir = ''keys'', v_SmtRoot = Some (NewProvider None None 0 0 :: string Provider),
       v_IssuerCert = Some (NewStaticProvider_cert 0 Map.empty), v_ExpectedAppID = []\<rparr> demo_request Map.empty) = Inl e
    \<and> err_is e ErrSmtRootUnavailable"
proof -
  have z: "ParseRoot (pi_SmtRoot (demo_parsed zero_limbs)) = Inr zero_root"
    by (simp add: ParseRoot_Inr_iff root_digits_def TrimSpace_0 TrimPrefix_def scan_nat_def digit_in_def digit_val_def
        zero_root_def demo_parsed_def)
  have n: "Trusted (NewProvider None None 0 0 :: string Provider) (issuerForProofType (rq_ProofType demo_request)) = None"
    by (simp add: Trusted_def NewProvider_def)
  let ?v = "\<lparr>v_KeysDir = ''keys'', v_SmtRoot = Some (NewProvider None None 0 0 :: string Provider),
       v_IssuerCert = Some (NewStaticProvider_cert 0 Map.empty), v_ExpectedAppID = []\<rparr>"
  have "ParsePublicInputs (Some (demo_signals zero_limbs)) (cert_chain_type (rq_ProofType demo_request)) = Inr (demo_parsed zero_limbs)"
    using demo_parses [OF zero_limbs_length] by (simp add: demo_cert_chain_type)
  from trust_anchor_unavailable [of demo_os "demo_ffi 1 zero_limbs" demo_request ?v Map.empty, OF _ this _ z,
      of "NewProvider None None 0 0" "NewStaticProvider_cert 0 Map.empty" "\<lambda>p. p" 0] n
    demo_Verify [of zero_limbs "''keys''" Map.empty] show ?thesis by simp
qed

text \<open>C36: what staging leaves behind.  Whatever calls fail, the removal included, \<open>Verify\<close> changes the file
  system at most inside its temporary directory, and there only at entries whose removal failed:
  when every entry can be removed, the file system after \<open>Verify\<close> is the one before it, on every
  path.  The temporary directory is a new one.\<close>

theorem staging_leaves_no_trace:
  assumes "\<forall>d p. os_MkdirTemp osv = Inr d \<longrightarrow> below d p \<longrightarrow> fs p = None"
  shows "(\<forall>p. snd (Verify osv ff req keysDir fs) p \<noteq> fs p \<longrightarrow>
      (\<exists>d. os_MkdirTemp osv = Inr d \<and> below d p \<and> os_Remove osv p \<noteq> None))
    \<and> ((\<forall>p. os_Remove osv p = None) \<longrightarrow> snd (Verify osv ff req keysDir fs) = fs)"
proof -
  have left: "\<exists>d. os_MkdirTemp osv = Inr d \<and> below d p \<and> os_Remove osv p \<noteq> None"
    if ne: "snd (Verify osv ff req keysDir fs) p \<noteq> fs p" for p
    using Verify_fs [of osv ff req keysDir fs p] assms ne by (auto split: sum.splits if_splits)
  then show ?thesis by (metis ext)
qed

text \<open>The write of the second proof fails and the file of the first one cannot be removed.\<close>

definition stuck_os :: os where
  "stuck_os = demo_os\<lparr>os_WriteFile := (\<lambda>p. if p = ''/tmp/zkid-linkverify-1/keys/user_sig_rs2048_proof.bin''
       then Some (External ''no space left on device'', None) else None),
     os_Remove := (\<lambda>p. if p = ''/tmp/zkid-linkverify-1/keys/cert_chain_rs2048_proof.bin'' then Some (External ''I/O error'') else None)\<rparr>"

theorem staging_leaves_no_trace_witness:
  "snd (Verify stuck_os (demo_ffi 1 zero_limbs) demo_request ''keys'' [''keys/a'' \<mapsto> File [1]]) ''keys/a'' = Some (File [1])
   \<and> snd (Verify stuck_os (demo_ffi 1 zero_limbs) demo_request ''keys'' [''keys/a'' \<mapsto> File [1]])
       ''/tmp/zkid-linkverify-1/keys/cert_chain_rs2048_proof.bin'' = Some (File [1, 2])
   \<and> snd (Verify demo_os (demo_ffi (- 1) zero_limbs) demo_request ''keys'' [''keys/a'' \<mapsto> File [1]]) = [''keys/a'' \<mapsto> File [1]]"
proof -
  have nb: "\<not> below ''/tmp/zkid-linkverify-1'' ''keys/a''" by (simp add: below_def)
  have m: "os_MkdirTemp stuck_os = Inr ''/tmp/zkid-linkverify-1''" "os_MkdirTemp demo_os = Inr ''/tmp/zkid-linkverify-1''"
    by (simp_all add: stuck_os_def demo_os_def)
  have new: "\<forall>d p. os_MkdirTemp stuck_os = Inr d \<longrightarrow> below d p \<longrightarrow> [''keys/a'' \<mapsto> File [1]] p = None"
    "\<forall>d p. os_MkdirTemp demo_os = Inr d \<longrightarrow> below d p \<longrightarrow> [''keys/a'' \<mapsto> File [1]] p = None"
    using nb by (auto simp: m)
  have kept: "snd (Verify stuck_os (demo_ffi 1 zero_limbs) demo_request ''keys'' [''keys/a'' \<mapsto> File [1]]) ''keys/a'' = Some (File [1])"
  proof (rule ccontr)
    assume "\<not> ?thesis"
    with staging_leaves_no_trace [OF new(1), of "demo_ffi 1 zero_limbs" demo_request "''keys''", THEN conjunct1, THEN spec [of _ "''keys/a''"]]
    have "below ''/tmp/zkid-linkverify-1'' ''keys/a''" by (simp add: m fun_upd_def)
    with nb show False ..
  qed
  have "snd (Verify stuck_os (demo_ffi 1 zero_limbs) demo_request ''keys'' [''keys/a'' \<mapsto> File [1]])
       ''/tmp/zkid-linkverify-1/keys/cert_chain_rs2048_proof.bin'' = Some (File [1, 2])"
    by (simp add: Verify_def stuck_os_def demo_os_def demo_request_def proofFileNames_def ProofTypeRS2048_def
        ProofTypeRS4096_def WriteFile_def RemoveAll_def Join_def Let_def)
  moreover have "\<forall>p. os_Remove demo_os p = None" by (simp add: demo_os_def)
  ultimately show ?thesis using kept staging_leaves_no_trace [OF new(2)] by blast
qed

text \<open>C35: what the Rust verifier is run on: when the calls of the operating system succeed, its
  directory holds exactly the two proofs of the request under the names of their circuits and links
  to the two verifying keys, for the key size the request names.\<close>

theorem staging_contents:
  assumes "os_MkdirTemp osv = Inr tmpDir" and "\<forall>p. os_Mkdir osv p = None" and "\<forall>p. os_WriteFile osv p = None"
    and "\<forall>p. os_Symlink osv p = None" and "\<forall>p. below tmpDir p \<longrightarrow> fs p = None"
    and "s = (if rq_ProofType req = ProofTypeRS4096 then ''rs4096'' else ''rs2048'')"
  shows "\<exists>fs'. fst (Verify osv ff req keysDir fs) = LinkVerify ff fs' tmpDir (cert_chain_type (rq_ProofType req))
    \<and> (\<forall>p. \<not> below tmpDir p \<longrightarrow> fs' p = fs p)
    \<and> {p. below tmpDir p \<and> fs' p \<noteq> None} =
        {tmpDir, Join tmpDir ''keys''} \<union> Join (Join tmpDir ''keys'') `
          {''cert_chain_'' @ s @ ''_proof.bin'', ''user_sig_rs2048_proof.bin'',
           ''cert_chain_'' @ s @ ''_verifying.key'', ''user_sig_rs2048_verifying.key''}
    \<and> fs' (Join (Join tmpDir ''keys'') (''cert_chain_'' @ s @ ''_proof.bin'')) = Some (File (rq_CertChainProof req))
    \<and> fs' (Join (Join tmpDir ''keys'') ''user_sig_rs2048_proof.bin'') = Some (File (rq_UserSigProof req))
    \<and> fs' (Join (Join tmpDir ''keys'') (''cert_chain_'' @ s @ ''_verifying.key''))
        = Some (Link (filepath_Join keysDir (''cert_chain_'' @ s @ ''_verifying.key'')))
    \<and> fs' (Join (Join tmpDir ''keys'') ''user_sig_rs2048_verifying.key'')
        = Some (Link (filepath_Join keysDir ''user_sig_rs2048_verifying.key''))"
proof -
  have ne: "'''' \<noteq> ProofTypeRS4096" "ProofTypeRS2048 \<noteq> ProofTypeRS4096"
    by (simp_all add: ProofTypeRS4096_def ProofTypeRS2048_def)
  have n: "proofFileNames (if rq_ProofType req = '''' then ProofTypeRS2048 else rq_ProofType req) =
      (''cert_chain_'' @ s @ ''_proof.bin'', ''user_sig_rs2048_proof.bin'',
       ''cert_chain_'' @ s @ ''_verifying.key'', ''user_sig_rs2048_verifying.key'')"
    using ne by (simp add: proofFileNames_def assms(6) Let_def)
  let ?k = "Join tmpDir ''keys''"
  have st: "staged req keysDir tmpDir fs = fs(tmpDir \<mapsto> Dir, ?k \<mapsto> Dir,
      Join ?k (''cert_chain_'' @ s @ ''_proof.bin'') \<mapsto> File (rq_CertChainProof req),
      Join ?k ''user_sig_rs2048_proof.bin'' \<mapsto> File (rq_UserSigProof req),
      Join ?k (''cert_chain_'' @ s @ ''_verifying.key'') \<mapsto> Link (filepath_Join keysDir (''cert_chain_'' @ s @ ''_verifying.key'')),
      Join ?k ''user_sig_rs2048_verifying.key'' \<mapsto> Link (filepath_Join keysDir ''user_sig_rs2048_verifying.key''))"
    by (simp add: staged_def n Let_def)
  have d: "distinct [''cert_chain_'' @ s @ ''_proof.bin'', ''user_sig_rs2048_proof.bin'',
      ''cert_chain_'' @ s @ ''_verifying.key'', ''user_sig_rs2048_verifying.key'']"
    by (simp add: assms(6))
  have in_dir: "{p. below tmpDir p \<and> (fs(a \<mapsto> x, b \<mapsto> y, c \<mapsto> z, e \<mapsto> w, g \<mapsto> u, h \<mapsto> v)) p \<noteq> None} = {a, b, c, e, g, h}"
    if "below tmpDir a" "below tmpDir b" "below tmpDir c" "below tmpDir e" "below tmpDir g" "below tmpDir h"
    for a b c e g h x y z w u v
    using that assms(5) by auto
  have out: "\<not> below tmpDir p \<Longrightarrow> staged req keysDir tmpDir fs p = fs p" for p
    unfolding st using below_Join by auto
  have dom: "{p. below tmpDir p \<and> staged req keysDir tmpDir fs p \<noteq> None} =
        {tmpDir, ?k} \<union> Join ?k `
          {''cert_chain_'' @ s @ ''_proof.bin'', ''user_sig_rs2048_proof.bin'',
           ''cert_chain_'' @ s @ ''_verifying.key'', ''user_sig_rs2048_verifying.key''}"
    unfolding st by (subst in_dir) (auto simp: below_Join)
  have f: "fst (Verify osv ff req keysDir fs)
      = LinkVerify ff (staged req keysDir tmpDir fs) tmpDir (cert_chain_type (rq_ProofType req))"
    unfolding cert_chain_type_def by (rule Verify_staged [OF assms(1-4)])
  show ?thesis
    by (rule exI [of _ "staged req keysDir tmpDir fs"], intro conjI allI impI, rule f, erule out, rule dom)
      (use d in \<open>simp_all add: st\<close>)
qed

theorem staging_contents_witness:
  "\<exists>fs'. fst (Verify demo_os (demo_ffi 1 zero_limbs) demo_request ''keys'' Map.empty)
      = LinkVerify (demo_ffi 1 zero_limbs) fs' ''/tmp/zkid-linkverify-1'' CertChainRS2048
    \<and> fs' ''/tmp/zkid-linkverify-1/keys/user_sig_rs2048_proof.bin'' = Some (File [3])"
proof -
  have t: "(if rq_ProofType demo_request = ProofTypeRS4096 then ''rs4096'' else ''rs2048'') = ''rs2048''"
    by (simp add: demo_request_def ProofTypeRS4096_def ProofTypeRS2048_def)
  have o: "os_MkdirTemp demo_os = Inr ''/tmp/zkid-linkverify-1''" "\<forall>p. os_Mkdir demo_os p = None"
    "\<forall>p. os_WriteFile demo_os p = None" "\<forall>p. os_Symlink demo_os p = None" by (simp_all add: demo_os_def)
  have f: "\<forall>p. below ''/tmp/zkid-linkverify-1'' p \<longrightarrow> (Map.empty :: fs) p = None" by simp
  have us: "rq_UserSigProof demo_request = [3]" by (simp add: demo_request_def)
  obtain fs' where fs': "fst (Verify demo_os (demo_ffi 1 zero_limbs) demo_request ''keys'' Map.empty)
      = LinkVerify (demo_ffi 1 zero_limbs) fs' ''/tmp/zkid-linkverify-1'' (cert_chain_type (rq_ProofType demo_request))"
    "fs' (Join (Join ''/tmp/zkid-linkverify-1'' ''keys'') ''user_sig_rs2048_proof.bin'') = Some (File (rq_UserSigProof demo_request))"
    using staging_contents [OF o f t [symmetric], of "demo_ffi 1 zero_limbs" "''keys''"]
    by (elim exE conjE) (rule that)
  then show ?thesis unfolding demo_cert_chain_type us by (auto simp: Join_def)
qed

text \<open>At most ten verifications run at once, whatever the order in which requests arrive, start and
  end, and a request is never both waiting and running.\<close>

theorem at_most_ten_verifications:
  assumes "sem_reachable s"
  shows "length (running s) \<le> 10 \<and> distinct (waiting s @ running s)"
  using sem_reachable_inv [OF assms] by (simp add: maxConcurrent_def)

theorem at_most_ten_verifications_witness:
  "length (running \<lparr>waiting = [], running = [4]\<rparr>) \<le> 10 \<and> distinct (waiting \<lparr>waiting = [], running = [4]\<rparr> @ running \<lparr>waiting = [], running = [4]\<rparr>)"
proof (rule at_most_ten_verifications)
  have a: "sem_step \<lparr>waiting = [], running = []\<rparr> \<lparr>waiting = [4], running = []\<rparr>"
    using arrive [of 4 "\<lparr>waiting = [], running = []\<rparr>"] by simp
  have b: "sem_step \<lparr>waiting = [4], running = []\<rparr> \<lparr>waiting = [], running = [4]\<rparr>"
    using acquire [of 4 "\<lparr>waiting = [4], running = []\<rparr>"] by (simp add: maxConcurrent_def)
  show "sem_reachable \<lparr>waiting = [], running = [4]\<rparr>"
    by (rule sem_next [OF sem_next [OF sem_start a] b])
qed

end
