(* ===== verification/Store.thy ===== *)
theory Store
  imports Go_Time
begin

text \<open>
  \<open>store/store.go\<close> and \<open>store/sqlite.go\<close>: the challenge and verification tables and the
  operations of \<open>SQLiteStore\<close>.  Each SQL statement of the source is a function on the tables
  (\<open>sql_...\<close>), with the constraints its schema declares; what the engine adds (the clock behind
  \<open>datetime('now')\<close>, the text of a constraint error, and any failure of a call: I/O, a cancelled
  context, a closed database) is the parameter \<open>sqlite\<close>.  A transaction works on a copy of the
  tables that \<open>Commit\<close> installs; every other exit rolls back.  The clock reading
  \<open>time.Now()\<close> of an operation is an argument.

  The lemmas give the exact outcome of each operation on each branch and the invariant of the
  tables; the interface of the store and its abstract specification are in \<open>Store_Spec\<close>.  The
  driver returns a DATETIME column as text in RFC 3339, which is the form it is stored in.
\<close>

subsection \<open>Tables and statements\<close>

record challenge_row =
  ch_challenge :: string
  ch_issued_at :: string
  ch_expires_at :: string
  ch_consumed_at :: "string option"

record verification_row =
  vr_id :: nat
  vr_nullifier :: string
  vr_id_verified :: bool
  vr_id_proof :: "string option"
  vr_proof_type :: string
  vr_verified_at :: string
  vr_challenge :: string

record db =
  challenges :: "challenge_row list"
  verifications :: "verification_row list"
  next_id :: nat

datatype sql_call =
    BeginTx | InsertChallenge | SelectChallenge | SelectForVerify | InsertVerification
  | UpdateConsumed | DeleteVerifications | DeleteChallenges | Commit

record sqlite =
  sq_fault :: "sql_call \<Rightarrow> err option"
  sq_now :: time
  sq_unique_text :: "string \<Rightarrow> string"
  sq_foreign_text :: string

record Challenge =
  c_Challenge :: string
  c_ExpiresAt :: time

definition begin_tx :: "sqlite \<Rightarrow> err option" where
  "begin_tx q = sq_fault q BeginTx"

definition sql_insert_challenge :: "sqlite \<Rightarrow> string \<Rightarrow> string \<Rightarrow> db \<Rightarrow> db result" where
  "sql_insert_challenge q c expires d =
     (case sq_fault q InsertChallenge of
        Some e \<Rightarrow> Inl e
      | None \<Rightarrow>
          if c \<in> ch_challenge ` set (challenges d)
          then Inl (External (sq_unique_text q ''challenges.challenge''))
          else Inr (d\<lparr>challenges := challenges d @
                 [\<lparr>ch_challenge = c, ch_issued_at = format_datetime (sq_now q),
                   ch_expires_at = expires, ch_consumed_at = None\<rparr>]\<rparr>))"

definition sql_select_challenge :: "sql_call \<Rightarrow> sqlite \<Rightarrow> string \<Rightarrow> db \<Rightarrow> challenge_row option result" where
  "sql_select_challenge k q c d =
     (case sq_fault q k of
        Some e \<Rightarrow> Inl e
      | None \<Rightarrow> Inr (List.find (\<lambda>r. ch_challenge r = c) (challenges d)))"

definition sql_insert_verification ::
  "sqlite \<Rightarrow> string \<Rightarrow> string option \<Rightarrow> string \<Rightarrow> string \<Rightarrow> db \<Rightarrow> db result" where
  "sql_insert_verification q nullifier proof ptype c d =
     (case sq_fault q InsertVerification of
        Some e \<Rightarrow> Inl e
      | None \<Rightarrow>
          if nullifier \<in> vr_nullifier ` set (verifications d)
          then Inl (External (sq_unique_text q ''verifications.nullifier''))
          else if c \<notin> ch_challenge ` set (challenges d) then Inl (External (sq_foreign_text q))
          else Inr (d\<lparr>verifications := verifications d @
                 [\<lparr>vr_id = next_id d, vr_nullifier = nullifier, vr_id_verified = True,
                   vr_id_proof = proof, vr_proof_type = ptype,
                   vr_verified_at = format_datetime (sq_now q), vr_challenge = c\<rparr>],
               next_id := Suc (next_id d)\<rparr>))"

definition sql_update_consumed :: "sqlite \<Rightarrow> string \<Rightarrow> db \<Rightarrow> db result" where
  "sql_update_consumed q c d =
     (case sq_fault q UpdateConsumed of
        Some e \<Rightarrow> Inl e
      | None \<Rightarrow>
          Inr (d\<lparr>challenges := map (\<lambda>r. if ch_challenge r = c
                   then r\<lparr>ch_consumed_at := Some (format_datetime (sq_now q))\<rparr> else r)
                 (challenges d)\<rparr>))"

text \<open>A DELETE without WHERE: the tables and the number of rows it removed.\<close>

definition sql_delete_verifications :: "sqlite \<Rightarrow> db \<Rightarrow> (db \<times> nat) result" where
  "sql_delete_verifications q d =
     (case sq_fault q DeleteVerifications of
        Some e \<Rightarrow> Inl e
      | None \<Rightarrow> Inr (d\<lparr>verifications := []\<rparr>, length (verifications d)))"

definition sql_delete_challenges :: "sqlite \<Rightarrow> db \<Rightarrow> (db \<times> nat) result" where
  "sql_delete_challenges q d =
     (case sq_fault q DeleteChallenges of
        Some e \<Rightarrow> Inl e
      | None \<Rightarrow>
          if \<exists>v \<in> set (verifications d). vr_challenge v \<in> ch_challenge ` set (challenges d)
          then Inl (External (sq_foreign_text q))
          else Inr (d\<lparr>challenges := []\<rparr>, length (challenges d)))"

definition commit_tx :: "sqlite \<Rightarrow> err option" where
  "commit_tx q = sq_fault q Commit"

subsection \<open>Helpers of sqlite.go\<close>

definition parseTime :: "string \<Rightarrow> time result" where
  "parseTime s =
     (case parse_rfc3339 s of
        Some t \<Rightarrow> Inr t
      | None \<Rightarrow>
          (case parse_datetime s of
             Some t \<Rightarrow> Inr t
           | None \<Rightarrow> Inl (Errorf ''unrecognized time format: %q'' [s])))"

definition isUniqueViolation :: "err \<Rightarrow> bool" where
  "isUniqueViolation e \<longleftrightarrow> Contains (err_text e) ''UNIQUE constraint failed''"

subsection \<open>The operations\<close>

definition challenge_of_seed :: "byte list \<Rightarrow> string" where
  "challenge_of_seed seed =
     Int_String (int (SetBytes (seed[0 := and (seed ! 0) 0x3f])))"

text \<open>
  \<open>rand\<close> is what \<open>rand.Read\<close> gives for the 32-byte seed.
\<close>

definition CreateChallenge ::
  "sqlite \<Rightarrow> duration \<Rightarrow> time \<Rightarrow> byte list result \<Rightarrow> db \<Rightarrow> Challenge result \<times> db" where
  "CreateChallenge q ttl now rand d =
     (case rand of
        Inl e \<Rightarrow> (Inl (Wrapf ''generate challenge seed: %w'' [] e), d)
      | Inr seed \<Rightarrow>
          let c = challenge_of_seed seed; expiresAt = now + ttl
          in case sql_insert_challenge q c (format_rfc3339 expiresAt) d of
               Inl e \<Rightarrow> (Inl (Wrapf ''insert challenge: %w'' [] e), d)
             | Inr d' \<Rightarrow> (Inr \<lparr>c_Challenge = c, c_ExpiresAt = expiresAt\<rparr>, d'))"

definition GetChallenge :: "sqlite \<Rightarrow> string \<Rightarrow> db \<Rightarrow> Challenge option result" where
  "GetChallenge q c d =
     (case sql_select_challenge SelectChallenge q c d of
        Inl e \<Rightarrow> Inl (Wrapf ''scan challenge: %w'' [] e)
      | Inr None \<Rightarrow> Inr None
      | Inr (Some r) \<Rightarrow>
          (case parseTime (ch_expires_at r) of
             Inl e \<Rightarrow> Inl (Wrapf ''parse expires_at: %w'' [] e)
           | Inr t \<Rightarrow> Inr (Some \<lparr>c_Challenge = ch_challenge r, c_ExpiresAt = t\<rparr>)))"

definition VerifyAndRecord ::
  "sqlite \<Rightarrow> time \<Rightarrow> string \<Rightarrow> string \<Rightarrow> string option \<Rightarrow> string \<Rightarrow> db \<Rightarrow> err option \<times> db" where
  "VerifyAndRecord q now nullifier challenge proof proofType d =
     (case begin_tx q of
        Some e \<Rightarrow> (Some (Wrapf ''begin tx: %w'' [] e), d)
      | None \<Rightarrow>
     (case sql_select_challenge SelectForVerify q challenge d of
        Inl e \<Rightarrow> (Some (Wrapf ''query challenge: %w'' [] e), d)
      | Inr None \<Rightarrow> (Some (Sentinel ErrChallengeNotFound), d)
      | Inr (Some r) \<Rightarrow>
     (case parseTime (ch_expires_at r) of
        Inl e \<Rightarrow> (Some (Wrapf ''parse expires_at: %w'' [] e), d)
      | Inr expiresAt \<Rightarrow>
          if After now expiresAt then (Some (Sentinel ErrChallengeExpired), d)
          else if ch_consumed_at r \<noteq> None then (Some (Sentinel ErrChallengeConsumed), d)
          else
            let ptype = (if proofType = '''' then ''tbs'' else proofType)
            in (case sql_insert_verification q nullifier proof ptype challenge d of
                  Inl e \<Rightarrow>
                    if isUniqueViolation e then (Some (Sentinel ErrDuplicateNullifier), d)
                    else (Some (Wrapf ''insert verification: %w'' [] e), d)
                | Inr d1 \<Rightarrow>
               (case sql_update_consumed q challenge d1 of
                  Inl e \<Rightarrow> (Some (Wrapf ''consume challenge: %w'' [] e), d)
                | Inr d2 \<Rightarrow>
               (case commit_tx q of
                  Some e \<Rightarrow> (Some e, d)
                | None \<Rightarrow> (None, d2)))))))"

definition CleanDB :: "sqlite \<Rightarrow> db \<Rightarrow> (nat \<times> nat) result \<times> db" where
  "CleanDB q d =
     (case begin_tx q of
        Some e \<Rightarrow> (Inl (Wrapf ''begin tx: %w'' [] e), d)
      | None \<Rightarrow>
     (case sql_delete_verifications q d of
        Inl e \<Rightarrow> (Inl (Wrapf ''delete verifications: %w'' [] e), d)
      | Inr (d1, nv) \<Rightarrow>
     (case sql_delete_challenges q d1 of
        Inl e \<Rightarrow> (Inl (Wrapf ''delete challenges: %w'' [] e), d)
      | Inr (d2, nc) \<Rightarrow>
     (case commit_tx q of
        Some e \<Rightarrow> (Inl (Wrapf ''commit: %w'' [] e), d)
      | None \<Rightarrow> (Inr (nc, nv), d2)))))"

definition empty_db :: db where
  "empty_db = \<lparr>challenges = [], verifications = [], next_id = 1\<rparr>"

subsection \<open>Opening the database\<close>

text \<open>
  The part of a database file that the migrations of \<open>NewSQLiteStore\<close> look at: the columns of
  \<open>verifications\<close> (none when the table does not exist).  A step of the engine that fails is its
  error in \<open>sqlite_open\<close>; \<open>alter_add_column\<close> fails by itself when the column is there.
  The connection is closed on every failure after it was opened (\<open>conn_open\<close>).
\<close>

record dbfile =
  verification_columns :: "string list option"
  conn_open :: bool

record sqlite_open =
  so_open :: "err option"
  so_pragma :: "err option"
  so_schema :: "err option"
  so_alter :: "err option"

definition schema_columns :: "string list" where
  "schema_columns = [''id'', ''nullifier'', ''id_verified'', ''id_proof'', ''proof_type'',
     ''verified_at'', ''challenge'']"

definition create_if_not_exists :: "dbfile \<Rightarrow> dbfile" where
  "create_if_not_exists f =
     (case verification_columns f of
        None \<Rightarrow> f\<lparr>verification_columns := Some schema_columns\<rparr>
      | Some cols \<Rightarrow> f)"

definition alter_add_column :: "sqlite_open \<Rightarrow> string \<Rightarrow> dbfile \<Rightarrow> dbfile result" where
  "alter_add_column o' col f =
     (case so_alter o' of
        Some e \<Rightarrow> Inl e
      | None \<Rightarrow>
     (case verification_columns f of
        None \<Rightarrow> Inl (External ''no such table: verifications'')
      | Some cols \<Rightarrow>
          if col \<in> set cols then Inl (External (''SQL logic error: duplicate column name: '' @ col))
          else Inr (f\<lparr>verification_columns := Some (cols @ [col])\<rparr>)))"

definition error_contains :: "err \<Rightarrow> string \<Rightarrow> bool" where
  "error_contains e sub \<longleftrightarrow> Contains (err_text e) sub"

definition NewSQLiteStore :: "sqlite_open \<Rightarrow> duration \<Rightarrow> dbfile \<Rightarrow> duration result \<times> dbfile" where
  "NewSQLiteStore o' ttl f0 =
     (case so_open o' of
        Some e \<Rightarrow> (Inl (Wrapf ''open sqlite: %w'' [] e), f0)
      | None \<Rightarrow>
     (let f1 = f0\<lparr>conn_open := True\<rparr> in
      case so_pragma o' of
        Some e \<Rightarrow> (Inl (Wrapf ''enable foreign keys: %w'' [] e), f1\<lparr>conn_open := False\<rparr>)
      | None \<Rightarrow>
     (case so_schema o' of
        Some e \<Rightarrow> (Inl (Wrapf ''run migrations: %w'' [] e), f1\<lparr>conn_open := False\<rparr>)
      | None \<Rightarrow>
     (let f2 = create_if_not_exists f1 in
      case alter_add_column o' ''proof_type'' f2 of
        Inl e \<Rightarrow>
          if \<not> error_contains e ''duplicate column name''
          then (Inl (Wrapf ''migrate verifications.proof_type: %w'' [] e), f2\<lparr>conn_open := False\<rparr>)
          else (Inr ttl, f2)
      | Inr f3 \<Rightarrow> (Inr ttl, f3)))))"

subsection \<open>The store as a state machine\<close>

text \<open>
  The requests the server makes of the store, and the (nullifier, challenge) pair a request got
  accepted, if any.
\<close>

datatype store_op =
    OpCreate sqlite duration time "byte list result"
  | OpGet sqlite string
  | OpVerify sqlite time string string "string option" string
  | OpClean sqlite

fun store_exec :: "store_op \<Rightarrow> db \<Rightarrow> (string \<times> string) option \<times> db" where
  "store_exec (OpCreate q ttl now rand) d = (None, snd (CreateChallenge q ttl now rand d))"
| "store_exec (OpGet q c) d = (None, d)"
| "store_exec (OpVerify q now n c proof ptype) d =
     (case VerifyAndRecord q now n c proof ptype d of
        (None, d') \<Rightarrow> (Some (n, c), d')
      | (Some e, d') \<Rightarrow> (None, d'))"
| "store_exec (OpClean q) d = (None, snd (CleanDB q d))"

fun is_clean :: "store_op \<Rightarrow> bool" where
  "is_clean (OpClean q) \<longleftrightarrow> True"
| "is_clean _ \<longleftrightarrow> False"

text \<open>A run of requests: the accepted pairs in order, and the final state.\<close>

fun run_accepted :: "('op \<Rightarrow> 's \<Rightarrow> 'a option \<times> 's) \<Rightarrow> 'op list \<Rightarrow> 's \<Rightarrow> 'a list \<times> 's" where
  "run_accepted exec [] s = ([], s)"
| "run_accepted exec (x # xs) s =
     (case exec x s of (r, s1) \<Rightarrow>
      case run_accepted exec xs s1 of (as, s2) \<Rightarrow>
        (case r of None \<Rightarrow> as | Some a \<Rightarrow> a # as, s2))"

definition consumed :: "db \<Rightarrow> string \<Rightarrow> bool" where
  "consumed d c \<longleftrightarrow> (\<exists>r \<in> set (challenges d). ch_challenge r = c \<and> ch_consumed_at r \<noteq> None)"

definition spent :: "db \<Rightarrow> string \<Rightarrow> bool" where
  "spent d n \<longleftrightarrow> n \<in> vr_nullifier ` set (verifications d)"

definition known :: "db \<Rightarrow> string \<Rightarrow> bool" where
  "known d c \<longleftrightarrow> c \<in> ch_challenge ` set (challenges d)"

text \<open>
  The invariant of the tables: keys are unique, a verification belongs to a challenge that is
  consumed and a consumed challenge has a verification, no challenge has two, and row ids are
  below the counter.
\<close>

definition db_wf :: "db \<Rightarrow> bool" where
  "db_wf d \<longleftrightarrow>
     distinct (map ch_challenge (challenges d)) \<and>
     distinct (map vr_nullifier (verifications d)) \<and>
     distinct (map vr_challenge (verifications d)) \<and>
     distinct (map vr_id (verifications d)) \<and>
     (\<forall>v \<in> set (verifications d). vr_id v < next_id d) \<and>
     vr_challenge ` set (verifications d) = {c. consumed d c}"

definition expiry_readable :: "db \<Rightarrow> bool" where
  "expiry_readable d \<longleftrightarrow> (\<forall>r \<in> set (challenges d). \<exists>t. parseTime (ch_expires_at r) = Inr t)"

subsection \<open>Outcomes of the operations\<close>

lemma find_key_Some:
  "distinct (map f xs) \<Longrightarrow> x \<in> set xs \<Longrightarrow> List.find (\<lambda>y. f y = f x) xs = Some x"
  by (induction xs) (auto simp: image_iff)

lemma find_key_None: "List.find (\<lambda>y. f y = k) xs = None \<longleftrightarrow> k \<notin> f ` set xs"
  by (auto simp: find_None_iff)

lemma find_SomeD: "List.find P xs = Some x \<Longrightarrow> x \<in> set xs \<and> P x"
  by (auto simp: find_Some_iff)

definition with_verification :: "sqlite \<Rightarrow> string \<Rightarrow> string \<Rightarrow> string option \<Rightarrow> string \<Rightarrow> db \<Rightarrow> db" where
  "with_verification q n c proof ptype d =
     d\<lparr>challenges := map (\<lambda>r. if ch_challenge r = c
            then r\<lparr>ch_consumed_at := Some (format_datetime (sq_now q))\<rparr> else r) (challenges d),
       verifications := verifications d @
          [\<lparr>vr_id = next_id d, vr_nullifier = n, vr_id_verified = True, vr_id_proof = proof,
            vr_proof_type = (if ptype = '''' then ''tbs'' else ptype),
            vr_verified_at = format_datetime (sq_now q), vr_challenge = c\<rparr>],
       next_id := Suc (next_id d)\<rparr>"

lemmas sql_defs = sql_insert_challenge_def sql_select_challenge_def sql_insert_verification_def
  sql_update_consumed_def sql_delete_verifications_def sql_delete_challenges_def
  begin_tx_def commit_tx_def

lemma VerifyAndRecord_success:
  assumes "VerifyAndRecord q now n c proof ptype d = (None, d')"
  shows "\<exists>r t. List.find (\<lambda>r. ch_challenge r = c) (challenges d) = Some r
    \<and> parseTime (ch_expires_at r) = Inr t \<and> now \<le> t \<and> ch_consumed_at r = None
    \<and> \<not> spent d n \<and> d' = with_verification q n c proof ptype d"
  using assms
  by (auto simp: VerifyAndRecord_def sql_defs with_verification_def spent_def After_def Let_def
      split: option.splits sum.splits if_splits)

lemma VerifyAndRecord_error:
  assumes "VerifyAndRecord q now n c proof ptype d = (Some e, d')"
  shows "d' = d"
  using assms
  by (auto simp: VerifyAndRecord_def Let_def split: option.splits sum.splits if_splits)

lemma with_verification_simps [simp]:
  "map ch_challenge (challenges (with_verification q n c p t d)) = map ch_challenge (challenges d)"
  "map vr_nullifier (verifications (with_verification q n c p t d))
     = map vr_nullifier (verifications d) @ [n]"
  "map vr_challenge (verifications (with_verification q n c p t d))
     = map vr_challenge (verifications d) @ [c]"
  "map vr_id (verifications (with_verification q n c p t d)) = map vr_id (verifications d) @ [next_id d]"
  "next_id (with_verification q n c p t d) = Suc (next_id d)"
  by (simp_all add: with_verification_def)

lemma spent_with_verification [simp]:
  "spent (with_verification q n c p t d) m \<longleftrightarrow> m = n \<or> spent d m"
  by (auto simp: spent_def with_verification_def)

lemma known_with_verification [simp]: "known (with_verification q n c p t d) k \<longleftrightarrow> known d k"
  by (metis known_def list.set_map with_verification_simps(1))

lemma consumed_with_verification [simp]:
  "consumed (with_verification q n c p t d) k \<longleftrightarrow> consumed d k \<or> (k = c \<and> known d c)"
proof -
  have "consumed (with_verification q n c p t d) k \<longleftrightarrow>
      (\<exists>r \<in> set (challenges d). ch_challenge r = k \<and> (ch_challenge r = c \<or> ch_consumed_at r \<noteq> None))"
    unfolding consumed_def with_verification_def by (simp del: if_image_distrib) (auto split: if_splits)
  then show ?thesis by (auto simp: consumed_def known_def)
qed

lemma vr_challenge_with_verification [simp]:
  "vr_challenge ` set (verifications (with_verification q n c p t d))
     = insert c (vr_challenge ` set (verifications d))"
  by (auto simp: with_verification_def)

lemma VerifyAndRecord_wf:
  assumes "db_wf d" "VerifyAndRecord q now n c proof ptype d = (None, d')"
  shows "db_wf d' \<and> \<not> consumed d c \<and> \<not> spent d n \<and> consumed d' = (consumed d)(c := True)
    \<and> spent d' = (spent d)(n := True)"
proof -
  obtain r where r: "List.find (\<lambda>r. ch_challenge r = c) (challenges d) = Some r"
    "ch_consumed_at r = None" "\<not> spent d n" and d': "d' = with_verification q n c proof ptype d"
    using VerifyAndRecord_success [OF assms(2)] by blast
  from find_SomeD [OF r(1)] have k: "known d c" by (auto simp: known_def)
  have nc: "\<not> consumed d c"
  proof
    assume "consumed d c"
    then obtain r' where r': "r' \<in> set (challenges d)" "ch_challenge r' = c" "ch_consumed_at r' \<noteq> None"
      by (auto simp: consumed_def)
    with find_key_Some [of ch_challenge "challenges d" r'] assms(1) r show False
      by (simp add: db_wf_def)
  qed
  have ids: "\<forall>v \<in> set (verifications d'). vr_id v < next_id d'"
    using assms(1) by (auto simp: db_wf_def d' with_verification_def less_Suc_eq)
  have "db_wf d'" unfolding db_wf_def
    using assms(1) ids nc k r(3) by (auto simp: db_wf_def d' spent_def)
  with nc k r(3) show ?thesis by (auto simp: d' fun_eq_iff)
qed

lemma CreateChallenge_cases:
  "CreateChallenge q ttl now rand d = (Inl e, d') \<Longrightarrow> d' = d"
  "CreateChallenge q ttl now rand d = (Inr c, d') \<Longrightarrow>
     \<exists>seed. rand = Inr seed \<and> c = \<lparr>c_Challenge = challenge_of_seed seed, c_ExpiresAt = now + ttl\<rparr>
     \<and> \<not> known d (challenge_of_seed seed)
     \<and> d' = d\<lparr>challenges := challenges d @
          [\<lparr>ch_challenge = challenge_of_seed seed, ch_issued_at = format_datetime (sq_now q),
            ch_expires_at = format_rfc3339 (now + ttl), ch_consumed_at = None\<rparr>]\<rparr>"
  by (auto simp: CreateChallenge_def sql_defs known_def Let_def split: sum.splits option.splits if_splits)

lemma CreateChallenge_wf:
  assumes "db_wf d" "CreateChallenge q ttl now rand d = (r, d')"
  shows "db_wf d' \<and> consumed d' = consumed d \<and> spent d' = spent d"
proof (cases r)
  case (Inl e)
  with assms CreateChallenge_cases(1) show ?thesis by blast
next
  case (Inr c)
  with CreateChallenge_cases(2) assms(2) obtain seed where
    "\<not> known d (challenge_of_seed seed)" and d': "d' = d\<lparr>challenges := challenges d @
          [\<lparr>ch_challenge = challenge_of_seed seed, ch_issued_at = format_datetime (sq_now q),
            ch_expires_at = format_rfc3339 (now + ttl), ch_consumed_at = None\<rparr>]\<rparr>" by blast
  moreover have "consumed d' = consumed d" by (auto simp: d' consumed_def fun_eq_iff)
  ultimately show ?thesis using assms(1) by (auto simp: db_wf_def known_def spent_def fun_eq_iff)
qed

lemma CleanDB_Inr:
  assumes "CleanDB q d = (Inr (nc, nv), d')"
  shows "nc = length (challenges d) \<and> nv = length (verifications d)
    \<and> d' = d\<lparr>challenges := [], verifications := []\<rparr>"
  using assms by (auto simp: CleanDB_def sql_defs split: sum.splits option.splits if_splits)

lemma CleanDB_Inl: "CleanDB q d = (Inl e, d') \<Longrightarrow> d' = d"
  by (auto simp: CleanDB_def split: sum.splits option.splits prod.splits)

lemma CleanDB_wf: "db_wf d \<Longrightarrow> db_wf (snd (CleanDB q d))"
proof (cases "CleanDB q d")
  case (Pair r d')
  moreover assume "db_wf d"
  moreover have "db_wf (d\<lparr>challenges := [], verifications := []\<rparr>)"
    by (simp add: db_wf_def consumed_def)
  ultimately show ?thesis by (cases r) (auto dest: CleanDB_Inr CleanDB_Inl)
qed

end
