(* ===== verification/Store_Spec.thy ===== *)
theory Store_Spec
  imports Store Public_Inputs
begin

text \<open>
  What the store promises: the interface \<open>replay_store\<close> (a challenge and a nullifier are accepted
  at most once) with its interpretation on the SQLite model, the abstract specification of
  \<open>Store.VerifyAndRecord\<close> and the refinement proof, the reachable tables, and the properties of
  the store.
\<close>

subsection \<open>The interface of a replay-safe store\<close>

text \<open>
  What the callers of a store rely on: a request that is not accepted leaves the used challenges
  and nullifiers alone, an accepted one found both unused and marks both.  Requests that wipe the
  store are outside the contract (\<open>keeps\<close> excludes them).
\<close>

locale replay_store =
  fixes exec :: "'op \<Rightarrow> 's \<Rightarrow> (string \<times> string) option \<times> 's"
    and keeps :: "'op \<Rightarrow> bool"
    and invar :: "'s \<Rightarrow> bool"
    and used_challenge :: "'s \<Rightarrow> string \<Rightarrow> bool"
    and used_nullifier :: "'s \<Rightarrow> string \<Rightarrow> bool"
  assumes not_accepted: "invar s \<Longrightarrow> keeps x \<Longrightarrow> exec x s = (None, s') \<Longrightarrow>
      invar s' \<and> used_challenge s' = used_challenge s \<and> used_nullifier s' = used_nullifier s"
    and accepted: "invar s \<Longrightarrow> keeps x \<Longrightarrow> exec x s = (Some (n, c), s') \<Longrightarrow>
      invar s' \<and> \<not> used_challenge s c \<and> \<not> used_nullifier s n
      \<and> used_challenge s' = (used_challenge s)(c := True)
      \<and> used_nullifier s' = (used_nullifier s)(n := True)"
begin

lemma run_spec:
  assumes "invar s" "\<forall>x \<in> set xs. keeps x" "run_accepted exec xs s = (as, s')"
  shows "invar s' \<and> distinct (map fst as) \<and> distinct (map snd as)
    \<and> (\<forall>a \<in> set as. \<not> used_nullifier s (fst a) \<and> \<not> used_challenge s (snd a))
    \<and> (\<forall>n. used_nullifier s' n \<longleftrightarrow> used_nullifier s n \<or> n \<in> fst ` set as)
    \<and> (\<forall>c. used_challenge s' c \<longleftrightarrow> used_challenge s c \<or> c \<in> snd ` set as)"
  using assms
proof (induction xs arbitrary: s as s')
  case (Cons x xs)
  obtain r s1 where x: "exec x s = (r, s1)" by (cases "exec x s")
  obtain bs s2 where xs: "run_accepted exec xs s1 = (bs, s2)" by (cases "run_accepted exec xs s1")
  have kx: "keeps x" "\<forall>y \<in> set xs. keeps y" using Cons.prems(2) by auto
  show ?case
  proof (cases r)
    case None
    note n = not_accepted [OF Cons.prems(1) kx(1) x [unfolded None]]
    with Cons.IH [OF _ kx(2) xs] Cons.prems(3) x xs None show ?thesis by auto
  next
    case (Some a)
    then obtain n c where a: "r = Some (n, c)" by (cases a) auto
    note n = accepted [OF Cons.prems(1) kx(1) x [unfolded a]]
    have as: "as = (n, c) # bs" "s' = s2" using Cons.prems(3) x xs a by auto
    from Cons.IH [OF _ kx(2) xs] n have ih: "invar s2 \<and> distinct (map fst bs) \<and> distinct (map snd bs)
      \<and> (\<forall>a \<in> set bs. \<not> used_nullifier s1 (fst a) \<and> \<not> used_challenge s1 (snd a))
      \<and> (\<forall>n. used_nullifier s2 n \<longleftrightarrow> used_nullifier s1 n \<or> n \<in> fst ` set bs)
      \<and> (\<forall>c. used_challenge s2 c \<longleftrightarrow> used_challenge s1 c \<or> c \<in> snd ` set bs)" by blast
    then have nd: "n \<notin> fst ` set bs" "c \<notin> snd ` set bs" using n by auto
    have old: "\<forall>a \<in> set bs. \<not> used_nullifier s (fst a) \<and> \<not> used_challenge s (snd a)"
      using ih n by (metis fun_upd_other fun_upd_same)
    show ?thesis using ih nd n old by (auto simp: as)
  qed
qed auto

lemma run_no_reuse:
  assumes "invar s" "\<forall>x \<in> set xs. keeps x" "run_accepted exec xs s = (as, s')"
  shows "distinct (map fst as)" "distinct (map snd as)"
  using run_spec [OF assms] by blast+

end

interpretation sqlite_store: replay_store store_exec "\<lambda>x. \<not> is_clean x" db_wf consumed spent
proof
  fix s x s'
  assume s: "db_wf s" "\<not> is_clean x" "store_exec x s = (None, s')"
  show "db_wf s' \<and> consumed s' = consumed s \<and> spent s' = spent s"
  proof (cases x)
    case (OpCreate q ttl now rand)
    with s CreateChallenge_wf [OF s(1), of q ttl now rand] show ?thesis
      by (cases "CreateChallenge q ttl now rand s") auto
  next
    case (OpVerify q now n c pf ptype)
    with s VerifyAndRecord_error [of q now n c pf ptype s] show ?thesis
      by (auto split: prod.splits option.splits)
  qed (use s in auto)
next
  fix s x n c s'
  assume s: "db_wf s" "\<not> is_clean x" "store_exec x s = (Some (n, c), s')"
  then obtain q now pf ptype where "VerifyAndRecord q now n c pf ptype s = (None, s')"
    by (cases x) (auto split: prod.splits option.splits)
  from VerifyAndRecord_wf [OF s(1) this] show "db_wf s' \<and> \<not> consumed s c \<and> \<not> spent s n
      \<and> consumed s' = (consumed s)(c := True) \<and> spent s' = (spent s)(n := True)" by simp
qed

subsection \<open>The abstract specification\<close>

text \<open>
  Abstractly, a store is a partial map from challenges to their expiry and whether they are
  consumed, and a set of registered nullifiers.  \<open>spec_verify\<close> is the contract of
  \<open>Store.VerifyAndRecord\<close>: the checks in order, then one atomic update.
\<close>

record astore =
  as_challenges :: "string \<rightharpoonup> time \<times> bool"
  as_nullifiers :: "string set"

definition spec_verify :: "time \<Rightarrow> string \<Rightarrow> string \<Rightarrow> astore \<Rightarrow> err option \<times> astore" where
  "spec_verify now n c a =
     (case as_challenges a c of
        None \<Rightarrow> (Some (Sentinel ErrChallengeNotFound), a)
      | Some (expiry, done) \<Rightarrow>
          if expiry < now then (Some (Sentinel ErrChallengeExpired), a)
          else if done then (Some (Sentinel ErrChallengeConsumed), a)
          else if n \<in> as_nullifiers a then (Some (Sentinel ErrDuplicateNullifier), a)
          else (None, a\<lparr>as_challenges := (as_challenges a)(c \<mapsto> (expiry, True)),
                        as_nullifiers := insert n (as_nullifiers a)\<rparr>))"

definition abs_row :: "challenge_row \<Rightarrow> time \<times> bool" where
  "abs_row r = ((case parseTime (ch_expires_at r) of Inr t \<Rightarrow> t | Inl e \<Rightarrow> 0), ch_consumed_at r \<noteq> None)"

definition abs_db :: "db \<Rightarrow> astore" where
  "abs_db d = \<lparr>as_challenges = (\<lambda>c. map_option abs_row (List.find (\<lambda>r. ch_challenge r = c) (challenges d))),
               as_nullifiers = vr_nullifier ` set (verifications d)\<rparr>"

definition no_fault :: "sqlite \<Rightarrow> bool" where
  "no_fault q \<longleftrightarrow> (\<forall>k. sq_fault q k = None)"

definition unique_text_ok :: "sqlite \<Rightarrow> bool" where
  "unique_text_ok q \<longleftrightarrow> (\<forall>col. Contains (sq_unique_text q col) ''UNIQUE constraint failed'')"

lemma find_map_update:
  "(\<And>r. f (g r) = f r) \<Longrightarrow>
   List.find (\<lambda>r. f r = k) (map (\<lambda>r. if f r = c then g r else r) xs)
     = (if k = c then map_option g (List.find (\<lambda>r. f r = c) xs) else List.find (\<lambda>r. f r = k) xs)"
  by (induction xs) auto

lemma abs_with_verification:
  "abs_db (with_verification q n c p t d) =
     (abs_db d)\<lparr>as_challenges := (\<lambda>k. if k = c then map_option (\<lambda>(e, _). (e, True)) (as_challenges (abs_db d) c)
                                   else as_challenges (abs_db d) k),
               as_nullifiers := insert n (as_nullifiers (abs_db d))\<rparr>"
  unfolding abs_db_def with_verification_def
  by (auto simp: find_map_update fun_eq_iff abs_row_def option.map_comp comp_def)

lemma VerifyAndRecord_refines:
  assumes "no_fault q" "unique_text_ok q" "expiry_readable d"
  shows "spec_verify now n c (abs_db d)
    = (case VerifyAndRecord q now n c pf ptype d of (e, d') \<Rightarrow> (e, abs_db d'))"
proof (cases "List.find (\<lambda>r. ch_challenge r = c) (challenges d)")
  case None
  with assms(1) show ?thesis
    by (simp add: spec_verify_def VerifyAndRecord_def sql_defs no_fault_def abs_db_def)
next
  case (Some r)
  then have rin: "r \<in> set (challenges d)" "ch_challenge r = c" using find_SomeD by fastforce+
  with assms(3) obtain t where t: "parseTime (ch_expires_at r) = Inr t" by (auto simp: expiry_readable_def)
  have cin: "c \<in> ch_challenge ` set (challenges d)" using rin by blast
  have uv: "isUniqueViolation (External (sq_unique_text q ''verifications.nullifier''))"
    using assms(2) by (simp add: isUniqueViolation_def unique_text_ok_def)
  have ab: "as_challenges (abs_db d) c = Some (t, ch_consumed_at r \<noteq> None)"
    "as_nullifiers (abs_db d) = vr_nullifier ` set (verifications d)"
    using Some t by (simp_all add: abs_db_def abs_row_def)
  show ?thesis
  proof (cases "t < now \<or> ch_consumed_at r \<noteq> None \<or> n \<in> vr_nullifier ` set (verifications d)")
    case True
    with Some t assms(1) uv ab show ?thesis
      by (auto simp: spec_verify_def VerifyAndRecord_def sql_defs no_fault_def After_def Let_def)
  next
    case False
    then have "VerifyAndRecord q now n c pf ptype d = (None, with_verification q n c pf ptype d)"
      using Some t assms(1) cin
      by (simp add: VerifyAndRecord_def sql_defs no_fault_def After_def Let_def with_verification_def)
    with False ab show ?thesis
      by (auto simp: spec_verify_def abs_with_verification fun_eq_iff)
  qed
qed

subsection \<open>Reachable tables\<close>

text \<open>
  The states the tables go through: any request at any time, with any failure of the engine.
  Expiry times are assumed to fall in the years 0 to 9999, which RFC 3339 can print.
\<close>

inductive db_step :: "db \<Rightarrow> db \<Rightarrow> bool" where
  create: "four_digit_year (now + ttl) \<Longrightarrow> db_step d (snd (CreateChallenge q ttl now rand d))"
| verify: "db_step d (snd (VerifyAndRecord q now n c pf ptype d))"
| clean: "db_step d (snd (CleanDB q d))"

inductive db_reachable :: "db \<Rightarrow> bool" where
  start: "db_reachable empty_db"
| step: "db_reachable d \<Longrightarrow> db_step d d' \<Longrightarrow> db_reachable d'"

inductive_cases db_stepE: "db_step d d'"

lemma parseTime_format: "four_digit_year t \<Longrightarrow> parseTime (format_rfc3339 t) = Inr (to_second t)"
  by (simp add: parseTime_def parse_format_rfc3339)

lemma VerifyAndRecord_wf_step: "db_wf d \<Longrightarrow> db_wf (snd (VerifyAndRecord q now n c pf ptype d))"
  using VerifyAndRecord_wf [of d q now n c pf ptype] VerifyAndRecord_error [of q now n c pf ptype d]
  by (cases "VerifyAndRecord q now n c pf ptype d"; cases "fst (VerifyAndRecord q now n c pf ptype d)") auto

lemma expiry_readable_with_verification [simp]:
  "expiry_readable (with_verification q n c p t d) \<longleftrightarrow> expiry_readable d"
  unfolding expiry_readable_def with_verification_def by (simp del: if_image_distrib)

lemma VerifyAndRecord_readable:
  "expiry_readable d \<Longrightarrow> expiry_readable (snd (VerifyAndRecord q now n c pf ptype d))"
  using VerifyAndRecord_success [of q now n c pf ptype d] VerifyAndRecord_error [of q now n c pf ptype d]
  by (cases "VerifyAndRecord q now n c pf ptype d"; cases "fst (VerifyAndRecord q now n c pf ptype d)") auto

lemma CreateChallenge_readable:
  "four_digit_year (now + ttl) \<Longrightarrow> expiry_readable d \<Longrightarrow>
     expiry_readable (snd (CreateChallenge q ttl now rand d))"
proof (cases "CreateChallenge q ttl now rand d")
  case (Pair r d')
  assume "four_digit_year (now + ttl)" "expiry_readable d"
  with Pair CreateChallenge_cases [of q ttl now rand d] show ?thesis
    by (cases r) (force simp: expiry_readable_def parseTime_format)+
qed

lemma CleanDB_readable: "expiry_readable d \<Longrightarrow> expiry_readable (snd (CleanDB q d))"
  using CleanDB_Inl [of q d] CleanDB_Inr [of q d]
  by (cases "CleanDB q d"; cases "fst (CleanDB q d)") (auto simp: expiry_readable_def)

lemma db_step_inv: "db_step d d' \<Longrightarrow> db_wf d \<Longrightarrow> expiry_readable d \<Longrightarrow> db_wf d' \<and> expiry_readable d'"
proof (induction rule: db_step.induct)
  case (create now ttl d q rand)
  then show ?case using CreateChallenge_wf [of d q ttl now rand] CreateChallenge_readable
    by (cases "CreateChallenge q ttl now rand d") fastforce
qed (simp_all add: VerifyAndRecord_wf_step VerifyAndRecord_readable CleanDB_wf CleanDB_readable)

lemma db_reachable_inv: "db_reachable d \<Longrightarrow> db_wf d \<and> expiry_readable d"
proof (induction rule: db_reachable.induct)
  case start
  show ?case by (simp add: db_wf_def expiry_readable_def empty_db_def consumed_def)
qed (use db_step_inv in blast)

subsection \<open>The challenge value\<close>

text \<open>Clearing the top two bits of the first seed byte is reducing the seed modulo \<open>2 ^ 254\<close>.\<close>

lemma unat_and_3f: "unat (and b 0x3f :: byte) = unat b mod 64"
proof -
  have "and b 0x3f = take_bit 6 b" by (simp add: take_bit_eq_mask mask_eq_exp_minus_1)
  then have "unat (and b 0x3f) = take_bit 6 (unat b)" by (simp only: unsigned_take_bit_eq)
  then show ?thesis by (simp add: take_bit_eq_mod)
qed

lemma mod_head:
  fixes b r k :: nat
  assumes "r < k"
  shows "(b * k + r) mod (64 * k) = b mod 64 * k + r"
proof -
  have "b mod 64 * k + r < 64 * k"
  proof -
    have "b mod 64 * k \<le> 63 * k" by (rule mult_right_mono) simp_all
    with assms show ?thesis by linarith
  qed
  moreover have "b * k + r = (b mod 64 * k + r) + 64 * k * (b div 64)"
    by (metis (no_types, opaque_lifting) add.assoc add.commute distrib_right mod_mult_div_eq mult.assoc mult.commute)
  ultimately show ?thesis by (metis mod_less mod_mult_self2)
qed

lemma SetBytes_masked:
  assumes "length seed = 32"
  shows "SetBytes (seed[0 := and (seed ! 0) 0x3f]) = SetBytes seed mod 2 ^ 254"
proof -
  obtain b bs where s: "seed = b # bs" "length bs = 31" using assms by (cases seed) auto
  have "(64 :: nat) * 256 ^ 31 = 2 ^ 254" by simp
  with mod_head [of "SetBytes bs" "256 ^ 31" "unat b"] SetBytes_less [of bs] s show ?thesis
    by (simp add: SetBytes_Cons unat_and_3f)
qed

lemma challenge_of_seed_eq:
  "length seed = 32 \<Longrightarrow> challenge_of_seed seed = Int_String (int (SetBytes seed mod 2 ^ 254))"
  by (simp add: challenge_of_seed_def SetBytes_masked)

lemma SetBytes_bij:
  assumes "0 < k"
  shows "bij_betw SetBytes {bs. length bs = k} {..< 256 ^ k}"
proof (rule bij_betw_imageI)
  show "inj_on SetBytes {bs. length bs = k}" by (auto intro!: inj_onI SetBytes_inj)
  show "SetBytes ` {bs. length bs = k} = {..< 256 ^ k}"
  proof (intro equalityI subsetI)
    fix n assume "n \<in> SetBytes ` {bs. length bs = k}"
    then show "n \<in> {..< 256 ^ k}" using SetBytes_less by auto
  next
    fix n :: nat assume "n \<in> {..< 256 ^ k}"
    then obtain bs where "FillBytes k n = Some bs" using FillBytes_fits [OF assms] by auto
    then show "n \<in> SetBytes ` {bs. length bs = k}" using FillBytes_Some by blast
  qed
qed

lemma residues_four:
  fixes p v :: nat
  assumes "v < p"
  shows "{n. n < p * 4 \<and> n mod p = v} = (\<lambda>k. v + k * p) ` {..< 4}" (is "?l = ?r")
proof (intro equalityI subsetI)
  fix n assume n: "n \<in> ?l"
  then have "n div p < 4" by (simp add: less_mult_imp_div_less mult.commute)
  moreover have "n = v + n div p * p" using n by auto
  ultimately show "n \<in> ?r" by blast
next
  fix n assume "n \<in> ?r"
  then obtain k where k: "k < 4" "n = v + k * p" by auto
  have "n < Suc k * p" using assms k by simp
  also have "\<dots> \<le> 4 * p" using k by (intro mult_right_mono) simp_all
  finally show "n \<in> ?l" using assms k by (simp add: mult.commute)
qed

lemma card_residues_four:
  fixes p v :: nat
  assumes "v < p"
  shows "card {n. n < p * 4 \<and> n mod p = v} = 4"
  unfolding residues_four [OF assms] using assms by (subst card_image) (auto simp: inj_on_def)

lemma card_preimage:
  assumes "bij_betw f A B"
  shows "card {x. x \<in> A \<and> P (f x)} = card {y. y \<in> B \<and> P y}"
proof -
  have "f ` {x. x \<in> A \<and> P (f x)} = {y. y \<in> B \<and> P y}" using assms by (auto simp: bij_betw_def)
  moreover have "inj_on f {x. x \<in> A \<and> P (f x)}"
    using assms by (auto simp: bij_betw_def inj_on_def)
  ultimately show ?thesis by (metis card_image)
qed

lemma card_seeds:
  assumes "v < 2 ^ 254"
  shows "card {seed. length seed = 32 \<and> challenge_of_seed seed = Int_String (int v)} = 4"
proof -
  define p :: nat where "p = 2 ^ 254"
  have p: "(256 :: nat) ^ 32 = p * 4" by (simp add: p_def)
  have "{seed. length seed = 32 \<and> challenge_of_seed seed = Int_String (int v)}
      = {seed. seed \<in> {bs. length bs = 32} \<and> SetBytes seed mod p = v}"
    by (auto simp: challenge_of_seed_eq p_def simp del: power_numeral)
  also have "card \<dots> = card {n. n \<in> {..< 256 ^ 32} \<and> n mod p = v}"
    by (rule card_preimage [where P = "\<lambda>n. n mod p = v"]) (rule SetBytes_bij, simp)
  also have "\<dots> = 4" unfolding p using card_residues_four [of v p] assms by (simp add: p_def)
  finally show ?thesis .
qed

subsection \<open>Runs and their log\<close>

definition log_of :: "db \<Rightarrow> (string \<times> string) list" where
  "log_of d = map (\<lambda>v. (vr_nullifier v, vr_challenge v)) (verifications d)"

lemma log_with_verification [simp]: "log_of (with_verification q n c p t d) = log_of d @ [(n, c)]"
  by (simp add: log_of_def with_verification_def)

lemma log_CreateChallenge: "log_of (snd (CreateChallenge q ttl now rand d)) = log_of d"
  using CreateChallenge_cases [of q ttl now rand d]
  by (cases "CreateChallenge q ttl now rand d"; cases "fst (CreateChallenge q ttl now rand d)")
    (fastforce simp: log_of_def)+

lemma log_store_exec:
  assumes "\<not> is_clean x" "store_exec x d = (r, d')"
  shows "log_of d' = log_of d @ (case r of None \<Rightarrow> [] | Some a \<Rightarrow> [a])"
proof (cases x)
  case (OpVerify q now n c pf ptype)
  with assms show ?thesis
    using VerifyAndRecord_success [of q now n c pf ptype d] VerifyAndRecord_error [of q now n c pf ptype d]
    by (cases "VerifyAndRecord q now n c pf ptype d"; cases "fst (VerifyAndRecord q now n c pf ptype d)")
      fastforce+
qed (use assms log_CreateChallenge in auto)

lemma log_run:
  "\<forall>x \<in> set xs. \<not> is_clean x \<Longrightarrow> run_accepted store_exec xs d = (as, d') \<Longrightarrow> log_of d' = log_of d @ as"
proof (induction xs arbitrary: d as d')
  case (Cons x xs)
  obtain r d1 where x: "store_exec x d = (r, d1)" by (cases "store_exec x d")
  obtain bs d2 where xs: "run_accepted store_exec xs d1 = (bs, d2)" by (cases "run_accepted store_exec xs d1")
  have "log_of d2 = log_of d1 @ bs" using Cons.IH [OF _ xs] Cons.prems(1) by simp
  moreover have "log_of d1 = log_of d @ (case r of None \<Rightarrow> [] | Some a \<Rightarrow> [a])"
    using log_store_exec [OF _ x] Cons.prems(1) by simp
  ultimately show ?case using Cons.prems(2) x xs by (auto split: option.splits)
qed simp

subsection \<open>A concrete engine\<close>

text \<open>An engine without failures, with the texts of \<open>modernc.org/sqlite\<close>'s constraint errors.\<close>

definition quiet_sqlite :: "time \<Rightarrow> sqlite" where
  "quiet_sqlite now = \<lparr>sq_fault = (\<lambda>_. None), sq_now = now,
     sq_unique_text = (\<lambda>col. ''constraint failed: UNIQUE constraint failed: '' @ col @ '' (2067)''),
     sq_foreign_text = ''constraint failed: FOREIGN KEY constraint failed (787)''\<rparr>"

lemma quiet_sqlite_ok [simp]: "no_fault (quiet_sqlite now)" "unique_text_ok (quiet_sqlite now)"
  by (simp_all add: no_fault_def unique_text_ok_def quiet_sqlite_def)

lemma four_digit_year_0: "four_digit_year 0"
  by (simp add: four_digit_year_def date_of_def civil_of_days_def year_of_day_def Let_def days_before_year_def)

definition one_challenge :: db where
  "one_challenge = snd (CreateChallenge (quiet_sqlite 0) 0 0 (Inr (replicate 32 0)) empty_db)"

lemma challenge_of_zero_seed: "challenge_of_seed (replicate 32 0) = ''0''"
  using SetBytes_zeros [of 32 "[]"]
  by (simp add: challenge_of_seed_eq Int_String_def nat_string_def digits_of.simps digit_char_def char_of_def bit_0)

lemma one_challenge_eq:
  "one_challenge = \<lparr>challenges = [\<lparr>ch_challenge = ''0'', ch_issued_at = format_datetime 0,
      ch_expires_at = format_rfc3339 0, ch_consumed_at = None\<rparr>], verifications = [], next_id = 1\<rparr>"
  by (simp add: one_challenge_def CreateChallenge_def challenge_of_zero_seed sql_defs quiet_sqlite_def
      empty_db_def Let_def)

lemma one_challenge_reachable: "db_reachable one_challenge"
  unfolding one_challenge_def
  by (rule db_reachable.step [OF db_reachable.start]) (rule db_step.create, simp add: four_digit_year_0)

lemma parse_expiry_0: "parseTime (format_rfc3339 0) = Inr 0"
  by (simp add: parseTime_format four_digit_year_0 to_second_def)

subsection \<open>Properties\<close>

text \<open>C11: on every reachable state of the tables and with an engine that does not fail,
  \<open>VerifyAndRecord\<close> does what the abstract contract says: the checks (known, not expired, not
  consumed, nullifier new) in that order, the sentinel of the first that fails, and otherwise the
  challenge marked consumed and the nullifier registered in one step.\<close>

theorem verify_and_record_refines_contract:
  assumes "db_reachable d" and "no_fault q" and "unique_text_ok q"
  shows "spec_verify now n c (abs_db d)
    = (case VerifyAndRecord q now n c pf ptype d of (e, d') \<Rightarrow> (e, abs_db d'))"
  using VerifyAndRecord_refines assms db_reachable_inv by blast

theorem verify_and_record_refines_contract_witness:
  "spec_verify 0 ''n'' ''0'' (abs_db one_challenge)
    = (case VerifyAndRecord (quiet_sqlite 0) 0 ''n'' ''0'' None '''' one_challenge of (e, d') \<Rightarrow> (e, abs_db d'))
   \<and> fst (spec_verify 0 ''n'' ''0'' (abs_db one_challenge)) = None"
  by (rule conjI [OF verify_and_record_refines_contract [OF one_challenge_reachable]])
    (simp_all add: spec_verify_def abs_db_def one_challenge_eq abs_row_def parse_expiry_0)

text \<open>C12: no replay.  In any run of requests that does not wipe the store, from any reachable
  state and with any failures of the engine, no nullifier and no challenge is accepted twice, none
  that was used before is accepted, and the verifications table records exactly the accepted pairs,
  in order, after those it held.\<close>

theorem no_replay:
  assumes "db_reachable d" and "\<forall>x \<in> set xs. \<not> is_clean x"
    and "run_accepted store_exec xs d = (as, d')"
  shows "distinct (map fst as) \<and> distinct (map snd as)
    \<and> (\<forall>a \<in> set as. \<not> spent d (fst a) \<and> \<not> consumed d (snd a))
    \<and> map (\<lambda>v. (vr_nullifier v, vr_challenge v)) (verifications d')
        = map (\<lambda>v. (vr_nullifier v, vr_challenge v)) (verifications d) @ as"
  using sqlite_store.run_spec [OF conjunct1 [OF db_reachable_inv [OF assms(1)]] assms(2,3)]
    log_run [OF assms(2,3)] by (simp add: log_of_def)

theorem no_replay_witness:
  "\<exists>as d'. run_accepted store_exec
      [OpVerify (quiet_sqlite 0) 0 ''n'' ''0'' None '''', OpVerify (quiet_sqlite 0) 0 ''m'' ''0'' None '''']
      one_challenge = (as, d') \<and> as = [(''n'', ''0'')] \<and> distinct (map fst as)"
proof -
  obtain as d' where r: "run_accepted store_exec
      [OpVerify (quiet_sqlite 0) 0 ''n'' ''0'' None '''', OpVerify (quiet_sqlite 0) 0 ''m'' ''0'' None '''']
      one_challenge = (as, d')" by fastforce
  then have "as = [(''n'', ''0'')]"
    by (simp add: one_challenge_eq VerifyAndRecord_def sql_defs quiet_sqlite_def parse_expiry_0
        After_def Let_def)
  moreover have "distinct (map fst as)" using no_replay [OF one_challenge_reachable _ r] by simp
  ultimately show ?thesis using r by blast
qed

text \<open>\<open>VerifyAndRecord\<close> is atomic on every state and for every failure of the engine: an
  error leaves the tables as they were, and success means that the challenge was stored, unexpired
  at \<open>now\<close> and unconsumed, the nullifier new, and the result is exactly one added row and the
  challenge marked.\<close>

theorem verify_and_record_atomic:
  "case VerifyAndRecord q now n c pf ptype d of
     (Some e, d') \<Rightarrow> d' = d
   | (None, d') \<Rightarrow>
       (\<exists>r t. List.find (\<lambda>r. ch_challenge r = c) (challenges d) = Some r
          \<and> parseTime (ch_expires_at r) = Inr t \<and> now \<le> t \<and> ch_consumed_at r = None)
       \<and> n \<notin> vr_nullifier ` set (verifications d)
       \<and> d' = d\<lparr>challenges := map (\<lambda>r. if ch_challenge r = c
              then r\<lparr>ch_consumed_at := Some (format_datetime (sq_now q))\<rparr> else r) (challenges d),
            verifications := verifications d @
              [\<lparr>vr_id = next_id d, vr_nullifier = n, vr_id_verified = True, vr_id_proof = pf,
                vr_proof_type = (if ptype = '''' then ''tbs'' else ptype),
                vr_verified_at = format_datetime (sq_now q), vr_challenge = c\<rparr>],
            next_id := Suc (next_id d)\<rparr>"
  using VerifyAndRecord_success [of q now n c pf ptype d] VerifyAndRecord_error [of q now n c pf ptype d]
  by (fastforce simp: with_verification_def spent_def split: prod.split option.split)

text \<open>C24: the invariant of the tables holds in every reachable state: keys are unique, the
  challenges named by verifications are exactly the consumed ones, none twice, ids are fresh, and
  every stored expiry can be read back.\<close>

theorem reachable_tables_invariant:
  assumes "db_reachable d"
  shows "db_wf d \<and> expiry_readable d"
  using db_reachable_inv [OF assms] .

theorem reachable_tables_invariant_witness: "db_wf one_challenge \<and> expiry_readable one_challenge"
  by (rule reachable_tables_invariant [OF one_challenge_reachable])

text \<open>A challenge that \<open>CreateChallenge\<close> returns was not stored before, is a decimal number
  below \<open>2 ^ 254\<close> in the form \<open>NormalizeDecimal\<close> produces, and \<open>GetChallenge\<close> finds it at once,
  with the expiry cut to the second.\<close>

theorem create_then_get:
  assumes "CreateChallenge q ttl now (Inr seed) d = (Inr c, d')" and "length seed = 32"
    and "four_digit_year (now + ttl)" and "no_fault q'"
  shows "c_Challenge c \<notin> ch_challenge ` set (challenges d)
    \<and> (\<exists>v < 2 ^ 254. c_Challenge c = Int_String (int v))
    \<and> NormalizeDecimal (c_Challenge c) = Inr (c_Challenge c)
    \<and> GetChallenge q' (c_Challenge c) d'
        = Inr (Some \<lparr>c_Challenge = c_Challenge c, c_ExpiresAt = to_second (now + ttl)\<rparr>)"
proof -
  note cc = CreateChallenge_cases(2) [OF assms(1)]
  have new: "c_Challenge c \<notin> ch_challenge ` set (challenges d)" using cc by (auto simp: known_def)
  have val: "c_Challenge c = Int_String (int (SetBytes seed mod 2 ^ 254))"
    using cc challenge_of_seed_eq [OF assms(2)] by auto
  have find_last: "k \<notin> ch_challenge ` set rs \<Longrightarrow>
      List.find (\<lambda>r. ch_challenge r = k) (rs @ [r]) = (if ch_challenge r = k then Some r else None)"
    for k rs and r :: challenge_row by (induction rs) auto
  have "GetChallenge q' (c_Challenge c) d'
        = Inr (Some \<lparr>c_Challenge = c_Challenge c, c_ExpiresAt = to_second (now + ttl)\<rparr>)"
    using cc new assms(3,4)
    by (auto simp: GetChallenge_def sql_defs no_fault_def find_last parseTime_format)
  moreover have "SetBytes seed mod 2 ^ 254 < 2 ^ 254" by (rule mod_less_divisor) simp
  ultimately show ?thesis using new val by (metis NormalizeDecimal_Int_String)
qed

theorem create_then_get_witness:
  "GetChallenge (quiet_sqlite 0) ''0'' one_challenge
     = Inr (Some \<lparr>c_Challenge = ''0'', c_ExpiresAt = 0\<rparr>)"
proof -
  have "CreateChallenge (quiet_sqlite 0) 0 0 (Inr (replicate 32 0)) empty_db
      = (Inr \<lparr>c_Challenge = ''0'', c_ExpiresAt = 0\<rparr>, one_challenge)"
    by (simp add: one_challenge_eq CreateChallenge_def challenge_of_zero_seed sql_defs quiet_sqlite_def
        empty_db_def Let_def)
  from create_then_get [OF this, of "quiet_sqlite 0"] show ?thesis
    by (simp add: four_digit_year_0 to_second_def)
qed

text \<open>C32: challenges are uniform: every value below \<open>2 ^ 254\<close> comes from exactly four of the
  32-byte seeds, so masking the top two bits adds no bias.\<close>

theorem challenge_uniform:
  assumes "v < 2 ^ 254"
  shows "card {seed. length seed = 32 \<and> challenge_of_seed seed = Int_String (int v)} = 4"
  by (rule card_seeds [OF assms])

theorem challenge_uniform_witness:
  "card {seed. length seed = 32 \<and> challenge_of_seed seed = Int_String (int 7)} = 4"
  by (rule challenge_uniform) simp

text \<open>\<open>CleanDB\<close> with an engine that does not fail empties both tables and reports the number
  of challenges, then of verifications; deleting the verifications first means the foreign key never
  stops it, whatever the tables hold.  The next row id is kept.\<close>

theorem clean_db_empties:
  assumes "no_fault q"
  shows "CleanDB q d = (Inr (length (challenges d), length (verifications d)),
    d\<lparr>challenges := [], verifications := []\<rparr>)"
  using assms by (simp add: CleanDB_def sql_defs no_fault_def)

theorem clean_db_empties_witness:
  "CleanDB (quiet_sqlite 0) one_challenge = (Inr (1, 0), empty_db)"
  using clean_db_empties [of "quiet_sqlite 0" one_challenge] by (simp add: one_challenge_eq empty_db_def)

text \<open>Opening a database migrates it: on success the \<open>verifications\<close> table has the column
  \<open>proof_type\<close>, opening again changes nothing, and on failure no connection is left open.\<close>

theorem migration_idempotent:
  assumes "NewSQLiteStore o' ttl f = (r, f')" and "so_alter o' = None" and "\<not> conn_open f"
  shows "case r of
      Inl e \<Rightarrow> \<not> conn_open f'
    | Inr t \<Rightarrow> t = ttl \<and> conn_open f'
        \<and> (\<exists>cols. verification_columns f' = Some cols \<and> ''proof_type'' \<in> set cols)
        \<and> NewSQLiteStore o' ttl f' = (Inr ttl, f')"
  using assms
  by (auto simp: NewSQLiteStore_def create_if_not_exists_def alter_add_column_def Let_def
      schema_columns_def error_contains_def split: option.splits if_splits sum.splits)

theorem migration_idempotent_witness:
  "NewSQLiteStore \<lparr>so_open = None, so_pragma = None, so_schema = None, so_alter = None\<rparr> 5
     \<lparr>verification_columns = Some [''id'', ''nullifier'', ''proof_type''], conn_open = True\<rparr>
   = (Inr 5, \<lparr>verification_columns = Some [''id'', ''nullifier'', ''proof_type''], conn_open = True\<rparr>)"
  using migration_idempotent [of "\<lparr>so_open = None, so_pragma = None, so_schema = None, so_alter = None\<rparr>" 5
      "\<lparr>verification_columns = Some [''id'', ''nullifier''], conn_open = False\<rparr>" "Inr 5"
      "\<lparr>verification_columns = Some [''id'', ''nullifier'', ''proof_type''], conn_open = True\<rparr>"]
  by (simp add: NewSQLiteStore_def create_if_not_exists_def alter_add_column_def)

end
