(* ===== verification/Link_Service.thy ===== *)
theory Link_Service
  imports Link_Verify Store_Spec
begin

text \<open>
  \<open>linkverify/service.go\<close>: the request of a client, from the proof verifier through the challenge
  lookup to the record in the store.  The proof verifier and the store are interfaces of the code
  (\<open>ProofVerifier\<close>, \<open>store.Store\<close>), so the service is a function of their operations; the locales
  \<open>proof_verifier\<close> and \<open>replay_store\<close> state what it relies on, and both are interpreted on the
  program's own verifier and store.  The lookup and the record are separate transactions: other
  requests may run between them, so the lookup may return anything the store ever held.
\<close>

subsection \<open>The service\<close>

record ProcessResult =
  p_Result :: Result
  p_Nullifier :: string
  p_Persisted :: bool

text \<open>
  \<open>record\<close> is \<open>store.VerifyAndRecord\<close> as a step of the state of the store.  Go returns a result and
  an error, both possibly non-nil.
\<close>

definition finalize ::
  "(string \<Rightarrow> string \<Rightarrow> string option \<Rightarrow> string \<Rightarrow> 's \<Rightarrow> err option \<times> 's) \<Rightarrow> string \<Rightarrow> string \<Rightarrow> ProofType
    \<Rightarrow> Result \<Rightarrow> 's \<Rightarrow> (ProcessResult option \<times> err option) \<times> 's" where
  "finalize rcd challenge nullifier pt r s =
     (let res = \<lparr>p_Result = r, p_Nullifier = nullifier, p_Persisted = False\<rparr> in
      case rcd nullifier challenge None (StoreKey pt) s of
        (Some e, s') \<Rightarrow> ((Some res, Some e), s')
      | (None, s') \<Rightarrow> ((Some (res\<lparr>p_Persisted := True\<rparr>), None), s'))"

text \<open>
  \<open>vres\<close> is what \<open>verifier.Verify\<close> returned for the request; \<open>check\<close>, \<open>get\<close> and \<open>rcd\<close> are the
  operations \<open>CheckChallenge\<close>, \<open>GetChallenge\<close> and \<open>VerifyAndRecord\<close>.
\<close>

definition Service_VerifyAndRecord ::
  "(ParsedInputs \<Rightarrow> string \<Rightarrow> ChallengeOutcome) \<Rightarrow> (string \<Rightarrow> Challenge option result)
    \<Rightarrow> (string \<Rightarrow> string \<Rightarrow> string option \<Rightarrow> string \<Rightarrow> 's \<Rightarrow> err option \<times> 's)
    \<Rightarrow> time \<Rightarrow> Result result \<Rightarrow> Request \<Rightarrow> 's \<Rightarrow> (ProcessResult option \<times> err option) \<times> 's" where
  "Service_VerifyAndRecord check get rcd now vres req s =
     (case vres of
        Inl e \<Rightarrow> ((None, Some e), s)
      | Inr r \<Rightarrow>
          if \<not> r_Verified r
          then let nullifier = (case r_Parsed r of None \<Rightarrow> '''' | Some p \<Rightarrow> pi_Nullifier p)
               in ((Some \<lparr>p_Result = r, p_Nullifier = nullifier, p_Persisted = False\<rparr>, None), s)
          else
            let parsed = the (r_Parsed r);
                partial = \<lparr>p_Result = r, p_Nullifier = pi_Nullifier parsed, p_Persisted = False\<rparr>
            in (case NormalizeDecimal (pi_Challenge parsed) of
                  Inl e \<Rightarrow> ((Some partial, Some (Wrapf ''challenge signal: %w'' [] e)), s)
                | Inr challengeKey \<Rightarrow>
               (case get challengeKey of
                  Inl e \<Rightarrow> ((Some partial, Some e), s)
                | Inr None \<Rightarrow> ((Some partial, Some (Sentinel ErrChallengeNotFound)), s)
                | Inr (Some c) \<Rightarrow>
                    if After now (c_ExpiresAt c)
                    then ((Some partial, Some (Sentinel ErrChallengeExpired)), s)
                    else
                      let outcome = check parsed challengeKey; r1 = r\<lparr>r_Challenge := Some outcome\<rparr>
                      in if \<not> co_Match outcome
                         then ((Some \<lparr>p_Result = r1\<lparr>r_Verified := False, r_Reason := ReasonChallengeMismatch\<rparr>,
                                      p_Nullifier = pi_Nullifier parsed, p_Persisted = False\<rparr>, None), s)
                         else finalize rcd challengeKey (pi_Nullifier parsed) (rq_ProofType req) r1 s)))"

text \<open>The service on the SQLite store; \<open>q1\<close> and \<open>q2\<close> are the engine at its two transactions,
  \<open>d0\<close> the tables at the lookup and \<open>d\<close> at the record.\<close>

definition sqlite_service ::
  "sqlite \<Rightarrow> sqlite \<Rightarrow> time \<Rightarrow> time \<Rightarrow> db \<Rightarrow> Result result \<Rightarrow> Request \<Rightarrow> db
    \<Rightarrow> (ProcessResult option \<times> err option) \<times> db" where
  "sqlite_service q1 q2 now1 now2 d0 vres req d =
     Service_VerifyAndRecord CheckChallenge (\<lambda>c. GetChallenge q1 c d0)
       (VerifyAndRecord q2 now2) now1 vres req d"

text \<open>The service returns without an error in three ways: the verifier said no, the challenge check
  said no, or the store recorded the verification.\<close>

lemma finalize_ok:
  "finalize rcd k n pt r s = ((Some res, None), s') \<longleftrightarrow>
     res = \<lparr>p_Result = r, p_Nullifier = n, p_Persisted = True\<rparr> \<and> rcd n k None (StoreKey pt) s = (None, s')"
  by (auto simp: finalize_def Let_def split: prod.splits option.splits)

lemma Service_ok:
  assumes "Service_VerifyAndRecord check get rcd now vres req s = ((Some res, None), s')"
  obtains (rejected) r where "vres = Inr r" "\<not> r_Verified r" "p_Result res = r" "\<not> p_Persisted res" "s' = s"
  | (mismatch) r k where "vres = Inr r" "r_Verified r"
      "NormalizeDecimal (pi_Challenge (the (r_Parsed r))) = Inr k" "\<not> co_Match (check (the (r_Parsed r)) k)"
      "r_Reason (p_Result res) = ReasonChallengeMismatch" "\<not> p_Persisted res" "s' = s"
  | (recorded) r k c where "vres = Inr r" "r_Verified r"
      "NormalizeDecimal (pi_Challenge (the (r_Parsed r))) = Inr k" "co_Match (check (the (r_Parsed r)) k)"
      "get k = Inr (Some c)" "now \<le> c_ExpiresAt c"
      "res = \<lparr>p_Result = r\<lparr>r_Challenge := Some (check (the (r_Parsed r)) k)\<rparr>,
              p_Nullifier = pi_Nullifier (the (r_Parsed r)), p_Persisted = True\<rparr>"
      "rcd (pi_Nullifier (the (r_Parsed r))) k None (StoreKey (rq_ProofType req)) s = (None, s')"
proof (cases vres)
  case (Inl e)
  with assms show ?thesis by (simp add: Service_VerifyAndRecord_def)
next
  case (Inr r)
  show ?thesis
  proof (cases "r_Verified r")
    case False
    with assms Inr have "p_Result res = r" "\<not> p_Persisted res" "s' = s"
      by (auto simp: Service_VerifyAndRecord_def Let_def)
    with Inr False show ?thesis by (rule rejected)
  next
    case True
    obtain k where k: "NormalizeDecimal (pi_Challenge (the (r_Parsed r))) = Inr k"
      using assms Inr True
      by (cases "NormalizeDecimal (pi_Challenge (the (r_Parsed r)))") (auto simp: Service_VerifyAndRecord_def Let_def)
    obtain c where c: "get k = Inr (Some c)"
      using assms Inr True k by (auto simp: Service_VerifyAndRecord_def Let_def split: sum.splits option.splits)
    have e: "now \<le> c_ExpiresAt c"
      using assms Inr True k c by (auto simp: Service_VerifyAndRecord_def Let_def After_def split: if_splits)
    show ?thesis
    proof (cases "co_Match (check (the (r_Parsed r)) k)")
      case False
      with assms Inr True k c e have "r_Reason (p_Result res) = ReasonChallengeMismatch" "\<not> p_Persisted res" "s' = s"
        by (auto simp: Service_VerifyAndRecord_def Let_def After_def)
      with Inr True k False show ?thesis by (rule mismatch)
    next
      case m: True
      with assms Inr True k c e have
        "res = \<lparr>p_Result = r\<lparr>r_Challenge := Some (check (the (r_Parsed r)) k)\<rparr>,
              p_Nullifier = pi_Nullifier (the (r_Parsed r)), p_Persisted = True\<rparr>"
        "rcd (pi_Nullifier (the (r_Parsed r))) k None (StoreKey (rq_ProofType req)) s = (None, s')"
        by (auto simp: Service_VerifyAndRecord_def Let_def After_def finalize_ok)
      with Inr True k m c e show ?thesis by (rule recorded)
    qed
  qed
qed

subsection \<open>The interface of a proof verifier\<close>

text \<open>
  What the service relies on: a verified result carries its parsed inputs, and the challenge check
  passes exactly when the proof's challenge normalises to the expected key.
\<close>

locale proof_verifier =
  fixes verify :: "'env \<Rightarrow> Request \<Rightarrow> Result result"
    and check :: "ParsedInputs \<Rightarrow> string \<Rightarrow> ChallengeOutcome"
  assumes verified_parsed: "verify env req = Inr r \<Longrightarrow> r_Verified r \<Longrightarrow> \<exists>p. r_Parsed r = Some p"
    and verified_reason: "verify env req = Inr r \<Longrightarrow> r_Verified r \<longleftrightarrow> r_Reason r = ''''"
    and no_challenge_reason: "verify env req = Inr r \<Longrightarrow> r_Reason r \<noteq> ReasonChallengeMismatch"
    and check_match: "NormalizeDecimal (pi_Challenge p) = Inr k \<Longrightarrow> co_Match (check p e) \<longleftrightarrow> k = e"
begin

text \<open>The service never finds a challenge mismatch, because it compares the proof's challenge with
  the key it derived from it.\<close>

lemma no_mismatch:
  assumes "Service_VerifyAndRecord check get rcd now (verify env req) req s = ((Some res, None), s')"
  shows "r_Reason (p_Result res) \<noteq> ReasonChallengeMismatch
    \<and> (r_Verified (p_Result res) \<longleftrightarrow> p_Persisted res)
    \<and> (r_Verified (p_Result res) \<longleftrightarrow> r_Reason (p_Result res) = '''')"
  using assms
proof (cases rule: Service_ok)
  case (rejected r)
  then show ?thesis using verified_reason [of env req r] no_challenge_reason [of env req r] by simp
next
  case (mismatch r k)
  then show ?thesis using check_match by simp
next
  case (recorded r k c)
  then show ?thesis using verified_reason [of env req r] no_challenge_reason [of env req r] by simp
qed

lemma persisted:
  assumes "Service_VerifyAndRecord check get rcd now (verify env req) req s = ((Some res, None), s')"
    and "p_Persisted res"
  shows "\<exists>r p k c. verify env req = Inr r \<and> r_Verified r \<and> r_Parsed r = Some p
    \<and> NormalizeDecimal (pi_Challenge p) = Inr k
    \<and> get k = Inr (Some c) \<and> now \<le> c_ExpiresAt c
    \<and> rcd (pi_Nullifier p) k None (StoreKey (rq_ProofType req)) s = (None, s')
    \<and> p_Nullifier res = pi_Nullifier p \<and> r_Parsed (p_Result res) = Some p"
  using assms(1)
proof (cases rule: Service_ok)
  case (recorded r k c)
  with verified_parsed obtain p where p: "r_Parsed r = Some p" by blast
  show ?thesis
    by (rule exI [of _ r], rule exI [of _ p], rule exI [of _ k], rule exI [of _ c]) (use recorded p in simp)
qed (use assms(2) in simp_all)

end

lemma Verifier_result:
  assumes "Verifier_Verify osv ff later now v req fs0 = (Inr r, fs1)"
  obtains (invalid) sg where "r = new_result False ReasonProofInvalid sg None"
  | (checked) parsed a b c where "r_Parsed r = Some parsed" "r_Verified r \<longleftrightarrow> a \<and> b \<and> c"
      "r_Reason r = (if \<not> a then ReasonSmtRootMismatch else if \<not> b then ReasonIssuerModulusMismatch
                     else if \<not> c then ReasonAppIDMismatch else '''')"
proof (cases "fst (Verify osv ff req (v_KeysDir v) fs0)")
  case (Inl e)
  with Verifier_Verify_Inr [OF assms] show ?thesis by simp
next
  case (Inr w)
  then obtain ok sg where w: "fst (Verify osv ff req (v_KeysDir v) fs0) = Inr (ok, sg)" by (cases w) auto
  show ?thesis
  proof (cases ok)
    case True
    from Verifier_Verify_Inr [OF assms, unfolded w True sum.case prod.case bool.case] obtain parsed where
      "r_Parsed r = Some parsed"
      "r_Verified r \<longleftrightarrow> smt_ok v (rq_ProofType req) parsed \<and> issuer_ok v (rq_ProofType req) parsed \<and> app_ok v parsed"
      "r_Reason r = (if \<not> smt_ok v (rq_ProofType req) parsed then ReasonSmtRootMismatch
              else if \<not> issuer_ok v (rq_ProofType req) parsed then ReasonIssuerModulusMismatch
              else if \<not> app_ok v parsed then ReasonAppIDMismatch else '''')"
      using True by auto
    then show ?thesis by (rule checked)
  next
    case False
    with Verifier_Verify_Inr [OF assms] w have "r = new_result False ReasonProofInvalid sg None" by simp
    then show ?thesis by (rule invalid)
  qed
qed

interpretation link_verifier: proof_verifier
  "\<lambda>(osv, ff, later, now, v, fs) req. fst (Verifier_Verify osv ff later now (v :: 's Verifier) req fs)" CheckChallenge
proof
  fix env :: "os \<times> ffi \<times> ('s Provider \<Rightarrow> 's Provider) \<times> time \<times> 's Verifier \<times> fs" and req r
  assume a: "(\<lambda>(osv, ff, later, now, v, fs) req. fst (Verifier_Verify osv ff later now v req fs)) env req = Inr r"
  obtain osv ff later now and v :: "'s Verifier" and fs where env: "env = (osv, ff, later, now, v, fs)"
    by (metis prod_cases6)
  obtain fs1 where v: "Verifier_Verify osv ff later now v req fs = (Inr r, fs1)"
    using a unfolding env by (metis case_prod_conv prod.collapse)
  show "r_Verified r \<Longrightarrow> \<exists>p. r_Parsed r = Some p"
    using v by (cases rule: Verifier_result) (simp_all add: new_result_def)
  show "r_Verified r \<longleftrightarrow> r_Reason r = ''''"
    using v by (cases rule: Verifier_result) (simp_all add: new_result_def reason_defs)
  show "r_Reason r \<noteq> ReasonChallengeMismatch"
    using v by (cases rule: Verifier_result) (simp_all add: new_result_def reason_defs)
next
  fix p :: ParsedInputs and k e :: string
  assume "NormalizeDecimal (pi_Challenge p) = Inr k"
  then show "co_Match (CheckChallenge p e) \<longleftrightarrow> k = e"
    by (simp add: CheckChallenge_def ConstantTimeCompare_def Let_def)
qed

subsection \<open>The service as a replay-safe store\<close>

text \<open>
  The requests of a server: a challenge is issued, or a link verification runs with the outcome
  \<open>vres\<close> of the proof verifier and the outcome \<open>found\<close> of its lookup, which may be stale.
\<close>

datatype svc_op =
    SvcCreate sqlite duration time "byte list result"
  | SvcVerify sqlite time time "Challenge option result" "Result result" Request

fun svc_exec :: "svc_op \<Rightarrow> db \<Rightarrow> (string \<times> string) option \<times> db" where
  "svc_exec (SvcCreate q ttl now rand) d = (None, snd (CreateChallenge q ttl now rand d))"
| "svc_exec (SvcVerify q now1 now2 found vres req) d =
     (case Service_VerifyAndRecord CheckChallenge (\<lambda>c. found) (VerifyAndRecord q now2) now1 vres req d of
        ((Some res, None), d') \<Rightarrow>
          (if p_Persisted res
           then Some (p_Nullifier res,
                  case NormalizeDecimal (pi_Challenge (the (r_Parsed (p_Result res)))) of Inr k \<Rightarrow> k | Inl e \<Rightarrow> '''')
           else None, d')
      | (_, d') \<Rightarrow> (None, d'))"

text \<open>A service request is a request to the store or leaves it alone.\<close>

lemma Service_store_step:
  assumes "Service_VerifyAndRecord check get (VerifyAndRecord q now2) now1 vres req d = (out, d')"
  shows "(d' = d \<and> (\<forall>res. out = (Some res, None) \<longrightarrow> \<not> p_Persisted res)) \<or>
    (\<exists>n k (res :: ProcessResult). VerifyAndRecord q now2 n k None (StoreKey (rq_ProofType req)) d = (snd out, d')
       \<and> fst out = Some res \<and> p_Nullifier res = n
       \<and> (p_Persisted res \<longleftrightarrow> snd out = None)
       \<and> NormalizeDecimal (pi_Challenge (the (r_Parsed (p_Result res)))) = Inr k)"
  using assms
  by (auto simp: Service_VerifyAndRecord_def finalize_def Let_def
      split: sum.splits option.splits if_splits prod.splits)

lemma svc_store_exec: "\<exists>y. \<not> is_clean y \<and> svc_exec x d = store_exec y d"
proof (cases x)
  case (SvcCreate q ttl now rand)
  then show ?thesis by (intro exI [of _ "OpCreate q ttl now rand"]) simp
next
  case (SvcVerify q now1 now2 found vres req)
  obtain out d' where o: "Service_VerifyAndRecord CheckChallenge (\<lambda>c. found) (VerifyAndRecord q now2) now1 vres req d
      = (out, d')" by fastforce
  from Service_store_step [OF o] show ?thesis
  proof
    assume "d' = d \<and> (\<forall>res. out = (Some res, None) \<longrightarrow> \<not> p_Persisted res)"
    then have "svc_exec x d = (None, d)" using SvcVerify o by (auto split: option.splits prod.splits)
    then show ?thesis by (intro exI [of _ "OpGet q ''''"]) simp
  next
    assume "\<exists>n k (res :: ProcessResult). VerifyAndRecord q now2 n k None (StoreKey (rq_ProofType req)) d = (snd out, d')
       \<and> fst out = Some res \<and> p_Nullifier res = n \<and> (p_Persisted res \<longleftrightarrow> snd out = None)
       \<and> NormalizeDecimal (pi_Challenge (the (r_Parsed (p_Result res)))) = Inr k"
    then obtain n k and res :: ProcessResult where v:
      "VerifyAndRecord q now2 n k None (StoreKey (rq_ProofType req)) d = (snd out, d')"
      "fst out = Some res" "p_Nullifier res = n" "p_Persisted res \<longleftrightarrow> snd out = None"
      "NormalizeDecimal (pi_Challenge (the (r_Parsed (p_Result res)))) = Inr k" by (elim exE conjE)
    then have "svc_exec x d = store_exec (OpVerify q now2 n k None (StoreKey (rq_ProofType req))) d"
      using SvcVerify o by (cases out) (auto split: option.splits)
    then show ?thesis by (metis is_clean.simps(4))
  qed
qed

interpretation link_service: replay_store svc_exec "\<lambda>x. True" db_wf consumed spent
proof
  fix s x s'
  assume s: "db_wf s" "svc_exec x s = (None, s')"
  obtain y where "\<not> is_clean y" "svc_exec x s = store_exec y s" using svc_store_exec by blast
  with s sqlite_store.not_accepted [of s y s'] show "db_wf s' \<and> consumed s' = consumed s \<and> spent s' = spent s"
    by simp
next
  fix s x n c s'
  assume s: "db_wf s" "svc_exec x s = (Some (n, c), s')"
  obtain y where "\<not> is_clean y" "svc_exec x s = store_exec y s" using svc_store_exec by blast
  with s sqlite_store.accepted [of s y n c s'] show "db_wf s' \<and> \<not> consumed s c \<and> \<not> spent s n
      \<and> consumed s' = (consumed s)(c := True) \<and> spent s' = (spent s)(n := True)" by simp
qed

end
