(* ===== verification/Http_Api.thy ===== *)
theory Http_Api
  imports Link_Service
begin

text \<open>
  \<open>httpapi/\<close>: the handlers of the REST API, their request and response bodies, the mapping of errors
  to status codes, and the router.  A handler is a function of the operations of the store or of
  the service it calls and of their state.  A body is the JSON value that \<open>encoding/json\<close> makes of
  the value the handler encodes, by the tags of its struct; a Go map is \<open>JMap\<close>, a time and an error
  kept as text stay \<open>JTime\<close> and \<open>JError\<close>, a body in plain text is \<open>JText\<close>, a reply without a body has \<open>JNone\<close>, and a \<open>[]byte\<close> is decoded from base64 by the parameter
  \<open>decode\<close>.  Messages of \<open>log.Printf\<close> are not modelled.
\<close>

subsection \<open>Replies\<close>

datatype json =
    JString string
  | JBool bool
  | JInt int
  | JTime time
  | JError err
  | JList "json list"
  | JObject "(string \<times> json) list"
  | JMap "string \<Rightarrow> json option"
  | JText string
  | JNone

record http_reply =
  re_Status :: nat
  re_Headers :: "string \<rightharpoonup> string"
  re_Body :: json

definition json_reply :: "nat \<Rightarrow> json \<Rightarrow> http_reply" where
  "json_reply code body =
     \<lparr>re_Status = code, re_Headers = [''Content-Type'' \<mapsto> ''application/json''], re_Body = body\<rparr>"

text \<open>A field tagged \<open>omitempty\<close>: false, the empty string and a nil pointer are left out.\<close>

definition omit_bool :: "string \<Rightarrow> bool \<Rightarrow> (string \<times> json) list" where
  "omit_bool k b = (if b then [(k, JBool b)] else [])"

definition omit_string :: "string \<Rightarrow> string \<Rightarrow> (string \<times> json) list" where
  "omit_string k s = (if s = '''' then [] else [(k, JString s)])"

definition omit_ptr :: "string \<Rightarrow> ('a \<Rightarrow> json) \<Rightarrow> 'a option \<Rightarrow> (string \<times> json) list" where
  "omit_ptr k enc p = (case p of None \<Rightarrow> [] | Some x \<Rightarrow> [(k, enc x)])"

definition json_strings :: "string list \<Rightarrow> json" where
  "json_strings ss = JList (map JString ss)"

subsection \<open>The bodies\<close>

definition json_PublicSignals :: "PublicSignals \<Rightarrow> json" where
  "json_PublicSignals sg =
     JObject [(''cert_chain'', json_strings (CertChain sg)), (''user_sig'', json_strings (UserSig sg))]"

definition json_ParsedInputs :: "ParsedInputs \<Rightarrow> json" where
  "json_ParsedInputs p =
     JObject [(''pk_commit'', JString (pi_PkCommit p)), (''nullifier'', JString (pi_Nullifier p)),
       (''app_id'', JString (pi_AppID p)), (''app_id_packed'', JString (pi_AppIDPacked p)),
       (''challenge'', JString (pi_Challenge p)),
       (''issuer_rsa_modulus'', json_strings (pi_IssuerRSAModulus p)),
       (''smt_root'', JString (pi_SmtRoot p))]"

text \<open>\<open>omitempty\<close> has no effect on \<open>trusted_at\<close>, which is a struct.\<close>

definition json_SmtRootOutcome :: "SmtRootOutcome \<Rightarrow> json" where
  "json_SmtRootOutcome o' =
     JObject ([(''issuer'', JString (sr_IssuerName o')), (''match'', JBool (sr_Match o')),
       (''expected'', JString (sr_Expected o')), (''observed'', JString (sr_Observed o'))]
       @ omit_string ''trust_source'' (sr_TrustSource o') @ [(''trusted_at'', JTime (sr_TrustedAt o'))])"

definition json_IssuerModulusOutcome :: "IssuerModulusOutcome \<Rightarrow> json" where
  "json_IssuerModulusOutcome o' =
     JObject ([(''issuer'', JString (im_IssuerName o')), (''match'', JBool (im_Match o')),
       (''expected_sha256'', JString (im_ExpectedSHA256 o'))]
       @ omit_string ''trust_source'' (im_TrustSource o') @ [(''trusted_at'', JTime (im_TrustedAt o'))])"

definition json_AppIDOutcome :: "AppIDOutcome \<Rightarrow> json" where
  "json_AppIDOutcome o' =
     JObject [(''match'', JBool (ao_Match o')), (''expected'', JString (ao_Expected o')),
       (''observed'', JString (ao_Observed o'))]"

definition json_ChallengeOutcome :: "ChallengeOutcome \<Rightarrow> json" where
  "json_ChallengeOutcome o' =
     JObject [(''match'', JBool (co_Match o')), (''expected'', JString (co_Expected o')),
       (''observed'', JString (co_Observed o'))]"

record VerifySuccessResponse =
  vs_Verified :: bool
  vs_Nullifier :: string
  vs_IDVerified :: bool
  vs_Persisted :: bool
  vs_PublicSignals :: "PublicSignals option"
  vs_ParsedInputs :: "ParsedInputs option"
  vs_SmtRoot :: "SmtRootOutcome option"
  vs_IssuerModulus :: "IssuerModulusOutcome option"
  vs_AppID :: "AppIDOutcome option"
  vs_Challenge :: "ChallengeOutcome option"

record VerifyFailResponse =
  vf_Verified :: bool
  vf_Reason :: string
  vf_SmtRoot :: "SmtRootOutcome option"
  vf_IssuerModulus :: "IssuerModulusOutcome option"
  vf_AppID :: "AppIDOutcome option"
  vf_Challenge :: "ChallengeOutcome option"

record LinkVerifyRequest =
  lr_CertChainType :: string
  lr_CertChainProof :: "byte list"
  lr_UserSigProof :: "byte list"

definition json_VerifySuccessResponse :: "VerifySuccessResponse \<Rightarrow> json" where
  "json_VerifySuccessResponse v =
     JObject ([(''verified'', JBool (vs_Verified v)), (''nullifier'', JString (vs_Nullifier v))]
       @ omit_bool ''id_verified'' (vs_IDVerified v) @ omit_bool ''persisted'' (vs_Persisted v)
       @ omit_ptr ''public_signals'' json_PublicSignals (vs_PublicSignals v)
       @ omit_ptr ''parsed_inputs'' json_ParsedInputs (vs_ParsedInputs v)
       @ omit_ptr ''smt_root'' json_SmtRootOutcome (vs_SmtRoot v)
       @ omit_ptr ''issuer_modulus'' json_IssuerModulusOutcome (vs_IssuerModulus v)
       @ omit_ptr ''app_id'' json_AppIDOutcome (vs_AppID v)
       @ omit_ptr ''challenge'' json_ChallengeOutcome (vs_Challenge v))"

definition json_VerifyFailResponse :: "VerifyFailResponse \<Rightarrow> json" where
  "json_VerifyFailResponse v =
     JObject ([(''verified'', JBool (vf_Verified v))] @ omit_string ''reason'' (vf_Reason v)
       @ omit_ptr ''smt_root'' json_SmtRootOutcome (vf_SmtRoot v)
       @ omit_ptr ''issuer_modulus'' json_IssuerModulusOutcome (vf_IssuerModulus v)
       @ omit_ptr ''app_id'' json_AppIDOutcome (vf_AppID v)
       @ omit_ptr ''challenge'' json_ChallengeOutcome (vf_Challenge v))"

record ChallengeResponse =
  hc_Challenge :: string
  hc_AppID :: string
  hc_ExpiresAt :: time

definition json_ChallengeResponse :: "ChallengeResponse \<Rightarrow> json" where
  "json_ChallengeResponse c =
     JObject [(''challenge'', JString (hc_Challenge c)), (''app_id'', JString (hc_AppID c)),
       (''expires_at'', JTime (hc_ExpiresAt c))]"

subsection \<open>Errors\<close>

definition jsonError :: "string \<Rightarrow> nat \<Rightarrow> http_reply" where
  "jsonError msg code = json_reply code (JMap [''error'' \<mapsto> JString msg])"

definition writeStoreError :: "err \<Rightarrow> string \<Rightarrow> http_reply" where
  "writeStoreError e nullifier =
     (if err_is e ErrDuplicateNullifier
      then json_reply 409 (JMap [''error'' \<mapsto> JString ''nullifier already registered'',
                                 ''nullifier'' \<mapsto> JString nullifier])
      else if err_is e ErrChallengeNotFound then jsonError ''challenge not found'' 404
      else if err_is e ErrChallengeExpired then jsonError ''challenge expired'' 400
      else if err_is e ErrChallengeConsumed then jsonError ''challenge already consumed'' 410
      else jsonError ''internal server error'' 500)"

subsection \<open>Challenges\<close>

definition createChallenge :: "('s \<Rightarrow> Challenge result \<times> 's) \<Rightarrow> string \<Rightarrow> 's \<Rightarrow> http_reply \<times> 's" where
  "createChallenge create appID s =
     (case create s of
        (Inl e, s') \<Rightarrow> (jsonError ''failed to create challenge'' 500, s')
      | (Inr c, s') \<Rightarrow>
          (json_reply 200 (json_ChallengeResponse
             \<lparr>hc_Challenge = c_Challenge c, hc_AppID = appID, hc_ExpiresAt = c_ExpiresAt c\<rparr>), s'))"

definition getChallenge ::
  "(string \<Rightarrow> Challenge option result) \<Rightarrow> string \<Rightarrow> time \<Rightarrow> string \<Rightarrow> http_reply" where
  "getChallenge get appID now challenge =
     (case get challenge of
        Inl e \<Rightarrow> jsonError ''internal server error'' 500
      | Inr None \<Rightarrow> jsonError ''challenge not found'' 404
      | Inr (Some c) \<Rightarrow>
          if After now (c_ExpiresAt c) then jsonError ''challenge expired'' 400
          else json_reply 200 (json_ChallengeResponse
             \<lparr>hc_Challenge = c_Challenge c, hc_AppID = appID, hc_ExpiresAt = c_ExpiresAt c\<rparr>))"

subsection \<open>Link verification\<close>

definition maxRequestBody :: nat where "maxRequestBody = 2 * 1024 * 1024"

text \<open>
  \<open>decode\<close> reads the request from the first bytes of the body, at most \<open>maxRequestBody\<close>; its second
  argument says whether they are the whole body, for \<open>MaxBytesReader\<close> fails a read beyond them.
\<close>

definition linkVerify_error :: "err \<Rightarrow> ProcessResult option \<Rightarrow> http_reply" where
  "linkVerify_error e result =
     (if err_is e ErrChallengeNotFound
      then let challenge = (case result of
                              None \<Rightarrow> ''''
                            | Some res \<Rightarrow> (case r_Parsed (p_Result res) of None \<Rightarrow> '''' | Some p \<Rightarrow> pi_Challenge p))
           in jsonError (''challenge not found or already consumed: '' @ challenge) 404
      else if err_is e ErrSmtRootUnavailable
      then jsonError ''smt root provider unavailable, retry later'' 503
      else if err_is e ErrIssuerCertUnavailable
      then jsonError ''issuer cert provider unavailable, retry later'' 503
      else if err_is e ErrChallengeExpired \<or> err_is e ErrChallengeConsumed \<or> err_is e ErrDuplicateNullifier
      then let nullifier = (case result of None \<Rightarrow> '''' | Some res \<Rightarrow> p_Nullifier res)
           in writeStoreError e nullifier
      else jsonError ''proof verification failed'' 500)"

definition fail_status :: "string \<Rightarrow> nat" where
  "fail_status reason =
     (if reason \<in> {ReasonSmtRootMismatch, ReasonIssuerModulusMismatch, ReasonAppIDMismatch,
                   ReasonChallengeMismatch} then 409 else 200)"

definition linkVerify_result :: "ProcessResult \<Rightarrow> http_reply" where
  "linkVerify_result result =
     (let r = p_Result result in
      if \<not> r_Verified r
      then json_reply (fail_status (r_Reason r)) (json_VerifyFailResponse
             \<lparr>vf_Verified = False, vf_Reason = r_Reason r, vf_SmtRoot = r_SmtRoot r,
              vf_IssuerModulus = r_IssuerModulus r, vf_AppID = r_AppID r, vf_Challenge = r_Challenge r\<rparr>)
      else json_reply 200 (json_VerifySuccessResponse
             \<lparr>vs_Verified = True, vs_Nullifier = p_Nullifier result, vs_IDVerified = True,
              vs_Persisted = True, vs_PublicSignals = r_Signals r, vs_ParsedInputs = r_Parsed r,
              vs_SmtRoot = r_SmtRoot r, vs_IssuerModulus = r_IssuerModulus r, vs_AppID = r_AppID r,
              vs_Challenge = r_Challenge r\<rparr>))"

type_synonym 's service = "Request \<Rightarrow> 's \<Rightarrow> (ProcessResult option \<times> err option) \<times> 's"

text \<open>A service that returns neither a result nor an error is a nil dereference; it does not occur.\<close>

definition linkVerify ::
  "(byte list \<Rightarrow> bool \<Rightarrow> LinkVerifyRequest option) \<Rightarrow> 's service \<Rightarrow> byte list \<Rightarrow> 's \<Rightarrow> http_reply \<times> 's" where
  "linkVerify decode service body s =
     (case decode (take maxRequestBody body) (length body \<le> maxRequestBody) of
        None \<Rightarrow> (jsonError ''invalid request body'' 400, s)
      | Some req \<Rightarrow>
          if lr_CertChainProof req = [] \<or> lr_UserSigProof req = []
          then (jsonError ''cert_chain_proof and user_sig_proof are required'' 400, s)
          else case ParseProofType (lr_CertChainType req) of
                 Inl e \<Rightarrow> (jsonError (err_text e) 400, s)
               | Inr pt \<Rightarrow>
              (case service \<lparr>rq_CertChainProof = lr_CertChainProof req,
                             rq_UserSigProof = lr_UserSigProof req, rq_ProofType = pt\<rparr> s of
                 ((result, Some e), s') \<Rightarrow> (linkVerify_error e result, s')
               | ((Some result, None), s') \<Rightarrow> (linkVerify_result result, s')
               | ((None, None), s') \<Rightarrow> (json_reply 500 (JMap Map.empty), s')))"

subsection \<open>Trust anchors\<close>

definition json_AttemptStat :: "AttemptStat \<Rightarrow> json" where
  "json_AttemptStat a =
     JObject ([(''count'', JInt (int (st_Count a))), (''last_latency_ms'', JInt (st_LastLatencyMs a))]
       @ omit_ptr ''last_err'' JError (st_LastErr a))"

definition json_Status :: "Status \<Rightarrow> json" where
  "json_Status st =
     JObject ([(''source_used'', JString (s_SourceUsed st)),
       (''roots'', JMap (\<lambda>k. map_option JString (s_Roots st k))),
       (''updated_at'', JTime (s_UpdatedAt st)), (''last_attempt_at'', JTime (s_LastAttemptAt st))]
       @ omit_ptr ''last_error'' JError (s_LastError st)
       @ [(''consecutive_fail'', JInt (int (s_ConsecutiveFail st))),
          (''cache_age_seconds'', JInt (s_CacheAgeSeconds st)),
          (''attempts'', JMap (\<lambda>k. map_option json_AttemptStat (s_Attempts st k)))])"

definition json_CertStatus :: "CertStatus \<Rightarrow> json" where
  "json_CertStatus c =
     JObject [(''issuer'', JString (cs_Issuer c)), (''sha256'', JString (cs_SHA256 c)),
       (''subject'', JString (cs_Subject c)), (''not_before'', JTime (cs_NotBefore c)),
       (''not_after'', JTime (cs_NotAfter c)), (''source'', JString (cs_Source c)),
       (''fetched_at'', JTime (cs_FetchedAt c)), (''modulus_bits'', JInt (int (cs_ModulusBits c)))]"

definition json_CertsStatus :: "CertsStatus \<Rightarrow> json" where
  "json_CertsStatus st =
     JObject ([(''certs'', JMap (\<lambda>k. map_option json_CertStatus (css_Certs st k))),
       (''updated_at'', JTime (css_UpdatedAt st)), (''last_attempt_at'', JTime (css_LastAttemptAt st))]
       @ omit_ptr ''last_error'' JError (css_LastError st)
       @ [(''consecutive_fail'', JInt (int (css_ConsecutiveFail st))),
          (''cache_age_seconds'', JInt (css_CacheAgeSeconds st)),
          (''attempts'', JMap (\<lambda>k. map_option json_AttemptStat (css_Attempts st k)))])"

definition smtRootStatus :: "time \<Rightarrow> 's Provider option \<Rightarrow> http_reply" where
  "smtRootStatus now provider =
     (case provider of
        None \<Rightarrow> json_reply 200 (JMap [''enforced'' \<mapsto> JBool False])
      | Some p \<Rightarrow> json_reply 200 (JMap [''enforced'' \<mapsto> JBool True, ''status'' \<mapsto> json_Status (Provider_Status now p)]))"

definition issuerCertStatus :: "time \<Rightarrow> CertProvider option \<Rightarrow> http_reply" where
  "issuerCertStatus now provider =
     (case provider of
        None \<Rightarrow> json_reply 200 (JMap [''enforced'' \<mapsto> JBool False])
      | Some p \<Rightarrow> json_reply 200 (JMap [''enforced'' \<mapsto> JBool True, ''status'' \<mapsto> json_CertsStatus (Status_cert now p)]))"

subsection \<open>The debug endpoint\<close>

text \<open>\<open>r.Header.Get\<close> gives the empty string for a missing header.\<close>

definition validDebugToken :: "(string \<rightharpoonup> string) \<Rightarrow> string \<Rightarrow> bool" where
  "validDebugToken header want \<longleftrightarrow>
     (let h = (case header ''Authorization'' of None \<Rightarrow> '''' | Some v \<Rightarrow> v) in
      if \<not> HasPrefix h ''Bearer '' then False
      else ConstantTimeCompare (drop (length ''Bearer '') h) want)"

definition cleanDB ::
  "('s \<Rightarrow> (nat \<times> nat) result \<times> 's) \<Rightarrow> string \<Rightarrow> (string \<rightharpoonup> string) \<Rightarrow> 's \<Rightarrow> http_reply \<times> 's" where
  "cleanDB clean token header s =
     (if \<not> validDebugToken header token then (jsonError ''unauthorized'' 401, s)
      else case clean s of
             (Inl e, s') \<Rightarrow> (jsonError ''internal server error'' 500, s')
           | (Inr (nc, nv), s') \<Rightarrow>
               (json_reply 200 (JMap [''challenges_deleted'' \<mapsto> JInt (int nc),
                                      ''verifications_deleted'' \<mapsto> JInt (int nv)]), s'))"

subsection \<open>The router\<close>

text \<open>
  The patterns \<open>NewRouter\<close> registers.  \<open>serve\<close> is the standard library's mux on them, for a request
  whose path is already clean (given by its segments): a pattern for GET also takes HEAD, a path
  with no pattern is 404, and a path whose patterns are all for other methods is 405.
\<close>

datatype segment = Lit string | Wild

datatype handler = HCreate | HGet | HLinkVerify | HSmtStatus | HCertStatus | HCleanDB

record ('s, 'p) server =
  sv_create :: "'s \<Rightarrow> Challenge result \<times> 's"
  sv_get :: "string \<Rightarrow> 's \<Rightarrow> Challenge option result"
  sv_clean :: "'s \<Rightarrow> (nat \<times> nat) result \<times> 's"
  sv_service :: "'s service option"
  sv_smt :: "'p Provider option"
  sv_cert :: "CertProvider option"
  sv_appID :: string
  sv_debugToken :: string

record request =
  hq_Method :: string
  hq_Path :: "string list"
  hq_Header :: "string \<rightharpoonup> string"
  hq_Body :: "byte list"

definition NewRouter :: "('s, 'p) server \<Rightarrow> (string \<times> segment list \<times> handler) list" where
  "NewRouter sv =
     [(''POST'', [Lit ''challenge''], HCreate), (''GET'', [Lit ''challenge'', Wild], HGet)]
     @ (if sv_service sv \<noteq> None then [(''POST'', [Lit ''link-verify''], HLinkVerify)] else [])
     @ [(''GET'', [Lit ''smt-root'', Lit ''status''], HSmtStatus),
        (''GET'', [Lit ''issuer-cert'', Lit ''status''], HCertStatus)]
     @ (if sv_debugToken sv \<noteq> ''''
        then [(''POST'', [Lit ''debug'', Lit ''db'', Lit ''clean''], HCleanDB)] else [])"

fun match_path :: "segment list \<Rightarrow> string list \<Rightarrow> bool" where
  "match_path [] [] \<longleftrightarrow> True"
| "match_path (Lit l # ps) (x # xs) \<longleftrightarrow> l = x \<and> match_path ps xs"
| "match_path (Wild # ps) (x # xs) \<longleftrightarrow> x \<noteq> '''' \<and> match_path ps xs"
| "match_path _ _ \<longleftrightarrow> False"

definition match_method :: "string \<Rightarrow> string \<Rightarrow> bool" where
  "match_method m x \<longleftrightarrow> x = m \<or> m = ''GET'' \<and> x = ''HEAD''"

text \<open>\<open>http.Error\<close>, and what a 405 says about the methods of the path.\<close>

definition text_reply :: "(string \<rightharpoonup> string) \<Rightarrow> nat \<Rightarrow> string \<Rightarrow> http_reply" where
  "text_reply headers code msg =
     \<lparr>re_Status = code,
      re_Headers = headers(''Content-Type'' \<mapsto> ''text/plain; charset=utf-8'', ''X-Content-Type-Options'' \<mapsto> ''nosniff''),
      re_Body = JText (msg @ [CHR 0x0A])\<rparr>"

fun comma_separated :: "string list \<Rightarrow> string" where
  "comma_separated [] = []"
| "comma_separated [s] = s"
| "comma_separated (s # t # ss) = s @ '', '' @ comma_separated (t # ss)"

definition allowed_methods :: "(string \<times> segment list \<times> handler) list \<Rightarrow> string list" where
  "allowed_methods here = filter (\<lambda>x. \<exists>(m, p, h) \<in> set here. match_method m x) [''GET'', ''HEAD'', ''POST'']"

definition handle ::
  "(byte list \<Rightarrow> bool \<Rightarrow> LinkVerifyRequest option) \<Rightarrow> time \<Rightarrow> ('s, 'p) server \<Rightarrow> handler \<Rightarrow> request \<Rightarrow> 's
    \<Rightarrow> http_reply \<times> 's" where
  "handle decode now sv h r s =
     (case h of
        HCreate \<Rightarrow> createChallenge (sv_create sv) (sv_appID sv) s
      | HGet \<Rightarrow> (getChallenge (\<lambda>c. sv_get sv c s) (sv_appID sv) now (hq_Path r ! 1), s)
      | HLinkVerify \<Rightarrow> linkVerify decode (the (sv_service sv)) (hq_Body r) s
      | HSmtStatus \<Rightarrow> (smtRootStatus now (sv_smt sv), s)
      | HCertStatus \<Rightarrow> (issuerCertStatus now (sv_cert sv), s)
      | HCleanDB \<Rightarrow> cleanDB (sv_clean sv) (sv_debugToken sv) (hq_Header r) s)"

definition serve ::
  "(byte list \<Rightarrow> bool \<Rightarrow> LinkVerifyRequest option) \<Rightarrow> time \<Rightarrow> ('s, 'p) server \<Rightarrow> request \<Rightarrow> 's
    \<Rightarrow> http_reply \<times> 's" where
  "serve decode now sv r s =
     (let here = filter (\<lambda>(m, p, h). match_path p (hq_Path r)) (NewRouter sv) in
      case List.find (\<lambda>(m, p, h). match_method m (hq_Method r)) here of
        Some (m, p, h) \<Rightarrow> handle decode now sv h r s
      | None \<Rightarrow> (if here = [] then text_reply Map.empty 404 ''404 page not found''
                 else text_reply [''Allow'' \<mapsto> comma_separated (allowed_methods here)] 405 ''Method Not Allowed'', s))"

end
