(* ===== verification/Grpc_Api.thy ===== *)
theory Grpc_Api
  imports Link_Service
begin

text \<open>
  \<open>grpc/server.go\<close>: the gRPC adapter.  A call returns a message or a status with its code; the
  messages are the structs the generated package declares, without its bookkeeping fields.  Times
  are printed in RFC 3339; the clock of the server is in UTC.  Messages of \<open>log.Printf\<close> are not modelled.
\<close>

subsection \<open>Messages\<close>

datatype code =
    InvalidArgument | NotFound | AlreadyExists | FailedPrecondition | Unavailable | Internal

type_synonym grpc_status = "code \<times> string"

record ChallengeMessage =
  gc_Challenge :: string
  gc_AppId :: string
  gc_ExpiresAt :: string

record LinkVerifyMessage =
  gq_Challenge :: string
  gq_CertChainType :: string
  gq_CertChainProof :: "byte list"
  gq_UserSigProof :: "byte list"

record SmtRootMessage =
  gs_Issuer :: string
  gs_Match :: bool
  gs_Expected :: string
  gs_Observed :: string
  gs_TrustSource :: string
  gs_TrustedAt :: string

record IssuerModulusMessage =
  gi_Issuer :: string
  gi_Match :: bool
  gi_ExpectedSha256 :: string
  gi_TrustSource :: string
  gi_TrustedAt :: string

record MatchMessage =
  gm_Match :: bool
  gm_Expected :: string
  gm_Observed :: string

record LinkVerifyResponse =
  gl_Verified :: bool
  gl_Nullifier :: string
  gl_IdVerified :: bool
  gl_Persisted :: bool
  gl_Error :: string
  gl_Reason :: string
  gl_SmtRoot :: "SmtRootMessage option"
  gl_IssuerModulus :: "IssuerModulusMessage option"
  gl_AppId :: "MatchMessage option"
  gl_Challenge :: "MatchMessage option"

record 's Server =
  gv_service :: "Request \<Rightarrow> 's \<Rightarrow> (ProcessResult option \<times> err option) \<times> 's"
  gv_create :: "'s \<Rightarrow> Challenge result \<times> 's"
  gv_get :: "string \<Rightarrow> 's \<Rightarrow> Challenge option result"
  gv_appID :: string

text \<open>\<open>NewServer\<close> builds the record.\<close>

definition NewServer ::
  "(Request \<Rightarrow> 's \<Rightarrow> (ProcessResult option \<times> err option) \<times> 's) \<Rightarrow> ('s \<Rightarrow> Challenge result \<times> 's)
    \<Rightarrow> (string \<Rightarrow> 's \<Rightarrow> Challenge option result) \<Rightarrow> string \<Rightarrow> 's Server" where
  "NewServer service create get appID =
     \<lparr>gv_service = service, gv_create = create, gv_get = get, gv_appID = appID\<rparr>"

subsection \<open>Challenges\<close>

definition grpc_CreateChallenge :: "'s Server \<Rightarrow> 's \<Rightarrow> (grpc_status + ChallengeMessage) \<times> 's" where
  "grpc_CreateChallenge sv s =
     (case gv_create sv s of
        (Inl e, s') \<Rightarrow> (Inl (Internal, ''failed to create challenge''), s')
      | (Inr c, s') \<Rightarrow>
          (Inr \<lparr>gc_Challenge = c_Challenge c, gc_AppId = gv_appID sv,
                gc_ExpiresAt = format_rfc3339 (c_ExpiresAt c)\<rparr>, s'))"

definition grpc_GetChallenge :: "'s Server \<Rightarrow> time \<Rightarrow> string \<Rightarrow> 's \<Rightarrow> grpc_status + ChallengeMessage" where
  "grpc_GetChallenge sv now challenge s =
     (if challenge = '''' then Inl (InvalidArgument, ''challenge is required'')
      else case gv_get sv challenge s of
             Inl e \<Rightarrow> Inl (Internal, ''internal error'')
           | Inr None \<Rightarrow> Inl (NotFound, ''challenge not found'')
           | Inr (Some c) \<Rightarrow>
               if After now (c_ExpiresAt c) then Inl (FailedPrecondition, ''challenge expired'')
               else Inr \<lparr>gc_Challenge = c_Challenge c, gc_AppId = gv_appID sv,
                         gc_ExpiresAt = format_rfc3339 (c_ExpiresAt c)\<rparr>)"

subsection \<open>Link verification\<close>

definition trusted_at_text :: "time \<Rightarrow> string" where
  "trusted_at_text t = (if t = 0 then '''' else format_rfc3339 t)"

definition smtRootOutcomeToProto :: "SmtRootOutcome option \<Rightarrow> SmtRootMessage option" where
  "smtRootOutcomeToProto o' =
     (case o' of
        None \<Rightarrow> None
      | Some x \<Rightarrow> Some \<lparr>gs_Issuer = sr_IssuerName x, gs_Match = sr_Match x, gs_Expected = sr_Expected x,
          gs_Observed = sr_Observed x, gs_TrustSource = sr_TrustSource x,
          gs_TrustedAt = trusted_at_text (sr_TrustedAt x)\<rparr>)"

definition issuerModulusOutcomeToProto :: "IssuerModulusOutcome option \<Rightarrow> IssuerModulusMessage option" where
  "issuerModulusOutcomeToProto o' =
     (case o' of
        None \<Rightarrow> None
      | Some x \<Rightarrow> Some \<lparr>gi_Issuer = im_IssuerName x, gi_Match = im_Match x,
          gi_ExpectedSha256 = im_ExpectedSHA256 x, gi_TrustSource = im_TrustSource x,
          gi_TrustedAt = trusted_at_text (im_TrustedAt x)\<rparr>)"

definition appIDOutcomeToProto :: "AppIDOutcome option \<Rightarrow> MatchMessage option" where
  "appIDOutcomeToProto o' =
     (case o' of
        None \<Rightarrow> None
      | Some x \<Rightarrow> Some \<lparr>gm_Match = ao_Match x, gm_Expected = ao_Expected x, gm_Observed = ao_Observed x\<rparr>)"

definition challengeOutcomeToProto :: "ChallengeOutcome option \<Rightarrow> MatchMessage option" where
  "challengeOutcomeToProto o' =
     (case o' of
        None \<Rightarrow> None
      | Some x \<Rightarrow> Some \<lparr>gm_Match = co_Match x, gm_Expected = co_Expected x, gm_Observed = co_Observed x\<rparr>)"

definition mapServiceError :: "err \<Rightarrow> string \<Rightarrow> grpc_status" where
  "mapServiceError e nullifier =
     (if err_is e ErrDuplicateNullifier
      then (AlreadyExists, ''nullifier '' @ nullifier @ '' already registered'')
      else if err_is e ErrChallengeNotFound then (NotFound, ''challenge not found'')
      else if err_is e ErrChallengeExpired then (FailedPrecondition, ''challenge expired'')
      else if err_is e ErrChallengeConsumed then (FailedPrecondition, ''challenge already consumed'')
      else if err_is e ErrSmtRootUnavailable
      then (Unavailable, ''smt root provider unavailable, retry later'')
      else if err_is e ErrIssuerCertUnavailable
      then (Unavailable, ''issuer cert provider unavailable, retry later'')
      else (Internal, ''proof verification failed''))"

definition verify_response :: "ProcessResult \<Rightarrow> LinkVerifyResponse" where
  "verify_response result =
     (let r = p_Result result in
      if \<not> r_Verified r
      then \<lparr>gl_Verified = False, gl_Nullifier = p_Nullifier result, gl_IdVerified = False,
            gl_Persisted = False, gl_Error = '''', gl_Reason = r_Reason r,
            gl_SmtRoot = smtRootOutcomeToProto (r_SmtRoot r),
            gl_IssuerModulus = issuerModulusOutcomeToProto (r_IssuerModulus r),
            gl_AppId = appIDOutcomeToProto (r_AppID r),
            gl_Challenge = challengeOutcomeToProto (r_Challenge r)\<rparr>
      else \<lparr>gl_Verified = True, gl_Nullifier = p_Nullifier result, gl_IdVerified = True,
            gl_Persisted = True, gl_Error = '''', gl_Reason = '''',
            gl_SmtRoot = smtRootOutcomeToProto (r_SmtRoot r),
            gl_IssuerModulus = issuerModulusOutcomeToProto (r_IssuerModulus r),
            gl_AppId = appIDOutcomeToProto (r_AppID r),
            gl_Challenge = challengeOutcomeToProto (r_Challenge r)\<rparr>)"

text \<open>As in the HTTP handler, a service that returns neither a result nor an error does not occur.\<close>

definition grpc_LinkVerify ::
  "'s Server \<Rightarrow> LinkVerifyMessage \<Rightarrow> 's \<Rightarrow> (grpc_status + LinkVerifyResponse) \<times> 's" where
  "grpc_LinkVerify sv req s =
     (if gq_Challenge req = '''' then (Inl (InvalidArgument, ''challenge is required''), s)
      else if gq_CertChainProof req = [] \<or> gq_UserSigProof req = []
      then (Inl (InvalidArgument, ''cert_chain_proof and user_sig_proof are required''), s)
      else case ParseProofType (gq_CertChainType req) of
             Inl e \<Rightarrow> (Inl (InvalidArgument, err_text e), s)
           | Inr pt \<Rightarrow>
          (case gv_service sv \<lparr>rq_CertChainProof = gq_CertChainProof req,
                               rq_UserSigProof = gq_UserSigProof req, rq_ProofType = pt\<rparr> s of
             ((result, Some e), s') \<Rightarrow>
               (Inl (mapServiceError e (case result of None \<Rightarrow> '''' | Some res \<Rightarrow> p_Nullifier res)), s')
           | ((Some result, None), s') \<Rightarrow> (Inr (verify_response result), s')
           | ((None, None), s') \<Rightarrow> (Inl (Internal, ''''), s')))"

end
