(* ===== verification/Service_Spec.thy ===== *)
theory Service_Spec
  imports Link_Service
begin

text \<open>
  What a request to the service achieves, end to end: the Rust verifier, the public inputs, the
  trust anchors, the challenge and the record in the store.  The runs of a server
  (\<open>svc_exec\<close>) interleave with any other request: the lookup of a challenge may be stale, and the
  proof verifier may answer anything.
\<close>

subsection \<open>The verifier accepts what its checks accept\<close>

lemma Verifier_Verify_accepts:
  assumes "fst (Verify osv ff req (v_KeysDir v) fs0) = Inr (True, sg)"
    and "ParsePublicInputs sg (cert_chain_type (rq_ProofType req)) = Inr parsed"
    and "smt_ok v (rq_ProofType req) parsed" "issuer_ok v (rq_ProofType req) parsed" "app_ok v parsed"
  shows "\<exists>r. fst (Verifier_Verify osv ff later now v req fs0) = Inr r \<and> r_Verified r \<and> r_Parsed r = Some parsed"
proof -
  obtain fs2 where w: "Verify osv ff req (v_KeysDir v) fs0 = (Inr (True, sg), fs2)"
    using assms(1) by (metis prod.collapse)
  obtain r1 where r1: "smt_check later now v req parsed (new_result True '''' sg (Some parsed)) = Inr r1"
    using assms(3) by (auto simp: smt_check_def smt_ok_def checkSmtRoot_def Let_def split: option.splits sum.splits)
  obtain r2 where r2: "issuer_check now v req parsed r1 = Inr r2"
    using assms(4)
    by (auto simp: issuer_check_def issuer_ok_def checkIssuerModulus_def TrustedWithMeta_def Trusted_cert_def
        LimbsEqual_iff Let_def split: option.splits dest: map_eq_imp_length_eq)
  obtain r where r: "fst (Verifier_Verify osv ff later now v req fs0) = Inr r"
    using w assms(2) r1 r2 by (simp add: Verifier_Verify_def cert_chain_type_def Let_def)
  then obtain fs1 where "Verifier_Verify osv ff later now v req fs0 = (Inr r, fs1)" by (metis prod.collapse)
  from Verifier_Verify_Inr [OF this] assms r show ?thesis by auto
qed

lemma Verifier_verified:
  assumes "fst (Verifier_Verify osv ff later now v req fs0) = Inr r" "r_Verified r"
  obtains sg parsed where "fst (Verify osv ff req (v_KeysDir v) fs0) = Inr (True, sg)"
    "ParsePublicInputs sg (cert_chain_type (rq_ProofType req)) = Inr parsed" "r_Parsed r = Some parsed"
    "smt_ok v (rq_ProofType req) parsed" "issuer_ok v (rq_ProofType req) parsed" "app_ok v parsed"
proof -
  obtain fs1 where "Verifier_Verify osv ff later now v req fs0 = (Inr r, fs1)" using assms(1) by (metis prod.collapse)
  from Verifier_Verify_Inr [OF this] assms(2) that show ?thesis
    by (auto simp: new_result_def split: sum.splits bool.splits)
qed

subsection \<open>A persisted request\<close>

lemma sqlite_service_persisted:
  assumes "sqlite_service q1 q2 now1 now2 d0 vres req d = ((Some res, None), d')" "p_Persisted res"
  obtains r k c where "vres = Inr r" "r_Verified r" "NormalizeDecimal (pi_Challenge (the (r_Parsed r))) = Inr k"
    "GetChallenge q1 k d0 = Inr (Some c)" "now1 \<le> c_ExpiresAt c"
    "r_Parsed (p_Result res) = r_Parsed r" "r_Verified (p_Result res)"
    "p_Nullifier res = pi_Nullifier (the (r_Parsed r))"
    "VerifyAndRecord q2 now2 (pi_Nullifier (the (r_Parsed r))) k None (StoreKey (rq_ProofType req)) d = (None, d')"
  using assms(1) unfolding sqlite_service_def
proof (cases rule: Service_ok)
  case (recorded r k c)
  show ?thesis by (rule that [of r k c]) (use recorded in simp_all)
qed (use assms(2) in simp_all)

lemma with_verification_neq: "with_verification q n c p t d \<noteq> d"
  by (metis n_not_Suc_n with_verification_simps(5))

lemma sqlite_service_changes:
  assumes "sqlite_service q1 q2 now1 now2 d0 vres req d = (out, d')"
  shows "d' \<noteq> d \<longleftrightarrow> (\<exists>res. out = (Some res, None) \<and> p_Persisted res)"
proof
  assume n: "d' \<noteq> d"
  with Service_store_step [OF assms [unfolded sqlite_service_def]] obtain n k and res :: ProcessResult where
    "VerifyAndRecord q2 now2 n k None (StoreKey (rq_ProofType req)) d = (snd out, d')"
    "fst out = Some res" "p_Persisted res \<longleftrightarrow> snd out = None"
    by (elim disjE exE conjE) (simp, rule that)
  with n VerifyAndRecord_error show "\<exists>res. out = (Some res, None) \<and> p_Persisted res"
    by (cases out; cases "snd out") fastforce+
next
  assume "\<exists>res. out = (Some res, None) \<and> p_Persisted res"
  then obtain res where res: "out = (Some res, None)" "p_Persisted res" by blast
  obtain n k where "VerifyAndRecord q2 now2 n k None (StoreKey (rq_ProofType req)) d = (None, d')"
    by (rule sqlite_service_persisted [OF assms [unfolded res(1)] res(2)])
  from VerifyAndRecord_success [OF this] show "d' \<noteq> d" using with_verification_neq by auto
qed

subsection \<open>Runs\<close>

lemma svc_run:
  "\<exists>ys. (\<forall>y \<in> set ys. \<not> is_clean y) \<and> run_accepted svc_exec xs d = run_accepted store_exec ys d"
proof (induction xs arbitrary: d)
  case Nil
  show ?case by (rule exI [of _ "[]"]) simp
next
  case (Cons x xs)
  obtain y where y: "\<not> is_clean y" "svc_exec x d = store_exec y d" using svc_store_exec by blast
  obtain ys where ys: "\<forall>y \<in> set ys. \<not> is_clean y"
    "run_accepted svc_exec xs (snd (store_exec y d)) = run_accepted store_exec ys (snd (store_exec y d))"
    using Cons.IH by blast
  show ?case
    by (rule exI [of _ "y # ys"]) (use y ys in \<open>cases "store_exec y d"; simp\<close>)
qed

lemma svc_run_log:
  assumes "run_accepted svc_exec xs d = (as, d')"
  shows "log_of d' = log_of d @ as"
proof -
  obtain ys where "\<forall>y \<in> set ys. \<not> is_clean y" "run_accepted svc_exec xs d = run_accepted store_exec ys d"
    using svc_run by blast
  with assms log_run show ?thesis by metis
qed

subsection \<open>A concrete server\<close>

definition demo_verifier :: "string Verifier" where
  "demo_verifier = \<lparr>v_KeysDir = ''keys'', v_SmtRoot = None, v_IssuerCert = None, v_ExpectedAppID = []\<rparr>"

definition demo_db :: db where
  "demo_db = \<lparr>challenges = [\<lparr>ch_challenge = ''7'', ch_issued_at = format_datetime 0,
      ch_expires_at = format_rfc3339 0, ch_consumed_at = None\<rparr>], verifications = [], next_id = 1\<rparr>"

lemma challenge_of_seed_7: "challenge_of_seed (replicate 31 0 @ [7]) = ''7''"
  using SetBytes_zeros [of 31 "[7]"]
  by (simp add: challenge_of_seed_eq SetBytes_def Int_String_def nat_string_def digits_of.simps digit_char_def
      char_of_def bit_0 nat_of_digits_def)

lemma demo_db_reachable: "db_reachable demo_db"
proof -
  from challenge_of_seed_7 have "demo_db = snd (CreateChallenge (quiet_sqlite 0) 0 0 (Inr (replicate 31 0 @ [7])) empty_db)"
    by (simp add: demo_db_def CreateChallenge_def sql_defs quiet_sqlite_def empty_db_def Let_def)
  moreover have "db_step empty_db (snd (CreateChallenge (quiet_sqlite 0) 0 0 (Inr (replicate 31 0 @ [7])) empty_db))"
    by (rule db_step.create) (simp add: four_digit_year_0)
  ultimately show ?thesis using db_reachable.step [OF db_reachable.start] by simp
qed

definition demo_verified :: Result where
  "demo_verified = new_result True '''' (Some (demo_signals zero_limbs)) (Some (demo_parsed zero_limbs))"

lemma demo_verifier_verified:
  "fst (Verifier_Verify demo_os (demo_ffi 1 zero_limbs) (\<lambda>p. p) 0 demo_verifier demo_request Map.empty) = Inr demo_verified"
proof -
  obtain fs2 where "Verify demo_os (demo_ffi 1 zero_limbs) demo_request ''keys'' Map.empty
      = (Inr (True, Some (demo_signals zero_limbs)), fs2)"
    using demo_Verify [of zero_limbs "''keys''" Map.empty] by (metis prod.collapse)
  then show ?thesis
    using demo_parses [OF zero_limbs_length] demo_cert_chain_type
    by (simp add: Verifier_Verify_def demo_verifier_def smt_check_def issuer_check_def app_id_check_def
        cert_chain_type_def demo_verified_def)
qed

lemma NormalizeDecimal_7: "NormalizeDecimal ''7'' = Inr ''7''"
  by (simp add: NormalizeDecimal_def hex_prefixed_def num_eval)

lemma demo_GetChallenge: "GetChallenge (quiet_sqlite 0) ''7'' demo_db = Inr (Some \<lparr>c_Challenge = ''7'', c_ExpiresAt = 0\<rparr>)"
  by (simp add: GetChallenge_def sql_defs quiet_sqlite_def demo_db_def parse_expiry_0)

lemma demo_record:
  "VerifyAndRecord (quiet_sqlite 0) 0 ''n'' ''7'' None ''link_rs2048'' demo_db
     = (None, with_verification (quiet_sqlite 0) ''n'' ''7'' None ''link_rs2048'' demo_db)"
  by (simp add: VerifyAndRecord_def sql_defs quiet_sqlite_def demo_db_def parse_expiry_0 with_verification_def
      After_def Let_def)

lemma demo_StoreKey: "StoreKey (rq_ProofType demo_request) = ''link_rs2048''"
  by (simp add: StoreKey_def demo_request_def ProofTypeRS2048_def ProofTypeRS4096_def)

lemma demo_service:
  "sqlite_service (quiet_sqlite 0) (quiet_sqlite 0) 0 0 demo_db (Inr demo_verified) demo_request demo_db
     = ((Some \<lparr>p_Result = demo_verified\<lparr>r_Challenge := Some \<lparr>co_Match = True, co_Expected = ''7'', co_Observed = ''7''\<rparr>\<rparr>,
               p_Nullifier = ''n'', p_Persisted = True\<rparr>, None),
        with_verification (quiet_sqlite 0) ''n'' ''7'' None ''link_rs2048'' demo_db)"
  by (simp add: sqlite_service_def Service_VerifyAndRecord_def demo_verified_def new_result_def demo_parsed_def
      NormalizeDecimal_7 demo_GetChallenge After_def CheckChallenge_def ConstantTimeCompare_def finalize_def
      demo_StoreKey demo_record Let_def)

text \<open>Nothing stops a request that meets every condition.\<close>

lemma accepted_request:
  assumes "fst (Verify osv ff req (v_KeysDir v) fs) = Inr (True, sg)"
    and "ParsePublicInputs sg (cert_chain_type (rq_ProofType req)) = Inr parsed"
    and "smt_ok v (rq_ProofType req) parsed" and "issuer_ok v (rq_ProofType req) parsed" and "app_ok v parsed"
    and "NormalizeDecimal (pi_Challenge parsed) = Inr k"
    and "List.find (\<lambda>r. ch_challenge r = k) (challenges d) = Some row"
    and "parseTime (ch_expires_at row) = Inr t" and "now1 \<le> t" and "now2 \<le> t" and "ch_consumed_at row = None"
    and "\<not> spent d (pi_Nullifier parsed)" and "no_fault q1" and "no_fault q2"
  shows "\<exists>res. sqlite_service q1 q2 now1 now2 d (fst (Verifier_Verify osv ff later now v req fs)) req d
      = ((Some res, None), with_verification q2 (pi_Nullifier parsed) k None (StoreKey (rq_ProofType req)) d)
    \<and> p_Persisted res \<and> r_Verified (p_Result res)"
proof -
  obtain r where r: "fst (Verifier_Verify osv ff later now v req fs) = Inr r" "r_Verified r" "r_Parsed r = Some parsed"
    using Verifier_Verify_accepts [OF assms(1-5)] by blast
  have kin: "k \<in> ch_challenge ` set (challenges d)" "ch_challenge row = k"
    using find_SomeD [OF assms(7)] by auto
  have "VerifyAndRecord q2 now2 (pi_Nullifier parsed) k None (StoreKey (rq_ProofType req)) d
      = (None, with_verification q2 (pi_Nullifier parsed) k None (StoreKey (rq_ProofType req)) d)"
    using assms(7-14) kin
    by (simp add: VerifyAndRecord_def sql_defs no_fault_def After_def spent_def with_verification_def Let_def)
  moreover have "GetChallenge q1 k d = Inr (Some \<lparr>c_Challenge = k, c_ExpiresAt = t\<rparr>)"
    using assms(7,8,13) kin by (simp add: GetChallenge_def sql_defs no_fault_def)
  moreover have "co_Match (CheckChallenge parsed k)"
    using assms(6) by (simp add: CheckChallenge_def ConstantTimeCompare_def Let_def)
  ultimately show ?thesis
    using r assms(6,9)
    by (simp add: sqlite_service_def Service_VerifyAndRecord_def After_def finalize_def Let_def)
qed

subsection \<open>Properties\<close>

text \<open>C4: the guarantee of the service.  When a request is answered as persisted, the Rust verifier
  accepted its proofs, the signals parse, the SMT root, the issuer modulus and the application id
  passed their checks, the challenge of the proof was issued and had not expired at either clock
  reading and was not consumed, its nullifier was new, and the tables are exactly those before with
  one verification added under the nullifier, challenge and circuit of this proof and the challenge
  marked consumed.\<close>

theorem persisted_request:
  assumes "sqlite_service q1 q2 now1 now2 d0 (fst (Verifier_Verify osv ff later now v req fs)) req d
      = ((Some res, None), d')"
    and "p_Persisted res"
  shows "\<exists>sg parsed k c row t.
      fst (Verify osv ff req (v_KeysDir v) fs) = Inr (True, sg)
    \<and> ParsePublicInputs sg (cert_chain_type (rq_ProofType req)) = Inr parsed
    \<and> smt_ok v (rq_ProofType req) parsed \<and> issuer_ok v (rq_ProofType req) parsed \<and> app_ok v parsed
    \<and> NormalizeDecimal (pi_Challenge parsed) = Inr k
    \<and> GetChallenge q1 k d0 = Inr (Some c) \<and> now1 \<le> c_ExpiresAt c
    \<and> List.find (\<lambda>r. ch_challenge r = k) (challenges d) = Some row
    \<and> parseTime (ch_expires_at row) = Inr t \<and> now2 \<le> t \<and> ch_consumed_at row = None
    \<and> \<not> spent d (pi_Nullifier parsed)
    \<and> d' = with_verification q2 (pi_Nullifier parsed) k None
        (if rq_ProofType req = ProofTypeRS4096 then ''link_rs4096'' else ''link_rs2048'') d
    \<and> r_Verified (p_Result res) \<and> r_Parsed (p_Result res) = Some parsed \<and> p_Nullifier res = pi_Nullifier parsed"
proof -
  obtain r k c where s: "fst (Verifier_Verify osv ff later now v req fs) = Inr r" "r_Verified r"
    "NormalizeDecimal (pi_Challenge (the (r_Parsed r))) = Inr k" "GetChallenge q1 k d0 = Inr (Some c)"
    "now1 \<le> c_ExpiresAt c" "r_Parsed (p_Result res) = r_Parsed r" "r_Verified (p_Result res)"
    "p_Nullifier res = pi_Nullifier (the (r_Parsed r))"
    "VerifyAndRecord q2 now2 (pi_Nullifier (the (r_Parsed r))) k None (StoreKey (rq_ProofType req)) d = (None, d')"
    by (rule sqlite_service_persisted [OF assms])
  obtain sg parsed where p: "fst (Verify osv ff req (v_KeysDir v) fs) = Inr (True, sg)"
    "ParsePublicInputs sg (cert_chain_type (rq_ProofType req)) = Inr parsed" "r_Parsed r = Some parsed"
    "smt_ok v (rq_ProofType req) parsed" "issuer_ok v (rq_ProofType req) parsed" "app_ok v parsed"
    by (rule Verifier_verified [OF s(1,2)])
  from s p(3) VerifyAndRecord_success [OF s(9)] obtain row t where
    "List.find (\<lambda>r. ch_challenge r = k) (challenges d) = Some row"
    "parseTime (ch_expires_at row) = Inr t" "now2 \<le> t" "ch_consumed_at row = None"
    "\<not> spent d (pi_Nullifier parsed)"
    "d' = with_verification q2 (pi_Nullifier parsed) k None (StoreKey (rq_ProofType req)) d"
    by (elim exE conjE) simp
  with s p show ?thesis
    by (intro exI [of _ sg] exI [of _ parsed] exI [of _ k] exI [of _ c] exI [of _ row] exI [of _ t])
      (simp add: StoreKey_def)
qed

theorem persisted_request_witness:
  "\<exists>res d'. sqlite_service (quiet_sqlite 0) (quiet_sqlite 0) 0 0 demo_db
      (fst (Verifier_Verify demo_os (demo_ffi 1 zero_limbs) (\<lambda>p. p) 0 demo_verifier demo_request Map.empty))
      demo_request demo_db = ((Some res, None), d')
    \<and> d' = with_verification (quiet_sqlite 0) ''n'' ''7'' None ''link_rs2048'' demo_db
    \<and> r_Verified (p_Result res) \<and> p_Nullifier res = ''n''"
proof -
  let ?call = "sqlite_service (quiet_sqlite 0) (quiet_sqlite 0) 0 0 demo_db
      (fst (Verifier_Verify demo_os (demo_ffi 1 zero_limbs) (\<lambda>p. p) 0 demo_verifier demo_request Map.empty))
      demo_request demo_db"
  obtain res where r: "?call = ((Some res, None), with_verification (quiet_sqlite 0) ''n'' ''7'' None ''link_rs2048'' demo_db)"
    "p_Persisted res" "p_Nullifier res = ''n''"
    unfolding demo_verifier_verified demo_service by simp
  from persisted_request [OF r(1,2)] have "r_Verified (p_Result res)" by (elim exE conjE)
  with r show ?thesis by blast
qed

text \<open>C8: all or nothing: whatever the proof verifier answers, whatever fails and however stale the
  lookup was, the tables change exactly when the request is answered as persisted.\<close>

theorem service_all_or_nothing:
  "case sqlite_service q1 q2 now1 now2 d0 vres req d of
     (out, d') \<Rightarrow> d' \<noteq> d \<longleftrightarrow> (\<exists>res. out = (Some res, None) \<and> p_Persisted res)"
  using sqlite_service_changes [of q1 q2 now1 now2 d0 vres req d] by (auto split: prod.split)

text \<open>C6: an honest request succeeds: when the Rust verifier accepts the proofs, the signals parse and
  pass the configured checks, the challenge is stored, unexpired at both clock readings and not
  consumed, the nullifier is new and the engine does not fail, the request is answered as verified
  and persisted.\<close>

theorem honest_request_persisted:
  assumes "fst (Verify osv ff req (v_KeysDir v) fs) = Inr (True, sg)"
    and "ParsePublicInputs sg (cert_chain_type (rq_ProofType req)) = Inr parsed"
    and "smt_ok v (rq_ProofType req) parsed" and "issuer_ok v (rq_ProofType req) parsed" and "app_ok v parsed"
    and "NormalizeDecimal (pi_Challenge parsed) = Inr k"
    and "List.find (\<lambda>r. ch_challenge r = k) (challenges d) = Some row"
    and "parseTime (ch_expires_at row) = Inr t" and "now1 \<le> t" and "now2 \<le> t" and "ch_consumed_at row = None"
    and "\<not> spent d (pi_Nullifier parsed)" and "no_fault q1" and "no_fault q2"
  shows "\<exists>res. sqlite_service q1 q2 now1 now2 d (fst (Verifier_Verify osv ff later now v req fs)) req d
      = ((Some res, None), with_verification q2 (pi_Nullifier parsed) k None (StoreKey (rq_ProofType req)) d)
    \<and> p_Persisted res \<and> r_Verified (p_Result res)"
  by (rule accepted_request [OF assms])

theorem honest_request_persisted_witness:
  "\<exists>res. sqlite_service (quiet_sqlite 0) (quiet_sqlite 0) 0 0 demo_db
      (fst (Verifier_Verify demo_os (demo_ffi 1 zero_limbs) (\<lambda>p. p) 0 demo_verifier demo_request Map.empty))
      demo_request demo_db = ((Some res, None), with_verification (quiet_sqlite 0) ''n'' ''7'' None ''link_rs2048'' demo_db)
    \<and> p_Persisted res \<and> r_Verified (p_Result res)"
proof -
  have w: "fst (Verify demo_os (demo_ffi 1 zero_limbs) demo_request (v_KeysDir demo_verifier) Map.empty)
      = Inr (True, Some (demo_signals zero_limbs))"
    by (rule demo_Verify)
  have p: "ParsePublicInputs (Some (demo_signals zero_limbs)) (cert_chain_type (rq_ProofType demo_request))
      = Inr (demo_parsed zero_limbs)"
    using demo_parses [OF zero_limbs_length] by (simp add: demo_cert_chain_type)
  have k: "NormalizeDecimal (pi_Challenge (demo_parsed zero_limbs)) = Inr ''7''"
    by (simp add: demo_parsed_def NormalizeDecimal_7)
  have row: "List.find (\<lambda>r. ch_challenge r = ''7'') (challenges demo_db) = Some (challenges demo_db ! 0)"
    by (simp add: demo_db_def)
  have t: "parseTime (ch_expires_at (challenges demo_db ! 0)) = Inr 0" by (simp add: demo_db_def parse_expiry_0)
  have ok: "smt_ok demo_verifier (rq_ProofType demo_request) (demo_parsed zero_limbs)"
    "issuer_ok demo_verifier (rq_ProofType demo_request) (demo_parsed zero_limbs)"
    "app_ok demo_verifier (demo_parsed zero_limbs)"
    by (simp_all add: demo_verifier_def smt_ok_def issuer_ok_def app_ok_def)
  from honest_request_persisted [OF w p ok k row t, of 0 0 "quiet_sqlite 0" "quiet_sqlite 0" "\<lambda>p. p" 0]
  show ?thesis by (simp add: demo_StoreKey demo_parsed_def) (simp add: demo_db_def spent_def)
qed

text \<open>No replay through the service: in any run of requests to a server, on any tables the server
  can reach, whatever the proof verifier answers, however stale the lookups are and whatever fails,
  no nullifier and no challenge is answered as persisted twice, none used before is, and the
  verifications table holds exactly the persisted pairs after those it held.\<close>

theorem service_no_replay:
  assumes "db_reachable d" and "run_accepted svc_exec xs d = (as, d')"
  shows "distinct (map fst as) \<and> distinct (map snd as)
    \<and> (\<forall>a \<in> set as. \<not> spent d (fst a) \<and> \<not> consumed d (snd a))
    \<and> map (\<lambda>v. (vr_nullifier v, vr_challenge v)) (verifications d')
        = map (\<lambda>v. (vr_nullifier v, vr_challenge v)) (verifications d) @ as"
  using link_service.run_spec [OF conjunct1 [OF db_reachable_inv [OF assms(1)]] _ assms(2)]
    svc_run_log [OF assms(2)] by (simp add: log_of_def)

definition zero_verified :: Result where
  "zero_verified = new_result True '''' None (Some ((demo_parsed zero_limbs)\<lparr>pi_Challenge := ''0''\<rparr>))"

definition zero_request :: svc_op where
  "zero_request = SvcVerify (quiet_sqlite 0) 0 0 (Inr (Some \<lparr>c_Challenge = ''0'', c_ExpiresAt = 0\<rparr>))
     (Inr zero_verified) demo_request"

theorem service_no_replay_witness:
  "\<exists>as d'. run_accepted svc_exec [zero_request, zero_request] one_challenge = (as, d')
    \<and> as = [(''n'', ''0'')] \<and> distinct (map fst as)"
proof -
  have k: "NormalizeDecimal ''0'' = Inr ''0''" by (simp add: NormalizeDecimal_def hex_prefixed_def num_eval)
  obtain as d' where r: "run_accepted svc_exec [zero_request, zero_request] one_challenge = (as, d')" by fastforce
  then have "as = [(''n'', ''0'')]"
    by (simp add: zero_request_def zero_verified_def Service_VerifyAndRecord_def new_result_def demo_parsed_def k
        After_def CheckChallenge_def ConstantTimeCompare_def finalize_def demo_StoreKey one_challenge_eq
        VerifyAndRecord_def sql_defs quiet_sqlite_def parse_expiry_0 Let_def)
  moreover have "distinct (map fst as)" using service_no_replay [OF one_challenge_reachable r] by simp
  ultimately show ?thesis using r by blast
qed

text \<open>The challenge check of the service never fails: it compares the proof's challenge with the key
  derived from that same challenge, so no request is answered with the reason
  \<open>challenge_mismatch\<close>, and a request is answered as verified exactly when it was persisted.\<close>

theorem challenge_mismatch_unreachable:
  assumes "Service_VerifyAndRecord CheckChallenge get rcd now1 (fst (Verifier_Verify osv ff later now v req fs)) req s
      = ((Some res, None), s')"
  shows "r_Reason (p_Result res) \<noteq> ''challenge_mismatch'' \<and> (r_Verified (p_Result res) \<longleftrightarrow> p_Persisted res)"
  using link_verifier.no_mismatch [of get rcd now1 "(osv, ff, later, now, v, fs)" req s res s'] assms
  by (simp add: ReasonChallengeMismatch_def)

theorem challenge_mismatch_unreachable_witness:
  "\<exists>(res :: ProcessResult) d'. sqlite_service (quiet_sqlite 0) (quiet_sqlite 0) 0 0 demo_db
      (fst (Verifier_Verify demo_os (demo_ffi 1 zero_limbs) (\<lambda>p. p) 0 demo_verifier demo_request Map.empty))
      demo_request demo_db = ((Some res, None), d')
    \<and> r_Reason (p_Result res) \<noteq> ''challenge_mismatch'' \<and> p_Persisted res"
proof -
  obtain res d' where r: "sqlite_service (quiet_sqlite 0) (quiet_sqlite 0) 0 0 demo_db
      (fst (Verifier_Verify demo_os (demo_ffi 1 zero_limbs) (\<lambda>p. p) 0 demo_verifier demo_request Map.empty))
      demo_request demo_db = ((Some res, None), d')" "p_Persisted res"
    unfolding demo_verifier_verified demo_service by simp
  from challenge_mismatch_unreachable [OF r(1) [unfolded sqlite_service_def]] r show ?thesis by blast
qed

end
