(* ===== verification/Api_Spec.thy ===== *)
theory Api_Spec
  imports Http_Api Grpc_Api Service_Spec
begin

text \<open>
  What the two transports promise: they agree with each other, an answer that says verified and
  persisted is true, only the three state-changing requests change the store, and the debug
  endpoint needs its token.
\<close>

subsection \<open>Agreement of the transports\<close>

text \<open>What an answer means to a client, whichever transport it came by.\<close>

datatype meaning =
    Accepted | Rejected string | BadRequest | Missing | Duplicate | Stale | TryLater | Failed

definition http_meaning :: "http_reply \<Rightarrow> meaning \<Rightarrow> bool" where
  "http_meaning r m \<longleftrightarrow>
     (case m of
        Accepted \<Rightarrow> re_Status r = 200 \<and> (\<exists>fs. re_Body r = JObject ((''verified'', JBool True) # fs))
      | Rejected reason \<Rightarrow> re_Status r \<in> {200, 409}
          \<and> (\<exists>fs. re_Body r = JObject ([(''verified'', JBool False)] @ omit_string ''reason'' reason @ fs))
      | BadRequest \<Rightarrow> re_Status r = 400
      | Missing \<Rightarrow> re_Status r = 404
      | Duplicate \<Rightarrow> re_Status r = 409
      | Stale \<Rightarrow> re_Status r \<in> {400, 410}
      | TryLater \<Rightarrow> re_Status r = 503
      | Failed \<Rightarrow> re_Status r = 500)"

fun grpc_meaning :: "grpc_status + LinkVerifyResponse \<Rightarrow> meaning" where
  "grpc_meaning (Inr r) = (if gl_Verified r then Accepted else Rejected (gl_Reason r))"
| "grpc_meaning (Inl (c, msg)) =
     (case c of InvalidArgument \<Rightarrow> BadRequest | NotFound \<Rightarrow> Missing | AlreadyExists \<Rightarrow> Duplicate
      | FailedPrecondition \<Rightarrow> Stale | Unavailable \<Rightarrow> TryLater | Internal \<Rightarrow> Failed)"

text \<open>An error of the service stands for at most one of the conditions the transports know.\<close>

definition one_sentinel :: "err \<Rightarrow> bool" where
  "one_sentinel e \<longleftrightarrow> (\<forall>s t. err_is e s \<longrightarrow> err_is e t \<longrightarrow> s = t)"

lemma error_meaning:
  assumes "one_sentinel e"
  shows "http_meaning (linkVerify_error e result) (grpc_meaning (Inl (mapServiceError e n)))"
proof -
  have u: "err_is e s \<Longrightarrow> err_is e t \<longleftrightarrow> s = t" for s t using assms by (auto simp: one_sentinel_def)
  show ?thesis
  proof (cases "\<exists>s. err_is e s")
    case True
    then obtain s where s: "err_is e s" by blast
    show ?thesis
      by (cases s) (simp_all add: u [OF s] linkVerify_error_def mapServiceError_def writeStoreError_def
          jsonError_def json_reply_def http_meaning_def Let_def)
  next
    case False
    then show ?thesis
      by (simp add: linkVerify_error_def mapServiceError_def jsonError_def json_reply_def http_meaning_def)
  qed
qed

lemma result_meaning: "http_meaning (linkVerify_result result) (grpc_meaning (Inr (verify_response result)))"
  by (auto simp: linkVerify_result_def verify_response_def json_reply_def http_meaning_def fail_status_def
      json_VerifyFailResponse_def json_VerifySuccessResponse_def Let_def)

subsection \<open>The answers of the real service\<close>

definition answer :: "ProcessResult option \<times> err option \<Rightarrow> http_reply" where
  "answer out =
     (case out of
        (result, Some e) \<Rightarrow> linkVerify_error e result
      | (Some result, None) \<Rightarrow> linkVerify_result result
      | (None, None) \<Rightarrow> json_reply 500 (JMap Map.empty))"

lemma linkVerify_cases:
  assumes "linkVerify decode service body s = (reply, s')"
  obtains (refused) msg where "reply = jsonError msg 400" "s' = s"
  | (served) req out where "service req s = (out, s')" "reply = answer out"
proof (cases "decode (take maxRequestBody body) (length body \<le> maxRequestBody)")
  case None
  with assms show ?thesis by (intro refused) (auto simp: linkVerify_def)
next
  case (Some rq)
  show ?thesis
  proof (cases "lr_CertChainProof rq = [] \<or> lr_UserSigProof rq = []")
    case True
    with assms Some show ?thesis by (intro refused) (auto simp: linkVerify_def)
  next
    case False
    show ?thesis
    proof (cases "ParseProofType (lr_CertChainType rq)")
      case (Inl e)
      with assms Some False show ?thesis by (intro refused) (auto simp: linkVerify_def)
    next
      case (Inr pt)
      let ?rq = "\<lparr>rq_CertChainProof = lr_CertChainProof rq, rq_UserSigProof = lr_UserSigProof rq, rq_ProofType = pt\<rparr>"
      obtain out s1 where o: "service ?rq s = (out, s1)" by fastforce
      with assms Some False Inr have "reply = answer out \<and> s1 = s'"
        by (cases out; cases "fst out"; cases "snd out") (simp_all add: linkVerify_def answer_def)
      with o show ?thesis by (intro served) auto
    qed
  qed
qed

lemma json_error_not_verified:
  "re_Body (jsonError msg code) \<noteq> JObject fs" "re_Body (linkVerify_error e result) \<noteq> JObject fs"
  by (simp_all add: jsonError_def json_reply_def linkVerify_error_def writeStoreError_def Let_def)

lemma linkVerify_result_verified:
  "(\<exists>fs. re_Body (linkVerify_result res) = JObject ((''verified'', JBool True) # fs)) \<longleftrightarrow> r_Verified (p_Result res)"
  by (simp add: linkVerify_result_def json_reply_def json_VerifySuccessResponse_def json_VerifyFailResponse_def Let_def)

lemma answer_verified:
  "(\<exists>fs. re_Body (answer out) = JObject ((''verified'', JBool True) # fs))
    \<longleftrightarrow> (\<exists>res. out = (Some res, None) \<and> r_Verified (p_Result res))"
proof (cases out)
  case (Pair result e)
  show ?thesis
  proof (cases e)
    case None
    then show ?thesis using Pair linkVerify_result_verified
      by (cases result) (simp_all add: answer_def json_reply_def)
  next
    case (Some er)
    then show ?thesis using Pair by (cases result) (simp_all add: answer_def json_error_not_verified)
  qed
qed

lemma linkVerify_result_status: "r_Verified (p_Result res) \<Longrightarrow> re_Status (linkVerify_result res) = 200"
  by (simp add: linkVerify_result_def json_reply_def Let_def)

subsection \<open>The router\<close>

lemma handler_of_route:
  assumes "List.find (\<lambda>(m, p, h). match_method m (hq_Method r))
      (filter (\<lambda>(m, p, h). match_path p (hq_Path r)) (NewRouter sv)) = Some (m, p, h)"
  shows "(m, p, h) \<in> set (NewRouter sv) \<and> match_method m (hq_Method r) \<and> match_path p (hq_Path r)"
  using find_SomeD [OF assms] by auto

lemma match_path_Lit: "match_path (map Lit ls) xs \<longleftrightarrow> xs = ls"
proof (induction ls arbitrary: xs)
  case (Cons l ls)
  then show ?case by (cases xs) auto
qed (case_tac xs; simp)

lemma serve_changes:
  assumes "snd (serve decode now sv r s) \<noteq> s"
  shows "\<exists>m p h. (m, p, h) \<in> set (NewRouter sv) \<and> hq_Method r = ''POST'' \<and> match_path p (hq_Path r)
    \<and> h \<in> {HCreate, HLinkVerify, HCleanDB} \<and> serve decode now sv r s = handle decode now sv h r s"
proof -
  let ?here = "filter (\<lambda>(m, p, h). match_path p (hq_Path r)) (NewRouter sv)"
  obtain m p h where f: "List.find (\<lambda>(m, p, h). match_method m (hq_Method r)) ?here = Some (m, p, h)"
    using assms by (auto simp: serve_def Let_def split: option.splits)
  then have sv: "serve decode now sv r s = handle decode now sv h r s" by (simp add: serve_def)
  with assms have "h \<in> {HCreate, HLinkVerify, HCleanDB}" by (cases h) (auto simp: handle_def)
  with handler_of_route [OF f] have "m = ''POST''" by (auto simp: NewRouter_def split: if_splits)
  with handler_of_route [OF f] sv \<open>h \<in> _\<close> show ?thesis
    by (auto simp: match_method_def)
qed

subsection \<open>The program's service behind the transports\<close>

text \<open>
  What surrounds one request: the engine at its transactions, the clock at its readings, the tables
  its lookup saw (they may be stale), the seed of a new challenge, and the verifier with the
  operating system, the Rust library and the file system it runs on.
\<close>

record 'p env =
  en_lookup :: sqlite
  en_record :: sqlite
  en_now1 :: time
  en_now2 :: time
  en_seen :: db
  en_ttl :: duration
  en_rand :: "byte list result"
  en_os :: os
  en_ffi :: ffi
  en_later :: "'p Provider \<Rightarrow> 'p Provider"
  en_check :: time
  en_verifier :: "'p Verifier"
  en_fs :: fs

definition env_service :: "'p env \<Rightarrow> db service" where
  "env_service en req d =
     sqlite_service (en_lookup en) (en_record en) (en_now1 en) (en_now2 en) (en_seen en)
       (fst (Verifier_Verify (en_os en) (en_ffi en) (en_later en) (en_check en) (en_verifier en) req (en_fs en)))
       req d"

definition http_server :: "'p env \<Rightarrow> string \<Rightarrow> string \<Rightarrow> (db, 'p) server" where
  "http_server en appID token =
     \<lparr>sv_create = CreateChallenge (en_record en) (en_ttl en) (en_now1 en) (en_rand en),
      sv_get = (\<lambda>c d. GetChallenge (en_lookup en) c d), sv_clean = CleanDB (en_record en),
      sv_service = Some (env_service en), sv_smt = v_SmtRoot (en_verifier en),
      sv_cert = v_IssuerCert (en_verifier en), sv_appID = appID, sv_debugToken = token\<rparr>"

definition grpc_server :: "'p env \<Rightarrow> string \<Rightarrow> db Server" where
  "grpc_server en appID =
     NewServer (env_service en) (CreateChallenge (en_record en) (en_ttl en) (en_now1 en) (en_rand en))
       (\<lambda>c d. GetChallenge (en_lookup en) c d) appID"

text \<open>The service answers verified exactly when it recorded the verification.\<close>

lemma env_service_verified:
  assumes "env_service en req d = ((Some res, None), d')"
  shows "(r_Verified (p_Result res) \<longleftrightarrow> p_Persisted res) \<and> (d' \<noteq> d \<longleftrightarrow> p_Persisted res)"
proof -
  have "Service_VerifyAndRecord CheckChallenge (\<lambda>c. GetChallenge (en_lookup en) c (en_seen en))
      (VerifyAndRecord (en_record en) (en_now2 en)) (en_now1 en)
      ((\<lambda>(osv, ff, later, now, v, fs) req. fst (Verifier_Verify osv ff later now v req fs))
        (en_os en, en_ffi en, en_later en, en_check en, en_verifier en, en_fs en) req) req d = ((Some res, None), d')"
    using assms by (simp add: env_service_def sqlite_service_def)
  from link_verifier.no_mismatch [OF this] sqlite_service_changes [OF assms [unfolded env_service_def]]
  show ?thesis by simp
qed

lemma env_service_error:
  assumes "env_service en req d = ((r, Some e), d')"
  shows "d' = d"
  using sqlite_service_changes [OF assms [unfolded env_service_def]] by auto

lemma env_service_returns: "fst (env_service en req d) \<noteq> (None, None)"
  by (auto simp: env_service_def sqlite_service_def Service_VerifyAndRecord_def finalize_def Let_def
      split: sum.splits option.splits prod.splits)

text \<open>A service that finds the challenge expired, and a request to it over both transports.\<close>

definition demo_body :: LinkVerifyRequest where
  "demo_body = \<lparr>lr_CertChainType = ''rs4096'', lr_CertChainProof = [1], lr_UserSigProof = [2]\<rparr>"

definition demo_message :: LinkVerifyMessage where
  "demo_message = \<lparr>gq_Challenge = ''7'', gq_CertChainType = ''rs4096'', gq_CertChainProof = [1], gq_UserSigProof = [2]\<rparr>"

definition demo_server :: "db Server" where
  "demo_server = NewServer (\<lambda>req d. ((None, Some (Sentinel ErrChallengeExpired)), d))
     (\<lambda>d. (Inl (Errorf [] []), d)) (\<lambda>c d. Inr None) ''app''"

subsection \<open>Properties\<close>

text \<open>C14: an HTTP answer that says verified is true, and only it changes the tables: whatever the body,
  the lookup, the failures and the verifier, \<open>POST /link-verify\<close> changes the tables exactly when it
  answers 200 with \<open>verified\<close> true (the answer that also says \<open>persisted\<close>).\<close>

theorem http_verified_iff_recorded:
  "case linkVerify decode (env_service en) body d of
     (reply, d') \<Rightarrow> d' \<noteq> d \<longleftrightarrow>
       re_Status reply = 200 \<and> (\<exists>fs. re_Body reply = JObject ((''verified'', JBool True) # fs))"
proof -
  obtain reply d' where l: "linkVerify decode (env_service en) body d = (reply, d')" by fastforce
  then have "d' \<noteq> d \<longleftrightarrow> re_Status reply = 200 \<and> (\<exists>fs. re_Body reply = JObject ((''verified'', JBool True) # fs))"
  proof (cases rule: linkVerify_cases)
    case (refused msg)
    then show ?thesis by (simp add: json_error_not_verified)
  next
    case (served req out)
    show ?thesis
    proof (cases "\<exists>res. out = (Some res, None)")
      case True
      then obtain res where "out = (Some res, None)" by blast
      with served env_service_verified [of en req d res d'] show ?thesis
        using linkVerify_result_status [of res] linkVerify_result_verified [of res] by (simp add: answer_def) blast
    next
      case False
      then have "\<not> (\<exists>fs. re_Body reply = JObject ((''verified'', JBool True) # fs))"
        using served answer_verified by blast
      moreover have "d' = d"
        using False served env_service_error env_service_returns [of en req d] by (cases out; cases "snd out"; cases "fst out") auto
      ultimately show ?thesis by simp
    qed
  qed
  with l show ?thesis by simp
qed

text \<open>C15: the transports agree: for the same proofs and type (and a non-empty gRPC challenge), the HTTP
  handler and the gRPC method leave the same state and give answers of the same meaning, for any
  service whose errors stand for at most one known condition.\<close>

theorem transports_agree:
  assumes "decode (take maxRequestBody body) (length body \<le> maxRequestBody) = Some rq"
    and "gq_Challenge m \<noteq> ''''" and "gq_CertChainType m = lr_CertChainType rq"
    and "gq_CertChainProof m = lr_CertChainProof rq" and "gq_UserSigProof m = lr_UserSigProof rq"
    and "\<forall>req. fst (gv_service sv req s) \<noteq> (None, None)"
    and "\<forall>req e. snd (fst (gv_service sv req s)) = Some e \<longrightarrow> one_sentinel e"
  shows "snd (linkVerify decode (gv_service sv) body s) = snd (grpc_LinkVerify sv m s)
    \<and> http_meaning (fst (linkVerify decode (gv_service sv) body s)) (grpc_meaning (fst (grpc_LinkVerify sv m s)))"
proof (cases "(lr_CertChainProof rq = [] \<or> lr_UserSigProof rq = []) \<or> (\<exists>e. ParseProofType (lr_CertChainType rq) = Inl e)")
  case True
  with assms show ?thesis
    by (auto simp: linkVerify_def grpc_LinkVerify_def jsonError_def json_reply_def http_meaning_def)
next
  case False
  then obtain pt where pt: "ParseProofType (lr_CertChainType rq) = Inr pt" by (metis sum.exhaust)
  let ?rq = "\<lparr>rq_CertChainProof = lr_CertChainProof rq, rq_UserSigProof = lr_UserSigProof rq, rq_ProofType = pt\<rparr>"
  obtain result e s1 where o: "gv_service sv ?rq s = ((result, e), s1)" by (metis prod.collapse)
  show ?thesis
  proof (cases e)
    case None
    with o assms(6) have "result \<noteq> None" by (metis fst_conv)
    then obtain res where "result = Some res" by blast
    with o None assms False pt result_meaning show ?thesis
      by (simp add: linkVerify_def grpc_LinkVerify_def)
  next
    case (Some er)
    with o have "snd (fst (gv_service sv ?rq s)) = Some er" by simp
    with assms(7) have "one_sentinel er" by blast
    with o Some assms False pt error_meaning show ?thesis
      by (cases result) (simp_all add: linkVerify_def grpc_LinkVerify_def)
  qed
qed

theorem transports_agree_witness:
  "http_meaning (fst (linkVerify (\<lambda>b whole. Some demo_body) (gv_service demo_server) [] demo_db))
     (grpc_meaning (fst (grpc_LinkVerify demo_server demo_message demo_db)))
   \<and> grpc_meaning (fst (grpc_LinkVerify demo_server demo_message demo_db)) = Stale"
proof -
  have "http_meaning (fst (linkVerify (\<lambda>b whole. Some demo_body) (gv_service demo_server) [] demo_db))
     (grpc_meaning (fst (grpc_LinkVerify demo_server demo_message demo_db)))"
    by (rule conjunct2 [OF transports_agree [where rq = demo_body]])
      (simp_all add: demo_message_def demo_body_def demo_server_def NewServer_def one_sentinel_def)
  then show ?thesis
    by (simp add: grpc_LinkVerify_def demo_message_def demo_server_def NewServer_def ParseProofType_def ProofTypeRS2048_def
        ProofTypeRS4096_def mapServiceError_def)
qed

text \<open>C16: what may change the store over HTTP: only \<open>POST\<close> requests to \<open>/challenge\<close>, \<open>/link-verify\<close>
  and \<open>/debug/db/clean\<close>, the second only when a service is configured, and the last only when a
  debug token is configured and the request carries exactly \<open>Bearer\<close> and that token.\<close>

theorem http_state_changes:
  assumes "snd (serve decode now sv r s) \<noteq> s"
  shows "hq_Method r = ''POST''
    \<and> (hq_Path r = [''challenge'']
       \<or> hq_Path r = [''link-verify''] \<and> sv_service sv \<noteq> None
       \<or> hq_Path r = [''debug'', ''db'', ''clean''] \<and> sv_debugToken sv \<noteq> ''''
         \<and> hq_Header r ''Authorization'' = Some (''Bearer '' @ sv_debugToken sv))"
proof -
  obtain m p h where r: "(m, p, h) \<in> set (NewRouter sv)" "hq_Method r = ''POST''" "match_path p (hq_Path r)"
    "h \<in> {HCreate, HLinkVerify, HCleanDB}" "serve decode now sv r s = handle decode now sv h r s"
    using serve_changes [OF assms] by blast
  have lits: "match_path [Lit a] xs \<longleftrightarrow> xs = [a]" "match_path [Lit a, Lit b, Lit c] xs \<longleftrightarrow> xs = [a, b, c]"
    for a b c xs
    using match_path_Lit [of "[a]" xs] match_path_Lit [of "[a, b, c]" xs] by simp_all
  show ?thesis
  proof (cases "h = HCleanDB")
    case True
    with r assms have "validDebugToken (hq_Header r) (sv_debugToken sv)"
      by (auto simp: handle_def cleanDB_def split: if_splits)
    with True r show ?thesis
      by (auto simp: NewRouter_def lits validDebugToken_def ConstantTimeCompare_def HasPrefix_iff Let_def
          split: if_splits option.splits)
  qed (use r in \<open>auto simp: NewRouter_def lits split: if_splits\<close>)
qed

text \<open>A server with the token \<open>t\<close>, and requests to its debug route with one token or another.\<close>

definition clean_server :: "(db, string) server" where
  "clean_server = \<lparr>sv_create = \<lambda>d. (Inl (Errorf [] []), d), sv_get = \<lambda>c d. Inr None, sv_clean = CleanDB (quiet_sqlite 0),
     sv_service = None, sv_smt = None, sv_cert = None, sv_appID = [], sv_debugToken = ''t''\<rparr>"

definition clean_request :: "string \<Rightarrow> request" where
  "clean_request token = \<lparr>hq_Method = ''POST'', hq_Path = [''debug'', ''db'', ''clean''],
     hq_Header = [''Authorization'' \<mapsto> ''Bearer '' @ token], hq_Body = []\<rparr>"

theorem http_state_changes_witness:
  "snd (serve (\<lambda>b whole. None) 0 clean_server (clean_request ''t'') demo_db) = demo_db\<lparr>challenges := [], verifications := []\<rparr>
   \<and> snd (serve (\<lambda>b whole. None) 0 clean_server (clean_request ''t'') demo_db) \<noteq> demo_db
   \<and> hq_Header (clean_request ''t'') ''Authorization'' = Some (''Bearer '' @ sv_debugToken clean_server)
   \<and> snd (serve (\<lambda>b whole. None) 0 clean_server (clean_request ''wrong'') demo_db) = demo_db"
proof -
  have c: "snd (serve (\<lambda>b whole. None) 0 clean_server (clean_request ''t'') demo_db) = demo_db\<lparr>challenges := [], verifications := []\<rparr>"
    by (simp add: clean_server_def clean_request_def serve_def NewRouter_def match_method_def handle_def cleanDB_def
        validDebugToken_def HasPrefix_def ConstantTimeCompare_def CleanDB_def sql_defs quiet_sqlite_def demo_db_def)
  then have n: "snd (serve (\<lambda>b whole. None) 0 clean_server (clean_request ''t'') demo_db) \<noteq> demo_db" by (simp add: demo_db_def)
  have path: "hq_Path (clean_request token) = [''debug'', ''db'', ''clean'']" for token by (simp add: clean_request_def)
  have h: "hq_Header (clean_request ''t'') ''Authorization'' = Some (''Bearer '' @ sv_debugToken clean_server)"
    using http_state_changes [OF n] path by simp
  have "snd (serve (\<lambda>b whole. None) 0 clean_server (clean_request ''wrong'') demo_db) = demo_db"
  proof (rule ccontr)
    assume w: "snd (serve (\<lambda>b whole. None) 0 clean_server (clean_request ''wrong'') demo_db) \<noteq> demo_db"
    from http_state_changes [OF w] path show False by (simp add: clean_request_def clean_server_def)
  qed
  with c n h show ?thesis by blast
qed

end
