(* ===== verification/Server_Runs.thy ===== *)
theory Server_Runs
  imports Api_Spec
begin

text \<open>
  Runs of the whole server: requests of both transports, each with its own engine, clock, lookup and
  verifier, on the tables they share.  Every request is a step of the service (\<open>svc_exec\<close>) or leaves
  the tables alone.
\<close>

subsection \<open>Requests\<close>

text \<open>
  A request to the server by either transport, with what surrounds it, and the nullifier its answer
  reports as verified, if any.
\<close>

datatype 'p api_op =
    Http "'p env" "byte list \<Rightarrow> bool \<Rightarrow> LinkVerifyRequest option" time request
  | GrpcCreate "'p env"
  | GrpcVerify "'p env" LinkVerifyMessage

fun verified_nullifier :: "json \<Rightarrow> string option" where
  "verified_nullifier (JObject ((k, JBool True) # (k', JString n) # fs)) = Some n"
| "verified_nullifier _ = None"

fun api_exec :: "string \<Rightarrow> string \<Rightarrow> 'p api_op \<Rightarrow> db \<Rightarrow> string option \<times> db" where
  "api_exec appID token (Http en decode now r) d =
     (case serve decode now (http_server en appID token) r d of
        (reply, d') \<Rightarrow> (if hq_Path r = [''link-verify''] then verified_nullifier (re_Body reply) else None, d'))"
| "api_exec appID token (GrpcCreate en) d =
     (case grpc_CreateChallenge (grpc_server en appID) d of (r, d') \<Rightarrow> (None, d'))"
| "api_exec appID token (GrpcVerify en m) d =
     (case grpc_LinkVerify (grpc_server en appID) m d of
        (r, d') \<Rightarrow> (case r of Inr resp \<Rightarrow> if gl_Verified resp then Some (gl_Nullifier resp) else None
                   | Inl st \<Rightarrow> None, d'))"

text \<open>A request that wipes the tables: the debug endpoint, with the configured token.\<close>

fun wipes :: "string \<Rightarrow> 'p api_op \<Rightarrow> bool" where
  "wipes token (Http en decode now r) \<longleftrightarrow>
     token \<noteq> '''' \<and> hq_Method r = ''POST'' \<and> hq_Path r = [''debug'', ''db'', ''clean''] \<and> validDebugToken (hq_Header r) token"
| "wipes token _ \<longleftrightarrow> False"

text \<open>The service reads the lookup at one key only.\<close>

definition proof_key :: "Result result \<Rightarrow> string" where
  "proof_key vres =
     (case vres of
        Inl e \<Rightarrow> ''''
      | Inr r \<Rightarrow> (case NormalizeDecimal (pi_Challenge (the (r_Parsed r))) of Inl e \<Rightarrow> '''' | Inr k \<Rightarrow> k))"

lemma Service_get_at_key:
  "Service_VerifyAndRecord check get rcd now vres req s
     = Service_VerifyAndRecord check (\<lambda>_. get (proof_key vres)) rcd now vres req s"
  by (simp add: Service_VerifyAndRecord_def proof_key_def Let_def split: sum.split)

text \<open>A call of the service by a transport is a step of \<open>svc_exec\<close> that accepts the nullifier
  answered as verified.\<close>

definition service_op :: "'p env \<Rightarrow> Request \<Rightarrow> svc_op" where
  "service_op en req =
     (let vres = fst (Verifier_Verify (en_os en) (en_ffi en) (en_later en) (en_check en) (en_verifier en) req (en_fs en))
      in SvcVerify (en_record en) (en_now1 en) (en_now2 en)
           (GetChallenge (en_lookup en) (proof_key vres) (en_seen en)) vres req)"

definition answered :: "ProcessResult option \<times> err option \<Rightarrow> string option" where
  "answered out =
     (case out of (Some res, None) \<Rightarrow> if r_Verified (p_Result res) then Some (p_Nullifier res) else None | _ \<Rightarrow> None)"

lemma env_service_step:
  assumes "env_service en req d = (out, d')"
  shows "\<exists>acc. svc_exec (service_op en req) d = (acc, d') \<and> answered out = map_option fst acc"
proof -
  define vres where "vres = fst (Verifier_Verify (en_os en) (en_ffi en) (en_later en) (en_check en) (en_verifier en) req (en_fs en))"
  have s: "Service_VerifyAndRecord CheckChallenge (\<lambda>_. GetChallenge (en_lookup en) (proof_key vres) (en_seen en))
      (VerifyAndRecord (en_record en) (en_now2 en)) (en_now1 en) vres req d = (out, d')"
    using assms unfolding env_service_def sqlite_service_def vres_def by (subst (asm) Service_get_at_key)
  show ?thesis
  proof (cases "\<exists>res. out = (Some res, None)")
    case True
    then obtain res where out: "out = (Some res, None)" by blast
    with env_service_verified [of en req d res d'] assms have "r_Verified (p_Result res) \<longleftrightarrow> p_Persisted res" by simp
    with s out show ?thesis by (simp add: service_op_def vres_def [symmetric] answered_def)
  next
    case False
    then have "answered out = None" by (auto simp: answered_def split: prod.splits option.splits)
    moreover have "svc_exec (service_op en req) d = (None, d')"
      using s False by (auto simp: service_op_def vres_def [symmetric] split: option.splits prod.splits)
    ultimately show ?thesis by simp
  qed
qed

lemma idle_step: "\<exists>y. svc_exec y d = (None, d)"
  by (rule exI [of _ "SvcVerify (quiet_sqlite 0) 0 0 (Inr None) (Inl (Errorf [] [])) demo_request"])
    (simp add: Service_VerifyAndRecord_def)

lemma verified_answer: "verified_nullifier (re_Body (answer out)) = answered out"
  by (cases out; cases "fst out"; cases "snd out")
    (simp_all add: answer_def answered_def json_reply_def linkVerify_result_def json_VerifySuccessResponse_def
      json_VerifyFailResponse_def linkVerify_error_def writeStoreError_def jsonError_def omit_string_def Let_def)

lemma linkVerify_step:
  assumes "linkVerify decode (env_service en) body d = (reply, d')"
  shows "\<exists>y acc. svc_exec y d = (acc, d') \<and> verified_nullifier (re_Body reply) = map_option fst acc"
  using assms
proof (cases rule: linkVerify_cases)
  case (refused msg)
  with idle_step [of d] show ?thesis by (auto simp: jsonError_def json_reply_def)
next
  case (served req out)
  with env_service_step [OF served(1)] verified_answer [of out] show ?thesis by auto
qed

lemma grpc_LinkVerify_step:
  assumes "grpc_LinkVerify (grpc_server en appID) m d = (r, d')"
  shows "\<exists>y acc. svc_exec y d = (acc, d')
    \<and> (case r of Inr resp \<Rightarrow> if gl_Verified resp then Some (gl_Nullifier resp) else None | Inl st \<Rightarrow> None) = map_option fst acc"
proof (cases "gq_Challenge m = '''' \<or> gq_CertChainProof m = [] \<or> gq_UserSigProof m = []
    \<or> (\<exists>e. ParseProofType (gq_CertChainType m) = Inl e)")
  case True
  with assms have "d' = d" "\<exists>st. r = Inl st" by (auto simp: grpc_LinkVerify_def split: if_splits)
  with idle_step [of d] show ?thesis by auto
next
  case False
  then obtain pt where pt: "ParseProofType (gq_CertChainType m) = Inr pt" by (metis sum.exhaust)
  let ?rq = "\<lparr>rq_CertChainProof = gq_CertChainProof m, rq_UserSigProof = gq_UserSigProof m, rq_ProofType = pt\<rparr>"
  obtain out d1 where o: "env_service en ?rq d = (out, d1)" by fastforce
  have "(case r of Inr resp \<Rightarrow> if gl_Verified resp then Some (gl_Nullifier resp) else None | Inl st \<Rightarrow> None) = answered out
      \<and> d1 = d'"
    using assms False pt o
    by (cases out; cases "fst out"; cases "snd out")
      (auto simp: grpc_LinkVerify_def grpc_server_def NewServer_def answered_def verify_response_def Let_def)
  with env_service_step [OF o] show ?thesis by auto
qed

lemma create_step: "\<exists>y. svc_exec y d = (None, snd (CreateChallenge q ttl now rand d))"
  by (rule exI [of _ "SvcCreate q ttl now rand"]) simp

lemma serve_link_verify:
  "hq_Path r = [''link-verify''] \<Longrightarrow> hq_Method r = ''POST'' \<Longrightarrow>
     serve decode now (http_server en appID token) r d = linkVerify decode (env_service en) (hq_Body r) d"
  "hq_Path r = [''link-verify''] \<Longrightarrow> hq_Method r \<noteq> ''POST'' \<Longrightarrow>
     serve decode now (http_server en appID token) r d = (text_reply [''Allow'' \<mapsto> ''POST''] 405 ''Method Not Allowed'', d)"
  by (simp_all add: serve_def NewRouter_def http_server_def match_method_def allowed_methods_def handle_def)

lemma HCreate_changes:
  "snd (handle decode now (http_server en appID token) HCreate r d)
     = snd (CreateChallenge (en_record en) (en_ttl en) (en_now1 en) (en_rand en) d)"
  by (simp add: handle_def createChallenge_def http_server_def split: prod.split sum.split)

lemma serve_other:
  assumes "hq_Path r \<noteq> [''link-verify'']" "\<not> wipes token (Http en decode now r)"
  shows "snd (serve decode now (http_server en appID token) r d)
    \<in> {d, snd (CreateChallenge (en_record en) (en_ttl en) (en_now1 en) (en_rand en) d)}"
proof (cases "snd (serve decode now (http_server en appID token) r d) = d")
  case False
  from serve_changes [OF this] obtain m p h where h: "(m, p, h) \<in> set (NewRouter (http_server en appID token))"
    "match_path p (hq_Path r)" "h \<in> {HCreate, HLinkVerify, HCleanDB}" "hq_Method r = ''POST''"
    "serve decode now (http_server en appID token) r d = handle decode now (http_server en appID token) h r d" by blast
  have "\<not> match_path [Lit ''link-verify''] (hq_Path r)"
    using assms(1) match_path_Lit [of "[''link-verify'']"] by simp
  with h(1-3) have "h = HCreate \<or> h = HCleanDB \<and> token \<noteq> [] \<and> p = [Lit ''debug'', Lit ''db'', Lit ''clean'']"
    by (auto simp: NewRouter_def http_server_def split: if_splits)
  moreover have "\<not> (h = HCleanDB \<and> token \<noteq> [] \<and> p = [Lit ''debug'', Lit ''db'', Lit ''clean''])"
  proof
    assume c: "h = HCleanDB \<and> token \<noteq> [] \<and> p = [Lit ''debug'', Lit ''db'', Lit ''clean'']"
    with h(2) match_path_Lit [of "[''debug'', ''db'', ''clean'']"] have "hq_Path r = [''debug'', ''db'', ''clean'']" by simp
    with assms(2) c h(4) have "\<not> validDebugToken (hq_Header r) token" by simp
    with c h(5) False show False by (simp add: handle_def cleanDB_def http_server_def)
  qed
  ultimately show ?thesis using h(5) by (auto simp: HCreate_changes)
qed simp

lemma http_step:
  assumes "\<not> wipes token (Http en decode now r)"
  shows "\<exists>y acc. svc_exec y d = (acc, snd (api_exec appID token (Http en decode now r) d))
    \<and> fst (api_exec appID token (Http en decode now r) d) = map_option fst acc"
proof -
  obtain reply d' where s: "serve decode now (http_server en appID token) r d = (reply, d')" by fastforce
  show ?thesis
  proof (cases "hq_Path r = [''link-verify'']")
    case path: True
    show ?thesis
    proof (cases "hq_Method r = ''POST''")
      case True
      with s path serve_link_verify(1) [of r decode now en appID token d] have "linkVerify decode (env_service en) (hq_Body r) d = (reply, d')" by simp
      from linkVerify_step [OF this] s path show ?thesis by simp
    next
      case False
      with s path have "reply = text_reply [''Allow'' \<mapsto> ''POST''] 405 ''Method Not Allowed''" "d' = d"
        by (simp_all add: serve_link_verify(2))
      with s path idle_step [of d] show ?thesis by (auto simp: text_reply_def)
    qed
  next
    case False
    have "\<exists>y. svc_exec y d = (None, d')"
      using serve_other [OF False assms, where appID = appID and d = d] s idle_step [of d]
        create_step [of d "en_record en" "en_ttl en" "en_now1 en" "en_rand en"] by auto
    with s False show ?thesis by auto
  qed
qed

lemma api_exec_step:
  assumes "\<not> wipes token x"
  shows "\<exists>y acc. svc_exec y d = (acc, snd (api_exec appID token x d)) \<and> fst (api_exec appID token x d) = map_option fst acc"
proof (cases x)
  case (Http en decode now r)
  then show ?thesis using http_step [where appID = appID and d = d] assms by simp
next
  case (GrpcCreate en)
  obtain r d' where g: "grpc_CreateChallenge (grpc_server en appID) d = (r, d')" by fastforce
  then have "d' = snd (CreateChallenge (en_record en) (en_ttl en) (en_now1 en) (en_rand en) d)"
    by (auto simp: grpc_CreateChallenge_def grpc_server_def NewServer_def split: prod.splits sum.splits)
  with g GrpcCreate create_step [of d "en_record en" "en_ttl en" "en_now1 en" "en_rand en"] show ?thesis by auto
next
  case (GrpcVerify en m)
  obtain r d' where g: "grpc_LinkVerify (grpc_server en appID) m d = (r, d')" by fastforce
  from grpc_LinkVerify_step [OF g] GrpcVerify g show ?thesis by simp
qed

text \<open>A run of the server is a run of the service.\<close>

lemma api_run:
  assumes "\<forall>x \<in> set xs. \<not> wipes token x"
  shows "\<exists>ys as. run_accepted svc_exec ys d = (as, snd (run_accepted (api_exec appID token) xs d))
     \<and> fst (run_accepted (api_exec appID token) xs d) = map fst as"
using assms
proof (induction xs arbitrary: d)
  case Nil
  show ?case by (rule exI [of _ "[]"]) simp
next
  case (Cons x xs)
  obtain a d1 where x: "api_exec appID token x d = (a, d1)" by fastforce
  obtain bs d2 where xs: "run_accepted (api_exec appID token) xs d1 = (bs, d2)" by fastforce
  obtain y acc where y: "svc_exec y d = (acc, d1)" "a = map_option fst acc"
    using api_exec_step [where token = token and x = x and appID = appID and d = d] Cons.prems x by auto
  obtain ys as where ys: "run_accepted svc_exec ys d1 = (as, d2)" "bs = map fst as"
    using Cons.IH [of d1] Cons.prems xs by auto
  show ?case
    by (rule exI [of _ "y # ys"], rule exI [of _ "case acc of None \<Rightarrow> as | Some a \<Rightarrow> a # as"])
      (use x xs y ys in \<open>cases acc; simp\<close>)
qed

end
