(* ===== verification/Server_Main.thy ===== *)
theory Server_Main
  imports Go_Config Key_Manager Server_Runs
begin

text \<open>
  \<open>cmd/server/main.go\<close>, \<open>cmd/verifier/main.go\<close> and \<open>challenge/challenge.go\<close>: the start-up of the
  server from its environment variables, the middleware around the router, and the command-line
  verifier.  \<open>server_main\<close> runs \<open>main\<close> up to the call of \<open>ListenAndServe\<close>: it ends with the error of
  \<open>log.Fatal\<close> or with the configuration that serves.  What the process finds (environment, disk,
  network, clock, the schedule of the goroutines) is the record \<open>boot_env\<close>.  The listener is not modelled.
\<close>

subsection \<open>Configuration\<close>

definition DefaultTTL :: duration where "DefaultTTL = 5 * 60 * Second"

definition env_or :: "(string \<Rightarrow> string) \<Rightarrow> string \<Rightarrow> string \<Rightarrow> string" where
  "env_or getenv name def = (if getenv name \<noteq> '''' then getenv name else def)"

definition envDuration :: "(string \<Rightarrow> string) \<Rightarrow> string \<Rightarrow> duration \<Rightarrow> duration" where
  "envDuration getenv name def =
     (let v = getenv name in
      if v = '''' then def
      else case ParseDuration v of
             Inl e \<Rightarrow> def
           | Inr d \<Rightarrow> if d \<le> 0 then def else d)"

text \<open>The two sources the server configures, and their methods \<open>Name\<close>.\<close>

datatype smt_source = Onchain OnchainSource | GitHub GitHubReleaseSource

fun smt_source_Name :: "smt_source \<Rightarrow> string" where
  "smt_source_Name (Onchain s) = ''onchain''"
| "smt_source_Name (GitHub s) = ''github''"

text \<open>
  \<open>be_getenv\<close> is the environment after \<open>godotenv.Load\<close>.  \<open>be_rpc_order\<close> is the order in which the
  on-chain calls answer, \<open>be_cert_order\<close> and \<open>be_cert_picks\<close> the schedule of the certificate
  fetches, \<open>be_cert_clock\<close> their latency and clock readings.
\<close>

record boot_env =
  be_getenv :: "string \<Rightarrow> string"
  be_Abs :: "string \<Rightarrow> string"
  be_sha256 :: "byte list \<Rightarrow> byte list"
  be_mkdir :: "err option"
  be_keys :: "string \<Rightarrow> key_env"
  be_key_order :: "string list"
  be_sqlite :: "string \<Rightarrow> sqlite_open"
  be_keccak :: "byte list \<Rightarrow> byte list"
  be_rpc :: "rpcRequest \<Rightarrow> http_call"
  be_rpc_json :: "string \<Rightarrow> rpcResponse result"
  be_rpc_order :: "IssuerID list"
  be_http :: "http_request \<Rightarrow> http_call"
  be_release_json :: "string \<Rightarrow> string result"
  be_smt_latency :: "nat \<Rightarrow> duration"
  be_smt_now :: time
  be_crypto :: crypto
  be_embedded :: embedded
  be_load_now :: time
  be_cert_now :: time
  be_cert_clock :: "IssuerID \<Rightarrow> duration \<times> time \<times> time \<times> time"
  be_cert_order :: "IssuerID list"
  be_cert_picks :: "nat list"
  be_listen :: "string \<Rightarrow> err option"

subsection \<open>Trust anchors\<close>

definition startup_fetch :: "boot_env \<Rightarrow> nat \<Rightarrow> smt_source \<Rightarrow> (IssuerID \<rightharpoonup> Root) result \<times> duration" where
  "startup_fetch en k src =
     (case src of
        Onchain s \<Rightarrow> onchain_FetchAll (be_keccak en) (be_rpc en) (be_rpc_json en) s (be_rpc_order en)
      | GitHub s \<Rightarrow> github_FetchAll (be_http en) (be_release_json en) s, be_smt_latency en k)"

definition buildSmtRootProvider :: "boot_env \<Rightarrow> smt_source Provider option result" where
  "buildSmtRootProvider en =
     (let getenv = be_getenv en; mode = lower_utf8 (getenv ''SMT_ROOT_ENFORCE'') in
      if mode = ''disabled'' then Inr None
      else
        let tmo = envDuration getenv ''SMT_ROOT_FETCH_TIMEOUT'' (5 * Second);
            interval = envDuration getenv ''SMT_ROOT_REFRESH_INTERVAL'' (10 * 60 * Second);
            onchain = NewOnchainSource (getenv ''SMT_ROOT_RPC_URL'') (getenv ''SMT_ROOT_CONTRACT'') tmo;
            github = NewGitHubReleaseSource (getenv ''SMT_ROOT_GITHUB_REPO'') (getenv ''SMT_ROOT_GITHUB_TAG'') tmo;
            p = NewProvider (Some (Onchain onchain)) (Some (GitHub github)) interval tmo
        in case FetchNow smt_source_Name (startup_fetch en) (be_smt_now en) p of
             (Some e, p') \<Rightarrow> Inl (Wrapf ''startup fetch (set SMT_ROOT_ENFORCE=disabled to skip): %w'' [] e)
           | (None, p') \<Rightarrow> Inr (Some p'))"

definition startup_cert_fetch :: "boot_env \<Rightarrow> (IssuerID \<rightharpoonup> httpSource) \<Rightarrow> IssuerID \<Rightarrow> cert_fetch" where
  "startup_cert_fetch en sources i =
     (case be_cert_clock en i of (latency, validate, setc, recorded) \<Rightarrow>
        \<lparr>cf_der = (case sources i of
                     None \<Rightarrow> Inl (External ''no source'')
                   | Some src \<Rightarrow> httpSource_Fetch (be_http en) src),
         cf_latency = latency, cf_validate = validate, cf_set = setc, cf_record = recorded\<rparr>)"

text \<open>The error of the first fetch is only logged: the embedded certificates stay.\<close>

definition buildIssuerCertProvider :: "boot_env \<Rightarrow> CertProvider option result" where
  "buildIssuerCertProvider en =
     (let getenv = be_getenv en in
      if lower_utf8 (getenv ''ISSUER_CERT_ENFORCE'') = ''disabled'' then Inr None
      else
        let tmo = envDuration getenv ''ISSUER_CERT_FETCH_TIMEOUT'' (10 * Second);
            interval = envDuration getenv ''ISSUER_CERT_REFRESH_INTERVAL'' (24 * 3600 * Second);
            sources = DefaultSources (getenv ''ISSUER_CERT_G2_URL'') (getenv ''ISSUER_CERT_G3_URL'') tmo
        in case NewProvider_cert (be_crypto en) (be_embedded en) (be_load_now en) (be_cert_now en) sources interval tmo of
             Inl e \<Rightarrow> Inl (Wrapf ''embedded issuer certs (set ISSUER_CERT_ENFORCE=disabled to skip): %w'' [] e)
           | Inr p \<Rightarrow>
               (case FetchNow_cert (be_crypto en) (be_embedded en) (startup_cert_fetch en sources)
                       (be_cert_order en) (be_cert_picks en) p of
                  (err, p') \<Rightarrow> Inr (Some p')))"

subsection \<open>Start-up\<close>

record deployment =
  dp_httpAddr :: string
  dp_grpcAddr :: string
  dp_corsOrigin :: string
  dp_appID :: string
  dp_debugToken :: string
  dp_ttl :: duration
  dp_verifier :: "smt_source Verifier"

datatype startup = Fatal err | Serving deployment

record disk =
  dk_keys :: files
  dk_db :: dbfile

definition server_main :: "boot_env \<Rightarrow> disk \<Rightarrow> startup \<times> disk" where
  "server_main en disk =
     (let getenv = be_getenv en;
          httpAddr = (if getenv ''PORT'' \<noteq> '''' then '':'' @ getenv ''PORT'' else '':8080'');
          grpcAddr = (if getenv ''GRPC_PORT'' \<noteq> '''' then '':'' @ getenv ''GRPC_PORT'' else '':9090'');
          dbPath = env_or getenv ''DB_PATH'' ''./zkid.db'';
          keysDir = be_Abs en (env_or getenv ''KEYS_DIR'' ''./keys'');
          corsOrigin = env_or getenv ''CORS_ORIGIN'' ''*'';
          appID = getenv ''APP_ID'';
          debugToken = getenv ''DEBUG_TOKEN''
      in if appID = '''' then (Fatal (Errorf ''APP_ID env var is required'' []), disk)
         else if length appID \<noteq> AppIDLen
         then (Fatal (Errorf ''APP_ID must be exactly %d chars (got %d)''
                 [nat_string 10 AppIDLen, nat_string 10 (length appID)]), disk)
         else if \<not> ValidString appID
         then (Fatal (Errorf ''APP_ID must be valid UTF-8 (HiPKI /sign requires a UTF-8 payload)'' []), disk)
         else
           let disk1 = disk\<lparr>dk_keys := snd (EnsureKeys (be_sha256 en) (be_keys en) (be_mkdir en) keysDir
                              (be_key_order en) (dk_keys disk))\<rparr>
           in case NewSQLiteStore (be_sqlite en dbPath) DefaultTTL (dk_db disk1) of
                (Inl e, db) \<Rightarrow> (Fatal (Errorf ''init store: %v'' [err_text e]), disk1\<lparr>dk_db := db\<rparr>)
              | (Inr ttl, db) \<Rightarrow>
           (let disk2 = disk1\<lparr>dk_db := db\<rparr> in
            case buildSmtRootProvider en of
              Inl e \<Rightarrow> (Fatal (Errorf ''smt root provider: %v'' [err_text e]), disk2)
            | Inr provider \<Rightarrow>
           (case buildIssuerCertProvider en of
              Inl e \<Rightarrow> (Fatal (Errorf ''issuer cert provider: %v'' [err_text e]), disk2)
            | Inr issuerProvider \<Rightarrow>
           (let verifier = \<lparr>v_KeysDir = keysDir, v_SmtRoot = provider, v_IssuerCert = issuerProvider,
                            v_ExpectedAppID = appID\<rparr>
            in case be_listen en grpcAddr of
                 Some e \<Rightarrow> (Fatal (Errorf ''gRPC listen on %s: %v'' [grpcAddr, err_text e]), disk2)
               | None \<Rightarrow>
                   (Serving \<lparr>dp_httpAddr = httpAddr, dp_grpcAddr = grpcAddr, dp_corsOrigin = corsOrigin,
                             dp_appID = appID, dp_debugToken = debugToken, dp_ttl = ttl,
                             dp_verifier = verifier\<rparr>, disk2)))))"

subsection \<open>Middleware\<close>

type_synonym 's http_handler = "request \<Rightarrow> 's \<Rightarrow> http_reply \<times> 's"

definition cors_headers :: "string \<Rightarrow> string \<rightharpoonup> string" where
  "cors_headers origin =
     [''Access-Control-Allow-Origin'' \<mapsto> origin,
      ''Access-Control-Allow-Methods'' \<mapsto> ''GET, POST, OPTIONS'',
      ''Access-Control-Allow-Headers'' \<mapsto> ''Content-Type'']"

definition corsMiddleware :: "string \<Rightarrow> 's http_handler \<Rightarrow> 's http_handler" where
  "corsMiddleware origin nxt r s =
     (if hq_Method r = ''OPTIONS''
      then (\<lparr>re_Status = 204, re_Headers = cors_headers origin, re_Body = JNone\<rparr>, s)
      else case nxt r s of
             (reply, s') \<Rightarrow> (reply\<lparr>re_Headers := cors_headers origin ++ re_Headers reply\<rparr>, s'))"

text \<open>
  The log line of a request, but for the time it took.  The \<open>statusWriter\<close> starts at 200 and keeps
  the status the handler writes; a handler that only writes a body answers 200 without a call of
  \<open>WriteHeader\<close> of its own.  \<open>net/http\<close> sends the first header it is given.
\<close>

type_synonym access = "string \<times> string list \<times> nat"

record statusWriter =
  sw_sent :: "nat option"
  sw_status :: nat

definition WriteHeader :: "nat \<Rightarrow> statusWriter \<Rightarrow> statusWriter" where
  "WriteHeader code w =
     w\<lparr>sw_status := code, sw_sent := (case sw_sent w of None \<Rightarrow> Some code | Some c \<Rightarrow> Some c)\<rparr>"

definition written :: "http_reply \<Rightarrow> statusWriter \<Rightarrow> statusWriter" where
  "written reply w = (if re_Status reply = 200 then w else WriteHeader (re_Status reply) w)"

definition logMiddleware :: "'s http_handler \<Rightarrow> ('s \<times> access list) http_handler" where
  "logMiddleware nxt r st =
     (case st of (s, log) \<Rightarrow>
        case nxt r s of (reply, s') \<Rightarrow>
          let sw = written reply \<lparr>sw_sent = None, sw_status = 200\<rparr>
          in (reply, (s', log @ [(hq_Method r, hq_Path r, sw_status sw)])))"

lemma logged_status [simp]: "sw_status (written reply \<lparr>sw_sent = None, sw_status = 200\<rparr>) = re_Status reply"
  by (simp add: written_def WriteHeader_def)

text \<open>What \<open>main\<close> serves: the router of the deployment behind the middleware.\<close>

definition deployed :: "deployment \<Rightarrow> (byte list \<Rightarrow> bool \<Rightarrow> LinkVerifyRequest option) \<Rightarrow> time
    \<Rightarrow> smt_source env \<Rightarrow> (db \<times> access list) http_handler" where
  "deployed dp decode now en =
     corsMiddleware (dp_corsOrigin dp) (logMiddleware (serve decode now
       (http_server (en\<lparr>en_ttl := dp_ttl dp, en_verifier := dp_verifier dp\<rparr>) (dp_appID dp) (dp_debugToken dp))))"

subsection \<open>The command-line verifier\<close>

record cli_result =
  cl_Exit :: nat
  cl_Stdout :: "string list"
  cl_Fatal :: "err option"

text \<open>A slice of strings printed with \<open>%v\<close>.\<close>

fun spaced :: "string list \<Rightarrow> string" where
  "spaced [] = ''''"
| "spaced [s] = s"
| "spaced (s # t # ss) = s @ '' '' @ spaced (t # ss)"

definition bracketed :: "string list \<Rightarrow> string" where
  "bracketed ss = ''['' @ spaced ss @ '']''"

definition verifier_main ::
  "ffi \<Rightarrow> fs \<Rightarrow> (string \<Rightarrow> string) \<Rightarrow> string result \<Rightarrow> string list \<Rightarrow> cli_result" where
  "verifier_main ff fs getenv getwd args =
     (case (if getenv ''ZK_BASE_DIR'' \<noteq> '''' then Inr (getenv ''ZK_BASE_DIR'') else getwd) of
        Inl e \<Rightarrow> \<lparr>cl_Exit = 1, cl_Stdout = [], cl_Fatal = Some (Errorf ''getwd: %v'' [err_text e])\<rparr>
      | Inr baseDir \<Rightarrow>
          let certChainType =
                (if \<exists>arg \<in> set (tl args). arg = ''--cert-chain-4096'' \<or> arg = ''-4''
                 then CertChainRS4096 else CertChainRS2048);
              typeName = (if certChainType = CertChainRS4096 then ''cert_chain_rs4096 + user_sig_rs2048''
                          else ''cert_chain_rs2048 + user_sig_rs2048'');
              banner = [''=== zkID Link Verifier ==='', ''Base directory: '' @ baseDir,
                        ''Verification type: '' @ typeName,
                        ''Reading artifacts from: '' @ baseDir @ ''/keys/'', '''']
          in case LinkVerify ff fs baseDir certChainType of
               Inl e \<Rightarrow> \<lparr>cl_Exit = 1, cl_Stdout = banner,
                        cl_Fatal = Some (Errorf ''Link-verify failed: %v'' [err_text e])\<rparr>
             | Inr (valid, signals) \<Rightarrow>
                 if valid
                 then \<lparr>cl_Exit = 0,
                       cl_Stdout = banner @ [''Link verification PASSED: pk_commit_A == pk_commit_B'']
                         @ (case signals of
                              None \<Rightarrow> []
                            | Some sg \<Rightarrow> [''Cert-chain public values: '' @ bracketed (CertChain sg),
                                           ''User-sig public values: '' @ bracketed (UserSig sg)]),
                       cl_Fatal = None\<rparr>
                 else \<lparr>cl_Exit = 1,
                       cl_Stdout = banner @ [''Link verification FAILED: pk_commit mismatch''],
                       cl_Fatal = None\<rparr>)"

subsection \<open>The background refreshers\<close>

text \<open>
  A tick runs \<open>FetchNow\<close> in the network, clock and schedule of that moment; the binary (its
  cryptography and its embedded certificates) is the one that was started.
\<close>

definition smt_tick :: "boot_env \<Rightarrow> smt_source Provider \<Rightarrow> smt_source Provider" where
  "smt_tick e q = snd (FetchNow smt_source_Name (startup_fetch e) (be_smt_now e) q)"

definition cert_tick :: "boot_env \<Rightarrow> boot_env \<Rightarrow> CertProvider \<Rightarrow> CertProvider" where
  "cert_tick en e q =
     snd (FetchNow_cert (be_crypto en) (be_embedded en) (startup_cert_fetch e (cp_sources q))
            (be_cert_order e) (be_cert_picks e) q)"

definition refreshed ::
  "boot_env \<Rightarrow> boot_env loop_event list \<Rightarrow> boot_env loop_event list \<Rightarrow> deployment \<Rightarrow> deployment" where
  "refreshed en smt_evs cert_evs dp =
     (let v = dp_verifier dp in
      dp\<lparr>dp_verifier := v\<lparr>v_SmtRoot := map_option (Start smt_tick smt_evs) (v_SmtRoot v),
                          v_IssuerCert := map_option (Start_cert (cert_tick en) cert_evs) (v_IssuerCert v)\<rparr>\<rparr>)"

text \<open>Enforcement is off only for the word \<open>disabled\<close>, in any case.\<close>

definition enforced :: "boot_env \<Rightarrow> string \<Rightarrow> bool" where
  "enforced en name \<longleftrightarrow> lower_utf8 (be_getenv en name) \<noteq> ''disabled''"

text \<open>The on-chain calls of one refresh answer for the two issuers.\<close>

definition answers_both :: "boot_env \<Rightarrow> bool" where
  "answers_both e \<longleftrightarrow> set (be_rpc_order e) = set AllIssuers"

subsection \<open>What start-up establishes\<close>

lemma startup_fetch_both:
  assumes "answers_both e" "fst (startup_fetch e k s) = Inr rs"
  shows "dom rs = set AllIssuers \<and> (\<forall>i r. rs i = Some r \<longrightarrow> length r = 32)"
proof (cases s)
  case (Onchain oc)
  have "dom rs = set AllIssuers \<and> (\<forall>i r. rs i = Some r \<longrightarrow> onchain_fetch (be_keccak e) (be_rpc e) (be_rpc_json e) oc i = Inr r)"
    using assms Onchain
    by (subst onchain_FetchAll_Inr [OF assms(1) [unfolded answers_both_def], symmetric]) (simp add: startup_fetch_def)
  then show ?thesis by (meson onchain_fetch_length)
next
  case (GitHub gh)
  with assms have g: "github_FetchAll (be_http e) (be_release_json e) gh = Inr rs"
    by (simp add: startup_fetch_def)
  then obtain body where "parseReleaseBody body = Inr rs"
    by (auto simp: github_FetchAll_def split: http_call.splits sum.splits if_splits)
  then have "dom rs = set AllIssuers" by (rule conjunct1 [OF iffD1 [OF parseReleaseBody_Inr]])
  then show ?thesis by (intro conjI allI impI github_FetchAll_length [OF g])
qed

lemma buildSmtRootProvider_None: "buildSmtRootProvider en = Inr None \<longleftrightarrow> \<not> enforced en ''SMT_ROOT_ENFORCE''"
  by (auto simp: buildSmtRootProvider_def enforced_def Let_def split: prod.splits option.splits)

lemma buildSmtRootProvider_Some:
  assumes "buildSmtRootProvider en = Inr (Some p)" "answers_both en"
  shows "dom (Trusted p) = set AllIssuers \<and> (\<forall>i r. Trusted p i = Some r \<longrightarrow> length r = 32)"
proof -
  obtain p0 where f: "FetchNow smt_source_Name (startup_fetch en) (be_smt_now en) p0 = (None, p)" and r: "roots p0 = Map.empty"
    using assms(1) by (auto simp: buildSmtRootProvider_def NewProvider_def Let_def split: if_splits prod.splits option.splits)
  from FetchNow_spec [OF f] obtain j rs where "fst (startup_fetch en j (sources_of p0 ! j)) = Inr rs" "roots p = roots p0 ++ rs"
    by auto
  with startup_fetch_both [OF assms(2)] r show ?thesis by (simp add: Trusted_def [abs_def])
qed

lemma buildIssuerCertProvider_None: "buildIssuerCertProvider en = Inr None \<longleftrightarrow> \<not> enforced en ''ISSUER_CERT_ENFORCE''"
  by (auto simp: buildIssuerCertProvider_def enforced_def Let_def split: prod.splits sum.splits)

definition good_certs :: "boot_env \<Rightarrow> CertProvider \<Rightarrow> bool" where
  "good_certs en q \<longleftrightarrow>
     (\<forall>i \<in> set AllIssuers. Trusted_cert q i \<noteq> None)
     \<and> (\<forall>i rec. Trusted_cert q i = Some rec \<longrightarrow> trusted_cert (be_crypto en) (be_embedded en) i rec)"

lemma cert_step_good:
  assumes "good_certs en q"
  shows "good_certs en (cert_step (be_crypto en) (be_embedded en) e q)"
  using assms cert_cache.get_step cert_cache.keeps_step unfolding good_certs_def by blast

lemma buildIssuerCertProvider_Some:
  assumes "buildIssuerCertProvider en = Inr (Some q)"
  shows "good_certs en q"
proof -
  obtain q0 srcs ri ft f where p: "NewProvider_cert (be_crypto en) (be_embedded en) (be_load_now en) (be_cert_now en) srcs ri ft = Inr q0"
    and q: "q = cert_step (be_crypto en) (be_embedded en) (f, be_cert_order en, be_cert_picks en) q0"
    using assms by (auto simp: buildIssuerCertProvider_def cert_step_def Let_def split: if_splits prod.splits sum.splits)
      (metis snd_conv)
  have "good_certs en q0" using new_provider_trusted [OF p] by (auto simp: good_certs_def)
  then show ?thesis unfolding q by (rule cert_step_good)
qed

lemma NewSQLiteStore_ttl: "NewSQLiteStore o' ttl f = (Inr t, f') \<Longrightarrow> t = ttl"
  by (auto simp: NewSQLiteStore_def Let_def split: option.splits sum.splits if_splits)

lemma server_main_Serving:
  assumes "server_main en disk = (Serving dp, disk')"
  obtains provider issuerProvider where "buildSmtRootProvider en = Inr provider"
    "buildIssuerCertProvider en = Inr issuerProvider"
    "v_SmtRoot (dp_verifier dp) = provider" "v_IssuerCert (dp_verifier dp) = issuerProvider"
    "dp_appID dp = be_getenv en ''APP_ID''" "v_ExpectedAppID (dp_verifier dp) = dp_appID dp"
    "length (dp_appID dp) = AppIDLen" "ValidString (dp_appID dp)" "dp_ttl dp = DefaultTTL"
    "dp_debugToken dp = be_getenv en ''DEBUG_TOKEN''"
  using assms NewSQLiteStore_ttl
  by (auto simp: server_main_def Let_def split: if_splits sum.splits prod.splits option.splits)

text \<open>The deployed refreshers are trust caches.\<close>

lemma smt_tick_step: "smt_tick e = smt_step smt_source_Name (startup_fetch e, be_smt_now e)"
  by (simp add: smt_tick_def smt_step_def fun_eq_iff)

lemma cert_tick_step:
  "cert_tick en e q = cert_step (be_crypto en) (be_embedded en)
     (startup_cert_fetch e (cp_sources q), be_cert_order e, be_cert_picks e) q"
  by (simp add: cert_tick_def cert_step_def)

interpretation deployed_smt: trust_cache Trusted smt_tick answers_both "\<lambda>i r. length r = 32"
proof
  fix e i r and p :: "smt_source Provider"
  assume "answers_both e" "Trusted (smt_tick e p) i = Some r"
  moreover from this have "delivers_roots (startup_fetch e)"
    using startup_fetch_both unfolding delivers_roots_def by blast
  ultimately show "Trusted p i = Some r \<or> length r = 32"
    using smt_cache.get_step [of "(startup_fetch e, be_smt_now e)"] by (simp add: smt_tick_step)
next
  fix e i and p :: "smt_source Provider"
  assume "Trusted p i \<noteq> None"
  then show "Trusted (smt_tick e p) i \<noteq> None" unfolding smt_tick_step by (rule smt_cache.keeps_step)
qed

interpretation deployed_cert: trust_cache Trusted_cert "cert_tick en" "\<lambda>e. True" "trusted_cert (be_crypto en) (be_embedded en)"
proof
  fix e q i rec
  assume "Trusted_cert (cert_tick en e q) i = Some rec"
  then show "Trusted_cert q i = Some rec \<or> trusted_cert (be_crypto en) (be_embedded en) i rec"
    unfolding cert_tick_step by (rule cert_cache.get_step [OF TrueI])
next
  fix e q i
  assume "Trusted_cert q i \<noteq> None"
  then show "Trusted_cert (cert_tick en e q) i \<noteq> None" unfolding cert_tick_step by (rule cert_cache.keeps_step)
qed

definition good_roots :: "smt_source Provider \<Rightarrow> bool" where
  "good_roots p \<longleftrightarrow>
     (\<forall>i \<in> set AllIssuers. Trusted p i \<noteq> None) \<and> (\<forall>i r. Trusted p i = Some r \<longrightarrow> length r = 32)"

lemma Start_good_roots:
  assumes "good_roots p" "\<forall>e. Tick e \<in> set evs \<longrightarrow> answers_both e"
  shows "good_roots (Start smt_tick evs p)"
  using assms(1) deployed_smt.loop_keeps deployed_smt.loop_all_valid [OF assms(2), of p]
  unfolding good_roots_def Start_def by (simp del: not_None_eq)

lemma Start_good_certs:
  assumes "good_certs en q"
  shows "good_certs en (Start_cert (cert_tick en) evs q)"
  using assms(1) deployed_cert.loop_keeps deployed_cert.loop_all_valid [of evs q en]
  unfolding good_certs_def Start_cert_def loop_cert_eq by (simp del: not_None_eq)

text \<open>A strict deployment has its trust anchors, at start-up and ever after.\<close>

definition anchored :: "boot_env \<Rightarrow> smt_source Verifier \<Rightarrow> bool" where
  "anchored en v \<longleftrightarrow>
     (case v_SmtRoot v of None \<Rightarrow> \<not> enforced en ''SMT_ROOT_ENFORCE'' | Some p \<Rightarrow> good_roots p)
     \<and> (case v_IssuerCert v of None \<Rightarrow> \<not> enforced en ''ISSUER_CERT_ENFORCE'' | Some q \<Rightarrow> good_certs en q)"

lemma refreshed_anchored:
  assumes "server_main en disk = (Serving dp, disk')" "answers_both en"
    and "\<forall>e. Tick e \<in> set smt_evs \<longrightarrow> answers_both e"
  shows "anchored en (dp_verifier (refreshed en smt_evs cert_evs dp))"
  using assms(1)
proof (rule server_main_Serving)
  fix provider issuerProvider
  assume b: "buildSmtRootProvider en = Inr provider" "buildIssuerCertProvider en = Inr issuerProvider"
    and v: "v_SmtRoot (dp_verifier dp) = provider" "v_IssuerCert (dp_verifier dp) = issuerProvider"
  have "case provider of None \<Rightarrow> \<not> enforced en ''SMT_ROOT_ENFORCE'' | Some p \<Rightarrow> good_roots (Start smt_tick smt_evs p)"
  proof (cases provider)
    case None
    with b(1) buildSmtRootProvider_None show ?thesis by simp
  next
    case (Some p)
    with buildSmtRootProvider_Some [OF b(1) [unfolded Some] assms(2)] have "good_roots p"
      by (auto simp: good_roots_def)
    with Some Start_good_roots [OF _ assms(3)] show ?thesis by simp
  qed
  moreover have "case issuerProvider of None \<Rightarrow> \<not> enforced en ''ISSUER_CERT_ENFORCE''
      | Some q \<Rightarrow> good_certs en (Start_cert (cert_tick en) cert_evs q)"
  proof (cases issuerProvider)
    case None
    with b(2) buildIssuerCertProvider_None show ?thesis by simp
  next
    case (Some q)
    with Start_good_certs [OF buildIssuerCertProvider_Some [OF b(2) [unfolded Some]]] show ?thesis by simp
  qed
  ultimately show ?thesis
    by (simp add: anchored_def refreshed_def v Let_def split: option.splits)
qed

subsection \<open>When the server starts\<close>

text \<open>The key manager and the tables do not decide; a failed key download is only logged.\<close>

definition store_opens :: "boot_env \<Rightarrow> disk \<Rightarrow> bool" where
  "store_opens en disk \<longleftrightarrow>
     error_of (fst (NewSQLiteStore (be_sqlite en (env_or (be_getenv en) ''DB_PATH'' ''./zkid.db'')) DefaultTTL (dk_db disk))) = None"

definition some_source_delivers :: "boot_env \<Rightarrow> bool" where
  "some_source_delivers en \<longleftrightarrow> error_of (buildSmtRootProvider en) = None"

definition grpc_address :: "boot_env \<Rightarrow> string" where
  "grpc_address en = (if be_getenv en ''GRPC_PORT'' \<noteq> '''' then '':'' @ be_getenv en ''GRPC_PORT'' else '':9090'')"

lemma error_of_None: "error_of r = None \<longleftrightarrow> (\<exists>x. r = Inr x)"
  by (cases r) (auto simp: error_of_def)

lemma server_main_starts:
  "(\<exists>dp disk'. server_main en disk = (Serving dp, disk')) \<longleftrightarrow>
     length (be_getenv en ''APP_ID'') = AppIDLen \<and> ValidString (be_getenv en ''APP_ID'')
     \<and> store_opens en disk \<and> error_of (buildSmtRootProvider en) = None
     \<and> error_of (buildIssuerCertProvider en) = None \<and> be_listen en (grpc_address en) = None"
proof -
  obtain r db where n: "NewSQLiteStore (be_sqlite en (env_or (be_getenv en) ''DB_PATH'' ''./zkid.db'')) DefaultTTL (dk_db disk) = (r, db)"
    by fastforce
  have e: "length (be_getenv en ''APP_ID'') = AppIDLen \<Longrightarrow> be_getenv en ''APP_ID'' \<noteq> ''''"
    by (auto simp: AppIDLen_def)
  show ?thesis
    using n e by (cases r; cases "buildSmtRootProvider en"; cases "buildIssuerCertProvider en"; cases "be_listen en (grpc_address en)")
      (auto simp: server_main_def store_opens_def error_of_def grpc_address_def Let_def)
qed

lemma try_sources_two:
  "fst (try_sources nm fetch now 0 [a, b] [] p) = None \<longleftrightarrow>
     error_of (fst (fetch 0 a)) = None \<or> error_of (fst (fetch 1 b)) = None"
  by (cases "fetch 0 a"; cases "fst (fetch 0 a)"; cases "fetch 1 b"; cases "fst (fetch 1 b)")
    (auto simp: error_of_def Let_def errors_Join_def map_filter_simps split: prod.split)

text \<open>The sources \<open>main\<close> configures, and whether their first fetch fails.\<close>

definition onchain_fails :: "boot_env \<Rightarrow> bool" where
  "onchain_fails en \<longleftrightarrow>
     (let getenv = be_getenv en in
      error_of (onchain_FetchAll (be_keccak en) (be_rpc en) (be_rpc_json en)
        (NewOnchainSource (getenv ''SMT_ROOT_RPC_URL'') (getenv ''SMT_ROOT_CONTRACT'')
           (envDuration getenv ''SMT_ROOT_FETCH_TIMEOUT'' (5 * Second))) (be_rpc_order en)) \<noteq> None)"

definition github_fails :: "boot_env \<Rightarrow> bool" where
  "github_fails en \<longleftrightarrow>
     (let getenv = be_getenv en in
      error_of (github_FetchAll (be_http en) (be_release_json en)
        (NewGitHubReleaseSource (getenv ''SMT_ROOT_GITHUB_REPO'') (getenv ''SMT_ROOT_GITHUB_TAG'')
           (envDuration getenv ''SMT_ROOT_FETCH_TIMEOUT'' (5 * Second)))) \<noteq> None)"

definition embedded_fails :: "boot_env \<Rightarrow> bool" where
  "embedded_fails en \<longleftrightarrow> error_of (LoadEmbedded (be_crypto en) (be_embedded en) (be_load_now en)) \<noteq> None"

lemma buildSmtRootProvider_ok:
  "error_of (buildSmtRootProvider en) = None \<longleftrightarrow>
     \<not> (enforced en ''SMT_ROOT_ENFORCE'' \<and> onchain_fails en \<and> github_fails en)"
proof -
  define tmo where "tmo = envDuration (be_getenv en) ''SMT_ROOT_FETCH_TIMEOUT'' (5 * Second)"
  define oc where "oc = NewOnchainSource (be_getenv en ''SMT_ROOT_RPC_URL'') (be_getenv en ''SMT_ROOT_CONTRACT'') tmo"
  define gh where "gh = NewGitHubReleaseSource (be_getenv en ''SMT_ROOT_GITHUB_REPO'') (be_getenv en ''SMT_ROOT_GITHUB_TAG'') tmo"
  define p where "p = NewProvider (Some (Onchain oc)) (Some (GitHub gh))
    (envDuration (be_getenv en) ''SMT_ROOT_REFRESH_INTERVAL'' (10 * 60 * Second)) tmo"
  have s: "sources_of p = [Onchain oc, GitHub gh]" "primary p = Some (Onchain oc)"
    by (simp_all add: p_def sources_of_def NewProvider_def)
  have o: "onchain_fails en \<longleftrightarrow> error_of (fst (startup_fetch en 0 (Onchain oc))) \<noteq> None"
    and g: "github_fails en \<longleftrightarrow> error_of (fst (startup_fetch en 1 (GitHub gh))) \<noteq> None"
    by (simp_all add: onchain_fails_def github_fails_def startup_fetch_def oc_def gh_def tmo_def Let_def)
  obtain e p' where f: "FetchNow smt_source_Name (startup_fetch en) (be_smt_now en) p = (e, p')" by fastforce
  then have "e = fst (try_sources smt_source_Name (startup_fetch en) (be_smt_now en) 0 [Onchain oc, GitHub gh] [] p)"
    by (simp add: FetchNow_def s)
  then have e: "e = None \<longleftrightarrow> \<not> (onchain_fails en \<and> github_fails en)" 
    by (simp only: try_sources_two o g de_Morgan_conj not_not)
  have "buildSmtRootProvider en =
      (if enforced en ''SMT_ROOT_ENFORCE''
       then (case e of Some er \<Rightarrow> Inl (Wrapf ''startup fetch (set SMT_ROOT_ENFORCE=disabled to skip): %w'' [] er)
             | None \<Rightarrow> Inr (Some p'))
       else Inr None)"
    using f by (simp add: buildSmtRootProvider_def enforced_def Let_def tmo_def oc_def gh_def p_def)
  then show ?thesis using e by (cases e) (simp_all add: error_of_def)
qed

lemma buildIssuerCertProvider_ok:
  "error_of (buildIssuerCertProvider en) = None \<longleftrightarrow> \<not> (enforced en ''ISSUER_CERT_ENFORCE'' \<and> embedded_fails en)"
  by (cases "LoadEmbedded (be_crypto en) (be_embedded en) (be_load_now en)")
    (auto simp: buildIssuerCertProvider_def NewProvider_cert_def enforced_def embedded_fails_def error_of_def Let_def
      split: prod.split)

subsection \<open>The replies of the deployed server\<close>

lemma reply_headers [simp]:
  "re_Headers (json_reply code b) = [''Content-Type'' \<mapsto> ''application/json'']"
  "re_Headers (text_reply hs code msg) = hs(''Content-Type'' \<mapsto> ''text/plain; charset=utf-8'', ''X-Content-Type-Options'' \<mapsto> ''nosniff'')"
  "re_Headers (jsonError msg code) = [''Content-Type'' \<mapsto> ''application/json'']"
  by (simp_all add: json_reply_def text_reply_def jsonError_def)

lemma handle_headers: "re_Headers (fst (handle decode now sv h r s)) = [''Content-Type'' \<mapsto> ''application/json'']"
proof (cases h)
  case HCreate
  then show ?thesis by (simp add: handle_def createChallenge_def split: prod.split sum.split)
next
  case HGet
  then show ?thesis by (simp add: handle_def getChallenge_def split: sum.split option.split)
next
  case HLinkVerify
  have "re_Headers (linkVerify_error e res) = [''Content-Type'' \<mapsto> ''application/json'']" for e res
    by (simp add: linkVerify_error_def writeStoreError_def Let_def)
  moreover have "re_Headers (linkVerify_result res) = [''Content-Type'' \<mapsto> ''application/json'']" for res
    by (simp add: linkVerify_result_def Let_def)
  ultimately show ?thesis using HLinkVerify
    by (simp add: handle_def linkVerify_def split: sum.split option.split prod.split)
next
  case HSmtStatus
  then show ?thesis by (simp add: handle_def smtRootStatus_def split: option.split)
next
  case HCertStatus
  then show ?thesis by (simp add: handle_def issuerCertStatus_def split: option.split)
next
  case HCleanDB
  then show ?thesis by (simp add: handle_def cleanDB_def split: sum.split prod.split)
qed

lemma serve_headers:
  "dom (re_Headers (fst (serve decode now sv r s))) \<subseteq> {''Content-Type'', ''X-Content-Type-Options'', ''Allow''}"
  by (simp add: serve_def Let_def handle_headers split: option.split prod.split)

subsection \<open>A deployment\<close>

text \<open>Both enforcements on, the chain answering with the zero root, an application id of 31 letters.\<close>

definition boot_app_id :: string where "boot_app_id = replicate 31 (CHR ''a'')"

definition boot_packed :: string where
  "boot_packed = Int_String (int (SetBytes (rev (bytes_of_string boot_app_id))))"

definition boot_demo :: boot_env where
  "boot_demo =
     \<lparr>be_getenv = (\<lambda>k. if k = ''APP_ID'' then boot_app_id else ''''), be_Abs = (\<lambda>p. p), be_sha256 = (\<lambda>b. b),
      be_mkdir = Some (External ''read-only file system''), be_keys = demo_key_envs, be_key_order = RequiredKeys,
      be_sqlite = (\<lambda>p. \<lparr>so_open = None, so_pragma = None, so_schema = None, so_alter = None\<rparr>),
      be_keccak = (\<lambda>_. zero_root),
      be_rpc = (\<lambda>_. Responds \<lparr>hr_StatusCode = 200, hr_Body = [], hr_ReadErr = None\<rparr>),
      be_rpc_json = (\<lambda>_. Inr \<lparr>rr_Result = ''0x'' @ replicate 64 (CHR ''0''), rr_Error = None\<rparr>),
      be_rpc_order = AllIssuers, be_http = (\<lambda>_. DoFails (External ''no route to host'')),
      be_release_json = (\<lambda>_. Inl (External ''no body'')), be_smt_latency = (\<lambda>_. 3), be_smt_now = 9,
      be_crypto = demo_crypto, be_embedded = demo_embedded, be_load_now = 5, be_cert_now = 6,
      be_cert_clock = (\<lambda>_. (1, 7, 8, 9)), be_cert_order = AllIssuers, be_cert_picks = [],
      be_listen = (\<lambda>_. None)\<rparr>"

definition boot_disk :: disk where
  "boot_disk = \<lparr>dk_keys = Map.empty, dk_db = \<lparr>verification_columns = None, conn_open = False\<rparr>\<rparr>"

lemma boot_demo_starts: "\<exists>dp disk'. server_main boot_demo boot_disk = (Serving dp, disk')"
proof -
  have a: "length boot_app_id = AppIDLen" "ValidString boot_app_id"
    by (simp_all add: boot_app_id_def AppIDLen_def ValidString_ascii)
  have st: "store_opens boot_demo boot_disk"
    by (simp add: store_opens_def boot_demo_def boot_disk_def NewSQLiteStore_def error_of_def Let_def
        create_if_not_exists_def alter_add_column_def schema_columns_def error_contains_def split: option.split sum.split)
  have "\<not> onchain_fails boot_demo"
    by (simp add: onchain_fails_def onchain_FetchAll_def AllIssuers_def boot_demo_def onchain_fetch_zero error_of_def Let_def)
  moreover have "\<not> embedded_fails boot_demo"
    using demo_loads [of 5 6] by (auto simp: embedded_fails_def error_of_def boot_demo_def NewProvider_cert_def split: sum.splits)
  ultimately show ?thesis using a st
    by (simp add: server_main_starts buildSmtRootProvider_ok buildIssuerCertProvider_ok)
      (simp add: boot_demo_def)
qed

text \<open>A request to this deployment, with signals that carry the given modulus limbs and root.\<close>

definition boot_signals :: "string list \<Rightarrow> string \<Rightarrow> PublicSignals" where
  "boot_signals limbs rt = \<lparr>CertChain = ''0'' # limbs @ [rt], UserSig = [''0'', ''n'', boot_packed, ''7'']\<rparr>"

definition boot_parsed :: "string list \<Rightarrow> string \<Rightarrow> ParsedInputs" where
  "boot_parsed limbs rt = \<lparr>pi_PkCommit = ''0'', pi_Nullifier = ''n'', pi_AppID = boot_app_id,
     pi_AppIDPacked = boot_packed, pi_Challenge = ''7'', pi_IssuerRSAModulus = limbs, pi_SmtRoot = rt\<rparr>"

definition boot_request :: request where
  "boot_request = \<lparr>hq_Method = ''POST'', hq_Path = [''link-verify''], hq_Header = Map.empty, hq_Body = []\<rparr>"

definition boot_decode :: "byte list \<Rightarrow> bool \<Rightarrow> LinkVerifyRequest option" where
  "boot_decode b whole = Some \<lparr>lr_CertChainType = ''rs2048'', lr_CertChainProof = [1, 2], lr_UserSigProof = [3]\<rparr>"

definition boot_call :: "string list \<Rightarrow> string \<Rightarrow> smt_source env" where
  "boot_call limbs rt = \<lparr>en_lookup = quiet_sqlite 0, en_record = quiet_sqlite 0, en_now1 = 0, en_now2 = 0,
     en_seen = demo_db, en_ttl = 0, en_rand = Inl (Errorf [] []), en_os = demo_os,
     en_ffi = \<lparr>zk_link_verify = (\<lambda>fs d t. \<lparr>ffi_ret = 1, ffi_last_error = [], ffi_last_signals = ''{}''\<rparr>),
       unmarshal_signals = (\<lambda>_. Some (boot_signals limbs rt))\<rparr>,
     en_later = (\<lambda>p. p), en_check = 0,
     en_verifier = \<lparr>v_KeysDir = [], v_SmtRoot = None, v_IssuerCert = None, v_ExpectedAppID = []\<rparr>, en_fs = Map.empty\<rparr>"

lemma boot_parses:
  assumes "length limbs = 17"
  shows "ParsePublicInputs (Some (boot_signals limbs rt)) CertChainRS2048 = Inr (boot_parsed limbs rt)"
proof -
  have "UnpackAppID boot_packed = Inr boot_app_id"
    by (simp add: UnpackAppID_Inr_iff boot_packed_def boot_app_id_def AppIDLen_def)
  with assms show ?thesis
    by (simp add: ParsePublicInputs_Inr_iff boot_signals_def boot_parsed_def limb_count_def
        CertChainRS2048_def CertChainRS4096_def)
qed

lemma boot_service:
  assumes "r_Verified r" "r_Parsed r = Some (boot_parsed limbs rt)"
  shows "\<exists>res d'. sqlite_service (quiet_sqlite 0) (quiet_sqlite 0) 0 0 demo_db (Inr r) demo_request demo_db = ((Some res, None), d')
    \<and> r_Verified (p_Result res) \<and> p_Nullifier res = ''n''"
  using assms by (simp add: sqlite_service_def Service_VerifyAndRecord_def boot_parsed_def
      NormalizeDecimal_7 demo_GetChallenge After_def CheckChallenge_def ConstantTimeCompare_def finalize_def
      demo_StoreKey demo_record Let_def)

lemma boot_checks:
  assumes v: "v_SmtRoot v = Some p" "v_IssuerCert v = Some q" "v_ExpectedAppID v = boot_app_id"
    and p: "Trusted p IssuerG2 = Some root" "length root = 32" and q: "Trusted_cert q IssuerG2 = Some rec"
  shows "fst (Verify demo_os (en_ffi (boot_call (cr_Limbs rec) (Hex root))) demo_request (v_KeysDir v) Map.empty)
      = Inr (True, Some (boot_signals (cr_Limbs rec) (Hex root)))"
    and "smt_ok v (rq_ProofType demo_request) (boot_parsed (cr_Limbs rec) (Hex root))"
    and "issuer_ok v (rq_ProofType demo_request) (boot_parsed (cr_Limbs rec) (Hex root))"
    and "app_ok v (boot_parsed (cr_Limbs rec) (Hex root))"
proof -
  have i: "issuerForProofType (rq_ProofType demo_request) = IssuerG2"
    by (simp add: issuerForProofType_def demo_request_def ProofTypeRS2048_def ProofTypeRS4096_def)
  show "fst (Verify demo_os (en_ffi (boot_call (cr_Limbs rec) (Hex root))) demo_request (v_KeysDir v) Map.empty)
      = Inr (True, Some (boot_signals (cr_Limbs rec) (Hex root)))"
    by (subst Verify_staged [of _ "''/tmp/zkid-linkverify-1''"])
      (simp_all add: demo_os_def LinkVerify_def lastSignals_def boot_call_def)
  show "smt_ok v (rq_ProofType demo_request) (boot_parsed (cr_Limbs rec) (Hex root))"
    "issuer_ok v (rq_ProofType demo_request) (boot_parsed (cr_Limbs rec) (Hex root))"
    "app_ok v (boot_parsed (cr_Limbs rec) (Hex root))"
    using v p q i by (simp_all add: smt_ok_def issuer_ok_def app_ok_def boot_parsed_def ParseRoot_Hex LimbsEqual_iff)
qed

lemma boot_verified:
  assumes v: "v_SmtRoot v = Some p" "v_IssuerCert v = Some q" "v_ExpectedAppID v = boot_app_id"
    and p: "Trusted p IssuerG2 = Some root" "length root = 32"
    and q: "Trusted_cert q IssuerG2 = Some rec" "length (cr_Limbs rec) = 17"
    and dp: "dp_verifier dp = v"
  shows "verified_nullifier (re_Body (fst (deployed dp boot_decode 0 (boot_call (cr_Limbs rec) (Hex root)) boot_request (demo_db, [])))) = Some ''n''"
proof -
  let ?c = "(boot_call (cr_Limbs rec) (Hex root))\<lparr>en_ttl := dp_ttl dp, en_verifier := v\<rparr>"
  note checks = boot_checks [OF v p q(1)]
  have f: "fst (Verify demo_os (en_ffi ?c) demo_request (v_KeysDir v) Map.empty) = Inr (True, Some (boot_signals (cr_Limbs rec) (Hex root)))"
    using checks(1) by simp
  obtain r where r: "fst (Verifier_Verify demo_os (en_ffi ?c) (\<lambda>p. p) 0 v demo_request Map.empty) = Inr r"
    "r_Verified r" "r_Parsed r = Some (boot_parsed (cr_Limbs rec) (Hex root))"
    using Verifier_Verify_accepts [OF f _ checks(2-4), of "\<lambda>p. p" 0] boot_parses [OF q(2)] by (auto simp: demo_cert_chain_type)
  obtain res d' where s: "env_service ?c demo_request demo_db = ((Some res, None), d')"
    "r_Verified (p_Result res)" "p_Nullifier res = ''n''"
    using boot_service [OF r(2,3)] r(1) by (auto simp: env_service_def boot_call_def)
  have rq: "\<lparr>rq_CertChainProof = [1, 2], rq_UserSigProof = [3], rq_ProofType = ProofTypeRS2048\<rparr> = demo_request"
    by (simp add: demo_request_def)
  have "linkVerify boot_decode (env_service ?c) [] demo_db = (linkVerify_result res, d')"
    using s(1) by (simp add: linkVerify_def boot_decode_def ParseProofType_def ProofTypeRS2048_def
        rq [unfolded ProofTypeRS2048_def])
  then have "fst (deployed dp boot_decode 0 (boot_call (cr_Limbs rec) (Hex root)) boot_request (demo_db, []))
      = (linkVerify_result res)\<lparr>re_Headers := cors_headers (dp_corsOrigin dp) ++ re_Headers (linkVerify_result res)\<rparr>"
    by (simp add: deployed_def corsMiddleware_def logMiddleware_def serve_def NewRouter_def http_server_def
        match_method_def handle_def boot_request_def dp)
  moreover have "verified_nullifier (re_Body (linkVerify_result res)) = Some ''n''"
    using s(2,3) by (simp add: linkVerify_result_def json_reply_def json_VerifySuccessResponse_def Let_def)
  ultimately show ?thesis by simp
qed

lemma boot_demo_enforced: "enforced boot_demo ''SMT_ROOT_ENFORCE''" "enforced boot_demo ''ISSUER_CERT_ENFORCE''" "answers_both boot_demo"
  by (simp_all add: enforced_def answers_both_def boot_demo_def)

lemma trusted_G2_limbs: "trusted_cert cr emb IssuerG2 rec \<Longrightarrow> length (cr_Limbs rec) = 17"
  by (auto simp: trusted_cert_def valid_cert_def ModulusToLimbs_eq LimbCountFor_def LimbsRS2048_def dest!: sym [of "map _ _"])

subsection \<open>A verified answer of the deployed server\<close>

lemma serve_link_verify_post:
  assumes "hq_Path r = [''link-verify'']" "verified_nullifier (re_Body (fst (serve decode now (http_server ev appID tok) r d))) \<noteq> None"
  shows "serve decode now (http_server ev appID tok) r d = linkVerify decode (env_service ev) (hq_Body r) d"
proof -
  have p: "filter (\<lambda>(m, p, h). match_path p (hq_Path r)) (NewRouter (http_server ev appID tok))
      = [(''POST'', [Lit ''link-verify''], HLinkVerify)]"
    using assms(1) by (simp add: NewRouter_def http_server_def)
  have "hq_Method r = ''POST''"
    using assms(2) p by (auto simp: serve_def match_method_def text_reply_def split: if_splits)
  with p show ?thesis by (simp add: serve_def match_method_def handle_def http_server_def)
qed

lemma env_service_answered:
  assumes "env_service ev req d = (out, d')" "answered out = Some n"
  obtains sg parsed k where
    "fst (Verify (en_os ev) (en_ffi ev) req (v_KeysDir (en_verifier ev)) (en_fs ev)) = Inr (True, sg)"
    "ParsePublicInputs sg (cert_chain_type (rq_ProofType req)) = Inr parsed"
    "smt_ok (en_verifier ev) (rq_ProofType req) parsed" "issuer_ok (en_verifier ev) (rq_ProofType req) parsed"
    "app_ok (en_verifier ev) parsed" "pi_Nullifier parsed = n" "NormalizeDecimal (pi_Challenge parsed) = Inr k"
    "d' = with_verification (en_record ev) n k None (StoreKey (rq_ProofType req)) d"
proof -
  obtain res where out: "out = (Some res, None)" and v: "r_Verified (p_Result res)" and n: "p_Nullifier res = n"
    using assms(2) by (auto simp: answered_def split: prod.splits option.splits if_splits)
  have e: "env_service ev req d = ((Some res, None), d')" using assms(1) out by simp
  have "p_Persisted res" using env_service_verified [OF e] v by simp
  from sqlite_service_persisted [OF e [unfolded env_service_def] this] obtain r k where
    s: "fst (Verifier_Verify (en_os ev) (en_ffi ev) (en_later ev) (en_check ev) (en_verifier ev) req (en_fs ev)) = Inr r"
      "r_Verified r" "NormalizeDecimal (pi_Challenge (the (r_Parsed r))) = Inr k"
      "p_Nullifier res = pi_Nullifier (the (r_Parsed r))"
      "VerifyAndRecord (en_record ev) (en_now2 ev) (pi_Nullifier (the (r_Parsed r))) k None (StoreKey (rq_ProofType req)) d = (None, d')"
    by metis
  obtain sg parsed where p: "fst (Verify (en_os ev) (en_ffi ev) req (v_KeysDir (en_verifier ev)) (en_fs ev)) = Inr (True, sg)"
    "ParsePublicInputs sg (cert_chain_type (rq_ProofType req)) = Inr parsed" "r_Parsed r = Some parsed"
    "smt_ok (en_verifier ev) (rq_ProofType req) parsed" "issuer_ok (en_verifier ev) (rq_ProofType req) parsed"
    "app_ok (en_verifier ev) parsed"
    by (rule Verifier_verified [OF s(1,2)])
  have "d' = with_verification (en_record ev) (pi_Nullifier parsed) k None (StoreKey (rq_ProofType req)) d"
    using VerifyAndRecord_success [OF s(5)] p(3) by auto
  with p s(3,4) n show thesis by (intro that [of sg parsed k]) simp_all
qed

lemma deployed_link_verify:
  assumes "deployed dp decode now ev r (d, log) = (reply, (d', log'))" "hq_Path r = [''link-verify'']"
    and "verified_nullifier (re_Body reply) = Some n"
  obtains req out where "env_service (ev\<lparr>en_ttl := dp_ttl dp, en_verifier := dp_verifier dp\<rparr>) req d = (out, d')"
    "answered out = Some n"
proof -
  define ev' where "ev' = ev\<lparr>en_ttl := dp_ttl dp, en_verifier := dp_verifier dp\<rparr>"
  obtain inner d1 where s: "serve decode now (http_server ev' (dp_appID dp) (dp_debugToken dp)) r d = (inner, d1)" by fastforce
  have b: "re_Body reply = re_Body inner" "d1 = d'"
    using assms(1,3) s by (auto simp: deployed_def corsMiddleware_def logMiddleware_def ev'_def [symmetric] split: if_splits)
  from serve_link_verify_post [OF assms(2), of decode now ev' "dp_appID dp" "dp_debugToken dp" d] s b assms(3)
  have "linkVerify decode (env_service ev') (hq_Body r) d = (inner, d')" by simp
  then show thesis
  proof (cases rule: linkVerify_cases)
    case (refused msg)
    with assms(3) b show ?thesis by (simp add: jsonError_def json_reply_def)
  next
    case (served req out)
    with verified_answer [of out] assms(3) b have "answered out = Some n" by simp
    with that [unfolded ev'_def [symmetric]] served show ?thesis by blast
  qed
qed

lemma refreshed_simps [simp]:
  "dp_appID (refreshed en es cs dp) = dp_appID dp" "dp_debugToken (refreshed en es cs dp) = dp_debugToken dp"
  "dp_ttl (refreshed en es cs dp) = dp_ttl dp"
  "v_ExpectedAppID (dp_verifier (refreshed en es cs dp)) = v_ExpectedAppID (dp_verifier dp)"
  "v_KeysDir (dp_verifier (refreshed en es cs dp)) = v_KeysDir (dp_verifier dp)"
  by (simp_all add: refreshed_def Let_def)

lemma issuerForProofType_known: "issuerForProofType pt \<in> set AllIssuers"
  by (simp add: issuerForProofType_def)

subsection \<open>Properties\<close>

text \<open>C5: a strict server keeps its trust anchors.  When \<open>main\<close> starts serving and neither enforcement
  variable says \<open>disabled\<close>, then after any background refreshes of both providers (whatever the
  network answers) there is a 32-byte SMT root and a certificate with the pinned fingerprint and a
  valid chain for both issuers, the application id that proofs are compared with is the 31-byte
  \<open>APP_ID\<close>, and challenges live five minutes.\<close>

theorem strict_server_anchored:
  assumes "server_main en disk = (Serving dp, disk')"
    and "enforced en ''SMT_ROOT_ENFORCE''" and "enforced en ''ISSUER_CERT_ENFORCE''"
    and "answers_both en" and "\<forall>e. Tick e \<in> set smt_evs \<longrightarrow> answers_both e"
  shows "\<exists>p q. v_SmtRoot (dp_verifier (refreshed en smt_evs cert_evs dp)) = Some p
    \<and> v_IssuerCert (dp_verifier (refreshed en smt_evs cert_evs dp)) = Some q
    \<and> (\<forall>i \<in> {IssuerG2, IssuerG3}.
         (\<exists>r. Trusted p i = Some r \<and> length r = 32)
         \<and> (\<exists>rec. Trusted_cert q i = Some rec \<and> trusted_cert (be_crypto en) (be_embedded en) i rec))
    \<and> v_ExpectedAppID (dp_verifier (refreshed en smt_evs cert_evs dp)) = be_getenv en ''APP_ID''
    \<and> length (be_getenv en ''APP_ID'') = 31 \<and> dp_ttl dp = 300 * Second"
proof -
  from refreshed_anchored [OF assms(1,4,5), of cert_evs] assms(2,3) obtain p q where
    p: "v_SmtRoot (dp_verifier (refreshed en smt_evs cert_evs dp)) = Some p" "good_roots p"
    and q: "v_IssuerCert (dp_verifier (refreshed en smt_evs cert_evs dp)) = Some q" "good_certs en q"
    by (auto simp: anchored_def split: option.splits)
  moreover have "\<exists>r. Trusted p i = Some r \<and> length r = 32"
    and "\<exists>rec. Trusted_cert q i = Some rec \<and> trusted_cert (be_crypto en) (be_embedded en) i rec"
    if "i \<in> {IssuerG2, IssuerG3}" for i
    using that p(2) q(2) unfolding good_roots_def good_certs_def set_AllIssuers by blast+
  moreover have "v_ExpectedAppID (dp_verifier dp) = be_getenv en ''APP_ID''"
    "length (be_getenv en ''APP_ID'') = 31" "dp_ttl dp = 300 * Second"
    by (rule server_main_Serving [OF assms(1)]; simp add: AppIDLen_def DefaultTTL_def)+
  ultimately show ?thesis by (intro exI [of _ p] exI [of _ q]) simp
qed

theorem strict_server_anchored_witness:
  "\<exists>dp disk' p. server_main boot_demo boot_disk = (Serving dp, disk')
    \<and> v_SmtRoot (dp_verifier (refreshed boot_demo [Tick boot_demo, StopCh] [Tick boot_demo] dp)) = Some p
    \<and> Trusted p IssuerG3 \<noteq> None \<and> dp_ttl dp = 300 * Second"
proof -
  obtain dp disk' where s: "server_main boot_demo boot_disk = (Serving dp, disk')" using boot_demo_starts by blast
  from strict_server_anchored [OF s boot_demo_enforced, of "[Tick boot_demo, StopCh]" "[Tick boot_demo]"] boot_demo_enforced(3) s
  show ?thesis by auto
qed

text \<open>C1: what a verified answer of the deployed server means, from the environment variables of its
  start to the reply.  When a strict server, after any background refreshes, answers a request to
  \<open>/link-verify\<close> as verified with a nullifier, then for some staged request the Rust library
  accepted both proofs, their public inputs carry that nullifier, an SMT root that is the trusted
  root of the issuer, the modulus of a certificate with the issuer's pinned fingerprint and a valid
  chain, and the configured \<open>APP_ID\<close>, and the tables gained exactly the row of that nullifier and
  challenge.\<close>

theorem deployed_verified_answer:
  assumes "server_main en disk = (Serving dp, disk')"
    and "enforced en ''SMT_ROOT_ENFORCE''" and "enforced en ''ISSUER_CERT_ENFORCE''"
    and "answers_both en" and "\<forall>e. Tick e \<in> set smt_evs \<longrightarrow> answers_both e"
    and "deployed (refreshed en smt_evs cert_evs dp) decode now ev r (d, log) = (reply, (d', log'))"
    and "hq_Path r = [''link-verify'']" and "verified_nullifier (re_Body reply) = Some n"
  shows "\<exists>req sg parsed k p root rec.
      fst (Verify (en_os ev) (en_ffi ev) req (v_KeysDir (dp_verifier dp)) (en_fs ev)) = Inr (True, sg)
    \<and> ParsePublicInputs sg (cert_chain_type (rq_ProofType req)) = Inr parsed
    \<and> v_SmtRoot (dp_verifier (refreshed en smt_evs cert_evs dp)) = Some p
    \<and> ParseRoot (pi_SmtRoot parsed) = Inr root
    \<and> Trusted p (issuerForProofType (rq_ProofType req)) = Some root
    \<and> trusted_cert (be_crypto en) (be_embedded en) (issuerForProofType (rq_ProofType req)) rec
    \<and> observed_modulus (pi_IssuerRSAModulus parsed) = Some (cr_PubKey rec)
    \<and> pi_AppID parsed = be_getenv en ''APP_ID''
    \<and> pi_Nullifier parsed = n \<and> NormalizeDecimal (pi_Challenge parsed) = Inr k
    \<and> d' = with_verification (en_record ev) n k None (StoreKey (rq_ProofType req)) d"
proof -
  define v where "v = dp_verifier (refreshed en smt_evs cert_evs dp)"
  from refreshed_anchored [OF assms(1,4,5), of cert_evs] assms(2,3) obtain p q where
    p: "v_SmtRoot v = Some p" "good_roots p" and q: "v_IssuerCert v = Some q" "good_certs en q"
    by (auto simp: anchored_def v_def [symmetric] split: option.splits)
  have a: "v_ExpectedAppID v = be_getenv en ''APP_ID''" "be_getenv en ''APP_ID'' \<noteq> ''''"
    by (rule server_main_Serving [OF assms(1)]; force simp: v_def AppIDLen_def)+
  obtain req out where o: "env_service (ev\<lparr>en_ttl := dp_ttl dp, en_verifier := v\<rparr>) req d = (out, d')" "answered out = Some n"
    using deployed_link_verify [OF assms(6-8)] unfolding v_def by (metis refreshed_simps(3))
  from env_service_answered [OF o] obtain sg parsed k where
    x: "fst (Verify (en_os ev) (en_ffi ev) req (v_KeysDir v) (en_fs ev)) = Inr (True, sg)"
      "ParsePublicInputs sg (cert_chain_type (rq_ProofType req)) = Inr parsed"
      "smt_ok v (rq_ProofType req) parsed" "issuer_ok v (rq_ProofType req) parsed" "app_ok v parsed"
      "pi_Nullifier parsed = n" "NormalizeDecimal (pi_Challenge parsed) = Inr k"
      "d' = with_verification (en_record ev) n k None (StoreKey (rq_ProofType req)) d" by auto
  obtain root where root: "ParseRoot (pi_SmtRoot parsed) = Inr root" "Trusted p (issuerForProofType (rq_ProofType req)) = Some root"
    using x(3) p(1) by (auto simp: smt_ok_def split: sum.splits)
  have tc: "\<forall>i rec. Trusted_cert q i = Some rec \<longrightarrow> trusted_cert (be_crypto en) (be_embedded en) i rec"
    using q(2) by (simp add: good_certs_def)
  obtain rec where rec: "Trusted_cert q (issuerForProofType (rq_ProofType req)) = Some rec"
    "observed_modulus (pi_IssuerRSAModulus parsed) = Some (cr_PubKey rec)"
    using issuer_ok_modulus [OF x(4) q(1) tc] by blast
  have "pi_AppID parsed = be_getenv en ''APP_ID''" using x(5) a by (simp add: app_ok_def)
  moreover have "v_KeysDir v = v_KeysDir (dp_verifier dp)" by (simp add: v_def)
  ultimately show ?thesis
    using x p(1) root rec tc unfolding v_def [symmetric] by metis
qed

theorem deployed_verified_answer_witness:
  "\<exists>dp disk' (limbs :: string list) rt reply d' log' (parsed :: ParsedInputs). server_main boot_demo boot_disk = (Serving dp, disk')
    \<and> deployed (refreshed boot_demo [] [] dp) boot_decode 0 (boot_call limbs rt) boot_request (demo_db, []) = (reply, (d', log'))
    \<and> verified_nullifier (re_Body reply) = Some ''n''
    \<and> pi_Nullifier parsed = ''n'' \<and> pi_AppID parsed = boot_app_id"
proof -
  obtain dp disk' where s: "server_main boot_demo boot_disk = (Serving dp, disk')" using boot_demo_starts by blast
  let ?v = "dp_verifier (refreshed boot_demo [] [] dp)"
  from refreshed_anchored [OF s boot_demo_enforced(3), of "[]" "[]"] boot_demo_enforced obtain p q where
    p: "v_SmtRoot ?v = Some p" "good_roots p" and q: "v_IssuerCert ?v = Some q" "good_certs boot_demo q"
    by (auto simp: anchored_def split: option.splits)
  have a: "v_ExpectedAppID ?v = boot_app_id"
    by (rule server_main_Serving [OF s]) (simp add: boot_demo_def)
  obtain root where root: "Trusted p IssuerG2 = Some root" "length root = 32"
    using p(2) unfolding good_roots_def set_AllIssuers by blast
  obtain rec where rec: "Trusted_cert q IssuerG2 = Some rec" "length (cr_Limbs rec) = 17"
    using q(2) trusted_G2_limbs unfolding good_certs_def set_AllIssuers by blast
  obtain reply d' log' where r: "deployed (refreshed boot_demo [] [] dp) boot_decode 0 (boot_call (cr_Limbs rec) (Hex root))
      boot_request (demo_db, []) = (reply, (d', log'))" by (metis prod_cases3)
  with boot_verified [OF p(1) q(1) a root rec refl] have n: "verified_nullifier (re_Body reply) = Some ''n''" by simp
  have path: "hq_Path boot_request = [''link-verify'']" by (simp add: boot_request_def)
  have t: "\<forall>e. Tick e \<in> set ([] :: boot_env loop_event list) \<longrightarrow> answers_both e" by simp
  from deployed_verified_answer [OF s boot_demo_enforced t r path n]
  obtain parsed :: ParsedInputs where "pi_Nullifier parsed = ''n''" "pi_AppID parsed = boot_app_id"
    by (auto simp: boot_demo_def)
  with s r n show ?thesis by blast
qed

text \<open>C30: when the server starts.  \<open>main\<close> reaches the listeners exactly when \<open>APP_ID\<close> is 31 bytes of
  valid UTF-8, the database opens and migrates, one of the two SMT sources delivers both roots and the
  embedded certificates validate (each unless its enforcement is switched off), and the gRPC port is
  free.  Failing key downloads and failing certificate downloads do not stop it.\<close>

theorem server_starts_iff:
  "(\<exists>dp disk'. server_main en disk = (Serving dp, disk')) \<longleftrightarrow>
     length (be_getenv en ''APP_ID'') = 31 \<and> ValidString (be_getenv en ''APP_ID'')
     \<and> store_opens en disk
     \<and> \<not> (enforced en ''SMT_ROOT_ENFORCE'' \<and> onchain_fails en \<and> github_fails en)
     \<and> \<not> (enforced en ''ISSUER_CERT_ENFORCE'' \<and> embedded_fails en)
     \<and> be_listen en (grpc_address en) = None"
  by (simp add: server_main_starts buildSmtRootProvider_ok buildIssuerCertProvider_ok AppIDLen_def)

text \<open>A duration from the environment.  A whole number of a unit that fits 64 bits is taken as
  written when it is positive.\<close>

theorem env_duration_units:
  assumes "getenv name = nat_string 10 n @ u" and "unitMap u = Some k" and "0 < n" and "n * k < 2 ^ 63"
  shows "envDuration getenv name def = int (n * k)"
proof -
  have "0 < k" using unitMap_chars [OF assms(2)] by simp
  with assms(3) have "0 < int (n * k)" by simp
  moreover have "getenv name \<noteq> ''''" using assms(1) by simp
  ultimately show ?thesis
    using ParseDuration_units [OF assms(2,4)] assms(1) by (simp add: envDuration_def del: of_nat_mult)
qed

theorem env_duration_units_witness:
  "envDuration (\<lambda>_. nat_string 10 90 @ ''m'') ''SMT_ROOT_REFRESH_INTERVAL'' 0 = 90 * 60 * Second"
  using env_duration_units [of "\<lambda>_. nat_string 10 90 @ ''m''" "''SMT_ROOT_REFRESH_INTERVAL''" 90 "''m''" 60000000000 0]
  by (simp add: unitMap_def Second_def)

text \<open>Whatever the variable holds, the duration is positive and fits 64 bits, provided the default
  does: the intervals and timeouts of the server are never zero or negative.\<close>

theorem env_duration_positive:
  assumes "0 < def" and "def < 2 ^ 63"
  shows "0 < envDuration getenv name def \<and> envDuration getenv name def < 2 ^ 63"
  using assms ParseDuration_bounds [of "getenv name"]
  by (simp add: envDuration_def Let_def not_le split: sum.split)

theorem env_duration_positive_witness:
  "0 < envDuration (\<lambda>_. ''-5m'') ''SMT_ROOT_FETCH_TIMEOUT'' (5 * Second)"
  by (rule conjunct1 [OF env_duration_positive]) (simp_all add: Second_def)

text \<open>The middleware.  A preflight (\<open>OPTIONS\<close>) request is answered 204 without a body and reaches
  neither the router nor the log; any other request gets the router's status and body, leaves the
  router's state and one log line with that status; both replies carry the three CORS headers, the
  second also the router's, which are others.\<close>

theorem deployed_replies:
  "deployed dp decode now ev r (d, log) =
     (if hq_Method r = ''OPTIONS''
      then (\<lparr>re_Status = 204, re_Headers = cors_headers (dp_corsOrigin dp), re_Body = JNone\<rparr>, (d, log))
      else
        case serve decode now (http_server (ev\<lparr>en_ttl := dp_ttl dp, en_verifier := dp_verifier dp\<rparr>) (dp_appID dp) (dp_debugToken dp)) r d of
          (inner, d') \<Rightarrow>
            (\<lparr>re_Status = re_Status inner, re_Headers = re_Headers inner ++ cors_headers (dp_corsOrigin dp),
              re_Body = re_Body inner\<rparr>,
             (d', log @ [(hq_Method r, hq_Path r, re_Status inner)])))"
proof -
  obtain inner d' where s: "serve decode now (http_server (ev\<lparr>en_ttl := dp_ttl dp, en_verifier := dp_verifier dp\<rparr>)
      (dp_appID dp) (dp_debugToken dp)) r d = (inner, d')" by fastforce
  have "dom (re_Headers inner) \<subseteq> {''Content-Type'', ''X-Content-Type-Options'', ''Allow''}"
    using serve_headers [of decode now _ r d] s by (metis fst_conv)
  moreover have "dom (cors_headers (dp_corsOrigin dp))
      = {''Access-Control-Allow-Origin'', ''Access-Control-Allow-Methods'', ''Access-Control-Allow-Headers''}"
    by (auto simp: cors_headers_def)
  ultimately have "dom (cors_headers (dp_corsOrigin dp)) \<inter> dom (re_Headers inner) = {}" by auto
  then have "cors_headers (dp_corsOrigin dp) ++ re_Headers inner = re_Headers inner ++ cors_headers (dp_corsOrigin dp)"
    by (rule map_add_comm)
  with s show ?thesis by (simp add: deployed_def corsMiddleware_def logMiddleware_def)
qed

text \<open>The command-line verifier exits with 0 exactly when the Rust library accepts the proofs of the
  chosen circuit in the base directory.\<close>

theorem cli_exit_zero:
  "cl_Exit (verifier_main ff fs getenv getwd args) = 0 \<longleftrightarrow>
     (case (if getenv ''ZK_BASE_DIR'' \<noteq> '''' then Inr (getenv ''ZK_BASE_DIR'') else getwd) of
        Inl e \<Rightarrow> False
      | Inr dir \<Rightarrow> 0 < ffi_ret (zk_link_verify ff fs dir
          (if ''--cert-chain-4096'' \<in> set (tl args) \<or> ''-4'' \<in> set (tl args) then CertChainRS4096 else CertChainRS2048)))"
proof -
  have c: "(\<exists>arg \<in> set (tl args). arg = ''--cert-chain-4096'' \<or> arg = ''-4'')
      = (''--cert-chain-4096'' \<in> set (tl args) \<or> ''-4'' \<in> set (tl args))" by blast
  show ?thesis
    unfolding verifier_main_def c LinkVerify_def Let_def by (simp split: sum.split)
qed

end
