(* ===== verification/Session.thy ===== *)
theory Session
  imports Server_Main
begin

text \<open>
  The session of an honest client with the deployed server: it asks for a challenge, proves, and posts
  the proofs, while the refreshers run and other clients use both transports.  The lemmas say what
  the requests of others leave of a stored challenge; the property says that the session ends with a
  verified answer.
\<close>

subsection \<open>A stored challenge\<close>









subsection \<open>The two requests\<close>







subsection \<open>A concrete session\<close>













subsection \<open>Properties\<close>



end
