(* ===== verification/Smt_Log.thy ===== *)
theory Smt_Log
  imports Smt_Root
begin

text \<open>
  \<open>smtroot/log.go\<close>: the \<open>Logger\<close> interface and the logger the server uses, and the events that
  \<open>FetchNow\<close> of \<open>smtroot/refresh.go\<close> logs.  An event is a level, a name and a list of keys and values
  of any type; \<open>DefaultLogger\<close> prints it as one line \<open>level=... event=... k=v k=v\<close>, in which a value is
  quoted when it holds a space, a tab, a quote or an equals sign.  The lemmas: a reader gets every
  field back from a line, whatever the values are; when a line holds a raw newline; and the log of
  a refresh tells what became of it.
\<close>

subsection \<open>Events and lines\<close>

datatype any = AString string | ABool bool | AInt int

text \<open>\<open>fmt.Sprint\<close> of one operand.\<close>

fun Sprint :: "any \<Rightarrow> string" where
  "Sprint (AString s) = s"
| "Sprint (ABool b) = (if b then ''true'' else ''false'')"
| "Sprint (AInt i) = Int_String i"

record log_event =
  le_level :: string
  le_event :: string
  le_kv :: "any list"

definition event :: "string \<Rightarrow> string \<Rightarrow> any list \<Rightarrow> log_event" where
  "event level ev kv = \<lparr>le_level = level, le_event = ev, le_kv = kv\<rparr>"

text \<open>The characters of \<open>strings.ContainsAny(v, " \t\"=")\<close>.\<close>

definition special :: "char \<Rightarrow> bool" where
  "special c \<longleftrightarrow> c = CHR '' '' \<or> c = CHR 0x09 \<or> c = dquote \<or> c = CHR ''=''"

definition quoteIfNeeded :: "(nat \<Rightarrow> bool) \<Rightarrow> string \<Rightarrow> string" where
  "quoteIfNeeded isPrint v =
     (if v = '''' then [dquote, dquote]
      else if list_ex special v then Quote isPrint v
      else v)"

text \<open>A key without a value at the end is dropped.\<close>

fun event_fields :: "(nat \<Rightarrow> bool) \<Rightarrow> any list \<Rightarrow> string" where
  "event_fields isPrint (k # v # kv) =
     '' '' @ Sprint k @ ''='' @ quoteIfNeeded isPrint (Sprint v) @ event_fields isPrint kv"
| "event_fields isPrint kv = ''''"

text \<open>The line, without the time stamp the \<open>log\<close> package puts before it and the newline it adds.\<close>

definition DefaultLogger_Event :: "(nat \<Rightarrow> bool) \<Rightarrow> log_event \<Rightarrow> string" where
  "DefaultLogger_Event isPrint e =
     ''level='' @ le_level e @ '' event='' @ le_event e @ event_fields isPrint (le_kv e)"

text \<open>\<open>log.Println\<close> with the stamp of the moment.\<close>

definition Println :: "string \<Rightarrow> string \<Rightarrow> string" where
  "Println stamp line = stamp @ line @ [CHR 0x0A]"

subsection \<open>Reading a line\<close>

text \<open>
  A field is a key, an equals sign, and a value that is quoted when it begins with a quote and
  otherwise ends before the next space.
\<close>

definition read_value :: "string \<Rightarrow> (string \<times> string) option" where
  "read_value s =
     (case s of
        [] \<Rightarrow> Some ([], [])
      | c # t \<Rightarrow>
          if c = dquote then unquote t
          else Some (takeWhile (\<lambda>c. c \<noteq> CHR '' '') s, dropWhile (\<lambda>c. c \<noteq> CHR '' '') s))"

lemma prepend_Some: "prepend bs r = Some (v, t) \<longleftrightarrow> (\<exists>v'. r = Some (v', t) \<and> v = bs @ v')"
  by (cases r) (auto simp: prepend_def)

lemma unquote_shorter: "unquote s = Some (v, t) \<Longrightarrow> length t < length s"
proof (induction s arbitrary: v rule: length_induct)
  case (1 s)
  have shorter: "length t < length s'" if "length s' < length s" "unquote s' = Some (v', t)" for s' v'
    using 1(1) that by blast
  obtain c s1 where s: "s = c # s1" using 1(2) by (cases s) auto
  show ?case
  proof (cases "c = dquote \<or> c \<noteq> backslash")
    case True
    with 1(2) s shorter [of s1] show ?thesis by (auto simp: prepend_Some split: if_splits)
  next
    case False
    with 1(2) s obtain e s2 where s1: "s1 = e # s2" by (cases s1) auto
    from 1(2) False s s1 consider v' where "unquote (drop (escape_width e) s2) = Some (v', t)" | v' where "unquote s2 = Some (v', t)"
      by (auto simp: prepend_Some split: if_splits option.splits)
    then show ?thesis
    proof cases
      case 1
      have "length t < length (drop (escape_width e) s2)" by (rule shorter [OF _ 1]) (simp add: s s1)
      then show ?thesis by (simp add: s s1)
    next
      case 2
      from shorter [OF _ this] s s1 show ?thesis by simp
    qed
  qed
qed

lemma read_value_shorter:
  assumes "read_value s = Some (v, t)"
  shows "length t \<le> length s"
proof (cases s)
  case (Cons c s1)
  show ?thesis
  proof (cases "c = dquote")
    case True
    with assms Cons have "length t < length s1" by (intro unquote_shorter [of _ v]) (simp add: read_value_def)
    with Cons show ?thesis by simp
  next
    case False
    with assms Cons have "t = dropWhile (\<lambda>c. c \<noteq> CHR '' '') s" by (auto simp: read_value_def)
    then show ?thesis by (simp only: length_dropWhile_le)
  qed
qed (use assms in \<open>simp add: read_value_def\<close>)

function read_fields :: "string \<Rightarrow> (string \<times> string) list option" where
  "read_fields s =
     (let k = takeWhile (\<lambda>c. c \<noteq> CHR ''='') s; r = dropWhile (\<lambda>c. c \<noteq> CHR ''='') s in
      if r = [] then None
      else case read_value (tl r) of
             None \<Rightarrow> None
           | Some (v, rest) \<Rightarrow>
               (case rest of
                  [] \<Rightarrow> Some [(k, v)]
                | c # s' \<Rightarrow> if c = CHR '' '' then map_option (Cons (k, v)) (read_fields s') else None))"
  by pat_completeness auto
termination
proof (relation "measure length")
  fix s k r x v rest c s'
  assume r: "r = dropWhile (\<lambda>c. c \<noteq> CHR ''='') s" "r \<noteq> []" "read_value (tl r) = Some x" "(v, rest) = x" "rest = c # s'"
  from r(3,4) have "length rest \<le> length (tl r)" by (intro read_value_shorter [of _ v]) simp
  moreover have "length (tl r) < length r" using r(2) by simp
  moreover have "length r \<le> length s" unfolding r(1) by (rule length_dropWhile_le)
  ultimately show "(s', s) \<in> measure length" using r(5) by simp
qed simp

declare read_fields.simps [simp del]

definition plain :: "string \<Rightarrow> bool" where
  "plain s \<longleftrightarrow> s \<noteq> '''' \<and> \<not> list_ex special s"

fun sprint_pairs :: "any list \<Rightarrow> (string \<times> string) list" where
  "sprint_pairs (k # v # kv) = (Sprint k, Sprint v) # sprint_pairs kv"
| "sprint_pairs kv = []"

definition plain_keys :: "any list \<Rightarrow> bool" where
  "plain_keys kv \<longleftrightarrow> list_all (\<lambda>(k, v). plain k) (sprint_pairs kv)"

text \<open>What an event says: level, name, and the fields in order.\<close>

definition event_content :: "log_event \<Rightarrow> (string \<times> string) list" where
  "event_content e = (''level'', le_level e) # (''event'', le_event e) # sprint_pairs (le_kv e)"

definition plain_event :: "log_event \<Rightarrow> bool" where
  "plain_event e \<longleftrightarrow> plain (le_level e) \<and> plain (le_event e) \<and> plain_keys (le_kv e)"

abbreviation at_field_end :: "string \<Rightarrow> bool" where
  "at_field_end r \<equiv> r = [] \<or> hd r = CHR '' ''"

lemma take_drop_stop:
  assumes "\<forall>c \<in> set a. P c" "r = [] \<or> \<not> P (hd r)"
  shows "takeWhile P (a @ r) = a" "dropWhile P (a @ r) = r"
  using assms by (cases r; simp add: takeWhile_append2 dropWhile_append2)+

lemma read_unquoted:
  assumes "v \<noteq> []" "\<not> list_ex special v" "at_field_end r"
  shows "read_value (v @ r) = Some (v, r)"
proof -
  obtain c w where v: "v = c # w" using assms(1) by (cases v) auto
  have "\<forall>c \<in> set v. c \<noteq> CHR '' ''" using assms(2) by (auto simp: list_ex_iff special_def)
  from take_drop_stop [OF this, of r] assms(3) show ?thesis
    using assms(2) v by (auto simp: read_value_def special_def)
qed

lemma read_quoteIfNeeded:
  assumes "at_field_end r"
  shows "read_value (quoteIfNeeded P v @ r) = Some (v, r)"
proof -
  have "read_value (dquote # dquote # r) = Some ([], r)" by (simp add: read_value_def)
  moreover have "read_value (Quote P v @ r) = Some (v, r)"
    by (simp add: read_value_def Quote_def unquote_runes)
  ultimately show ?thesis using read_unquoted [of v r] assms by (simp add: quoteIfNeeded_def)
qed

lemma key_stop:
  assumes "plain k"
  shows "takeWhile (\<lambda>c. c \<noteq> CHR ''='') (k @ CHR ''='' # r) = k"
    "dropWhile (\<lambda>c. c \<noteq> CHR ''='') (k @ CHR ''='' # r) = CHR ''='' # r"
  using take_drop_stop [of k "\<lambda>c. c \<noteq> CHR ''=''" "CHR ''='' # r"] assms
  by (auto simp: plain_def list_ex_iff special_def)

lemma read_field:
  assumes "plain k" "read_value (v @ r) = Some (w, r)"
  shows "read_fields (k @ CHR ''='' # v @ r) =
     (case r of [] \<Rightarrow> Some [(k, w)]
      | c # s \<Rightarrow> if c = CHR '' '' then map_option (Cons (k, w)) (read_fields s) else None)"
  unfolding read_fields.simps [of "k @ CHR ''='' # v @ r"] Let_def key_stop [OF assms(1)]
  by (simp add: assms(2))

lemma event_fields_end: "at_field_end (event_fields P kv)"
  by (induction P kv rule: event_fields.induct) auto

lemma read_event_fields:
  assumes "plain_keys kv" "event_fields P kv \<noteq> []"
  shows "read_fields (tl (event_fields P kv)) = Some (sprint_pairs kv)"
  using assms
proof (induction P kv rule: event_fields.induct)
  case (1 P k v kv)
  have k: "plain (Sprint k)" "plain_keys kv" using 1(2) by (simp_all add: plain_keys_def)
  have t: "tl (event_fields P (k # v # kv)) = Sprint k @ CHR ''='' # quoteIfNeeded P (Sprint v) @ event_fields P kv"
    by simp
  note f = read_field [OF k(1) read_quoteIfNeeded [OF event_fields_end, of P "Sprint v" P kv]]
  show ?case
  proof (cases "event_fields P kv")
    case Nil
    then have "sprint_pairs kv = []" by (cases kv rule: sprint_pairs.cases) auto
    with Nil f show ?thesis unfolding t by simp
  next
    case (Cons c s)
    with event_fields_end [of P kv] 1(1) k(2) have "c = CHR '' ''" "read_fields s = Some (sprint_pairs kv)" by auto
    with Cons f show ?thesis unfolding t by simp
  qed
qed simp_all

lemma read_event:
  assumes "plain_event e"
  shows "read_fields (DefaultLogger_Event P e) = Some (event_content e)"
proof -
  let ?kv = "event_fields P (le_kv e)"
  let ?ev = "''event='' @ le_event e @ ?kv"
  have pl: "plain ''level''" "plain ''event''" by (simp_all add: plain_def special_def dquote_def)
  from assms have e: "plain (le_level e)" "plain (le_event e)" "plain_keys (le_kv e)" by (simp_all add: plain_event_def)
  have v: "read_value (v @ r) = Some (v, r)" if "plain v" "at_field_end r" for v r
    using read_unquoted that by (simp add: plain_def)
  have "read_fields ?ev = (case ?kv of [] \<Rightarrow> Some [(''event'', le_event e)]
      | c # s \<Rightarrow> if c = CHR '' '' then map_option (Cons (''event'', le_event e)) (read_fields s) else None)"
    using read_field [OF pl(2) v [OF e(2) event_fields_end, of P "le_kv e"]] by simp
  also have "\<dots> = Some ((''event'', le_event e) # sprint_pairs (le_kv e))"
  proof (cases ?kv)
    case Nil
    then have "sprint_pairs (le_kv e) = []" by (cases "le_kv e" rule: sprint_pairs.cases) auto
    with Nil show ?thesis by simp
  next
    case (Cons c s)
    with event_fields_end [of P "le_kv e"] read_event_fields [OF e(3), of P] show ?thesis by auto
  qed
  finally have ev: "read_fields ?ev = Some ((''event'', le_event e) # sprint_pairs (le_kv e))" .
  have "DefaultLogger_Event P e = ''level'' @ CHR ''='' # le_level e @ CHR '' '' # ?ev"
    by (simp add: DefaultLogger_Event_def)
  also have "read_fields \<dots> = Some (event_content e)"
    using read_field [OF pl(1) v [OF e(1), of "CHR '' '' # ?ev"]] ev by (simp add: event_content_def)
  finally show ?thesis .
qed

text \<open>The printer and the reader of a line.\<close>

definition print_line :: "(nat \<Rightarrow> bool) \<Rightarrow> log_event \<Rightarrow> string result" where
  "print_line isPrint e =
     (if plain_event e then Inr (DefaultLogger_Event isPrint e) else Inl (Errorf ''not a plain event'' []))"

definition read_line :: "string \<Rightarrow> (string \<times> string) list result" where
  "read_line s = (case read_fields s of None \<Rightarrow> Inl (Errorf ''not a log line'' []) | Some fs \<Rightarrow> Inr fs)"

interpretation log_line: codec "print_line isPrint" read_line event_content
  by unfold_locales (auto simp: print_line_def read_line_def read_event split: if_splits)

subsection \<open>Lines that break\<close>

abbreviation newline :: char where "newline \<equiv> CHR 0x0A"

text \<open>A value with a newline that is printed as it is.\<close>

definition breaks_line :: "string \<Rightarrow> bool" where
  "breaks_line v \<longleftrightarrow> newline \<in> set v \<and> \<not> list_ex special v"

definition fixed_names :: "log_event \<Rightarrow> bool" where
  "fixed_names e \<longleftrightarrow> newline \<notin> set (le_level e) \<and> newline \<notin> set (le_event e)
     \<and> list_all (\<lambda>(k, v). newline \<notin> set k) (sprint_pairs (le_kv e))"

lemma Quote_one_line: "newline \<notin> set (Quote P v)"
  using Quote_not_control [of newline P v] by (auto simp: control_def)

lemma quoteIfNeeded_newline: "newline \<in> set (quoteIfNeeded P v) \<longleftrightarrow> breaks_line v"
  using Quote_one_line [of P v] by (auto simp: quoteIfNeeded_def breaks_line_def dquote_def)

lemma event_fields_newline:
  "list_all (\<lambda>(k, v). newline \<notin> set k) (sprint_pairs kv) \<Longrightarrow>
     newline \<in> set (event_fields P kv) \<longleftrightarrow> (\<exists>(k, v) \<in> set (sprint_pairs kv). breaks_line v)"
  by (induction P kv rule: event_fields.induct) (auto simp: quoteIfNeeded_newline)

lemma event_newline:
  "fixed_names e \<Longrightarrow>
     newline \<in> set (DefaultLogger_Event P e) \<longleftrightarrow> (\<exists>(k, v) \<in> set (sprint_pairs (le_kv e)). breaks_line v)"
  using event_fields_newline [of "le_kv e" P] by (auto simp: fixed_names_def DefaultLogger_Event_def)

lemma breaks_line_simps [simp]:
  "\<not> breaks_line (if b then ''true'' else ''false'')" "\<not> breaks_line (Int_String i)"
proof -
  show "\<not> breaks_line (if b then ''true'' else ''false'')" by (simp add: breaks_line_def)
  have "newline \<notin> set (Int_String i)" using graphic_Int_String [of newline i] by (auto simp: graphic_def)
  then show "\<not> breaks_line (Int_String i)" by (simp add: breaks_line_def)
qed

subsection \<open>The log of a refresh\<close>

definition logRefreshed ::
  "string \<Rightarrow> string \<Rightarrow> (IssuerID \<rightharpoonup> Root) \<Rightarrow> (IssuerID \<Rightarrow> bool) \<Rightarrow> duration \<Rightarrow> log_event" where
  "logRefreshed trigger source rs changed tot =
     event ''info'' ''smt_root_refreshed''
       ([AString ''trigger'', AString trigger, AString ''source'', AString source,
         AString ''total_latency_ms'', AInt (Milliseconds tot)]
        @ concat (map (\<lambda>issuer.
            [AString (ShortName issuer),
             AString (Hex (case rs issuer of None \<Rightarrow> zero_root | Some r \<Rightarrow> r)),
             AString (ShortName issuer @ ''_changed''), ABool (changed issuer)]) AllIssuers))"

text \<open>
  The loop over the sources with its events; \<open>total\<close> is the time since the start of the refresh and
  \<open>status_now\<close> the clock at the call of \<open>Status\<close>.
\<close>

record refresh_clock =
  rc_total :: duration
  rc_status :: time

fun try_logged ::
  "('s \<Rightarrow> string) \<Rightarrow> (nat \<Rightarrow> 's \<Rightarrow> (IssuerID \<rightharpoonup> Root) result \<times> duration) \<Rightarrow> string \<Rightarrow> time \<Rightarrow> refresh_clock
    \<Rightarrow> nat \<Rightarrow> 's list \<Rightarrow> err list \<Rightarrow> 's Provider \<Rightarrow> err option \<times> 's Provider \<times> log_event list" where
  "try_logged nm fetch trigger now clk k [] errs p =
     (let joined = errors_Join (map Some errs);
          p1 = snd (setRoots now Map.empty '''' joined p);
          status = Provider_Status (rc_status clk) p1
      in (joined, p1,
          [event ''error'' ''smt_root_fetch_failed''
             [AString ''trigger'', AString trigger,
              AString ''consecutive_fail'', AInt (int (s_ConsecutiveFail status)),
              AString ''last_err'', AString (case joined of None \<Rightarrow> [] | Some e \<Rightarrow> err_text e),
              AString ''cache_age_seconds'', AInt (s_CacheAgeSeconds status)]]))"
| "try_logged nm fetch trigger now clk k (src # srcs) errs p =
     (case fetch k src of
        (r, latency) \<Rightarrow>
          let p1 = recordAttempt (nm src) latency (error_of r) p in
          case r of
            Inl e \<Rightarrow>
              (case try_logged nm fetch trigger now clk (Suc k) srcs (errs @ [Wrapf ''%s: %w'' [nm src] e]) p1 of
                 (err, p2, evs) \<Rightarrow>
                   (err, p2,
                    event ''warn'' ''smt_root_fetch_attempt''
                      [AString ''trigger'', AString trigger, AString ''source'', AString (nm src),
                       AString ''ok'', ABool False, AString ''latency_ms'', AInt (Milliseconds latency),
                       AString ''err'', AString (err_text e)] # evs))
          | Inr rs \<Rightarrow>
              (case setRoots now rs (nm src) None p1 of
                 (changed, p2) \<Rightarrow>
                   (None, p2,
                    [event ''info'' ''smt_root_fetch_attempt''
                       [AString ''trigger'', AString trigger, AString ''source'', AString (nm src),
                        AString ''ok'', ABool True, AString ''latency_ms'', AInt (Milliseconds latency)],
                     logRefreshed trigger (nm src) rs changed (rc_total clk)])))"

definition FetchNow_logged ::
  "('s \<Rightarrow> string) \<Rightarrow> (nat \<Rightarrow> 's \<Rightarrow> (IssuerID \<rightharpoonup> Root) result \<times> duration) \<Rightarrow> string \<Rightarrow> time \<Rightarrow> refresh_clock
    \<Rightarrow> 's Provider \<Rightarrow> err option \<times> 's Provider \<times> log_event list" where
  "FetchNow_logged nm fetch trigger now clk p =
     (if primary p = None \<and> fallback p = None then (Some (Sentinel ErrNoSource), p, [])
      else case try_logged nm fetch trigger now clk 0 (sources_of p) [] p of
             (err, p', evs) \<Rightarrow>
               (err, p', event ''info'' ''smt_root_fetch_start'' [AString ''trigger'', AString trigger] # evs))"

text \<open>Without its events this is \<open>FetchNow\<close>.\<close>

lemma try_logged_sources:
  "(case try_logged nm fetch trigger now clk k srcs errs p of (err, p', evs) \<Rightarrow> (err, p'))
     = try_sources nm fetch now k srcs errs p"
proof (induction srcs arbitrary: k errs p)
  case Nil
  show ?case by (simp add: Let_def)
next
  case (Cons src srcs)
  obtain r latency where f: "fetch k src = (r, latency)" by fastforce
  show ?case
  proof (cases r)
    case (Inl e)
    let ?p = "recordAttempt (nm src) latency (error_of r) p"
    let ?es = "errs @ [Wrapf ''%s: %w'' [nm src] e]"
    obtain err p2 evs where t: "try_logged nm fetch trigger now clk (Suc k) srcs ?es ?p = (err, p2, evs)"
      by (metis prod_cases3)
    with Cons [of "Suc k" ?es ?p] have "try_sources nm fetch now (Suc k) srcs ?es ?p = (err, p2)" by simp
    with Inl f t show ?thesis by simp
  qed (simp add: f Let_def split: prod.split)
qed

lemma FetchNow_logged_FetchNow:
  "(case FetchNow_logged nm fetch trigger now clk p of (err, p', evs) \<Rightarrow> (err, p')) = FetchNow nm fetch now p"
  using try_logged_sources [of nm fetch trigger now clk 0 "sources_of p" "[]" p]
  by (auto simp: FetchNow_logged_def FetchNow_def split: prod.splits)

subsection \<open>What the log of a refresh tells\<close>

lemma sprint_pairs_simps [simp]:
  "sprint_pairs ([k, v] @ kv) = (Sprint k, Sprint v) # sprint_pairs kv"
  by simp

lemma ShortName_cases: "i \<in> set AllIssuers \<Longrightarrow> ShortName i = ''g2'' \<or> ShortName i = ''g3''"
  by (auto simp: ShortName_def)

definition changed_key :: "IssuerID \<Rightarrow> string" where
  "changed_key i = ShortName i @ ''_changed''"

definition reports :: "log_event \<Rightarrow> string \<times> string \<Rightarrow> bool" where
  "reports e f \<longleftrightarrow> f \<in> set (sprint_pairs (le_kv e))"

lemma logRefreshed_pairs:
  "sprint_pairs (le_kv (logRefreshed trigger source rs changed tot)) =
     [(''trigger'', trigger), (''source'', source), (''total_latency_ms'', Int_String (Milliseconds tot)),
      (''g2'', Hex (case rs IssuerG2 of None \<Rightarrow> zero_root | Some r \<Rightarrow> r)),
      (''g2_changed'', if changed IssuerG2 then ''true'' else ''false''),
      (''g3'', Hex (case rs IssuerG3 of None \<Rightarrow> zero_root | Some r \<Rightarrow> r)),
      (''g3_changed'', if changed IssuerG3 then ''true'' else ''false'')]"
  by (simp add: logRefreshed_def event_def AllIssuers_def ShortName_def)

lemma logRefreshed_reports:
  assumes "i \<in> set AllIssuers"
  shows "reports (logRefreshed trigger source rs changed tot) (changed_key i, ''true'') \<longleftrightarrow> changed i"
    "reports (logRefreshed trigger source rs changed tot)
       (ShortName i, Hex (case rs i of None \<Rightarrow> zero_root | Some r \<Rightarrow> r))"
  using assms by (auto simp: reports_def logRefreshed_pairs changed_key_def ShortName_def)

lemma setRoots_changed:
  assumes "setRoots now rs source None p = (changed, p')"
  shows "changed i \<longleftrightarrow> Trusted p' i \<noteq> Trusted p i" "rs i = Some r \<Longrightarrow> Trusted p' i = Some r"
    "changed i \<Longrightarrow> rs i \<noteq> None"
  using assms by (auto simp: setRoots_def Trusted_def Root_Equal_def Let_def map_add_def split: option.splits) metis

text \<open>A refresh either installs and ends with the event of \<open>logRefreshed\<close>, or leaves the roots alone.\<close>

lemma try_logged_cases:
  assumes "try_logged nm fetch trigger now clk k srcs errs p = (err, p', evs)"
  obtains (installed) src rs changed p1 ats where "err = None" "roots p1 = roots p"
      "setRoots now rs (nm src) None p1 = (changed, p')"
      "evs = ats @ [logRefreshed trigger (nm src) rs changed (rc_total clk)]"
      "\<And>i v. i \<in> set AllIssuers \<Longrightarrow> list_all (\<lambda>e. \<not> reports e (changed_key i, v)) ats"
  | (kept) "roots p' = roots p"
      "\<And>i v. i \<in> set AllIssuers \<Longrightarrow> list_all (\<lambda>e. \<not> reports e (changed_key i, v)) evs"
  using assms
proof (induction srcs arbitrary: k errs p evs thesis)
  case Nil
  note result = Nil
  have "roots p' = roots p" using result(3)
    by (auto simp: Let_def setRoots_def errors_Join_def split: option.splits)
  moreover have "list_all (\<lambda>e. \<not> reports e (changed_key i, v)) evs" if "i \<in> set AllIssuers" for i v
    using result(3) ShortName_cases [OF that] by (auto simp: Let_def reports_def event_def changed_key_def)
  ultimately show ?case by (rule result(2))
next
  case (Cons src srcs)
  note result = Cons.prems
  obtain r latency where f: "fetch k src = (r, latency)" by fastforce
  show ?case
  proof (cases r)
    case (Inl e)
    let ?p = "recordAttempt (nm src) latency (error_of r) p"
    let ?es = "errs @ [Wrapf ''%s: %w'' [nm src] e]"
    let ?at = "event ''warn'' ''smt_root_fetch_attempt''
      [AString ''trigger'', AString trigger, AString ''source'', AString (nm src), AString ''ok'', ABool False,
       AString ''latency_ms'', AInt (Milliseconds latency), AString ''err'', AString (err_text e)]"
    obtain evs1 where t: "try_logged nm fetch trigger now clk (Suc k) srcs ?es ?p = (err, p', evs1)" and evs: "evs = ?at # evs1"
      using result(3) f Inl by (auto split: prod.splits)
    have at: "\<not> reports ?at (changed_key i, v)" if "i \<in> set AllIssuers" for i v
      using ShortName_cases [OF that] by (auto simp: reports_def event_def changed_key_def)
    show ?thesis
    proof (rule Cons.IH [OF _ _ t])
      fix src' rs changed p1 ats
      assume "err = None" "roots p1 = roots ?p" "setRoots now rs (nm src') None p1 = (changed, p')"
        "evs1 = ats @ [logRefreshed trigger (nm src') rs changed (rc_total clk)]"
        "\<And>i v. i \<in> set AllIssuers \<Longrightarrow> list_all (\<lambda>e. \<not> reports e (changed_key i, v)) ats"
      then show ?thesis using at by (intro result(1) [of p1 rs src' changed "?at # ats"]) (simp_all add: evs)
    next
      assume "roots p' = roots ?p"
        "\<And>i v. i \<in> set AllIssuers \<Longrightarrow> list_all (\<lambda>e. \<not> reports e (changed_key i, v)) evs1"
      then show ?thesis using at by (intro result(2)) (simp_all add: evs)
    qed
  next
    case (Inr rs)
    let ?p = "recordAttempt (nm src) latency (error_of r) p"
    obtain changed p2 where s: "setRoots now rs (nm src) None ?p = (changed, p2)" by fastforce
    let ?at = "event ''info'' ''smt_root_fetch_attempt''
      [AString ''trigger'', AString trigger, AString ''source'', AString (nm src), AString ''ok'', ABool True,
       AString ''latency_ms'', AInt (Milliseconds latency)]"
    have "\<not> reports ?at (changed_key i, v)" if "i \<in> set AllIssuers" for i v
      using ShortName_cases [OF that] by (auto simp: reports_def event_def changed_key_def)
    with result(3) f Inr s show ?thesis
      by (intro result(1) [of ?p rs src changed "[?at]"]) (auto simp: Let_def)
  qed
qed

text \<open>Every event has plain names and keys, so its line can be read.\<close>

lemma plain_keys_Nil [simp]: "plain_keys []" and
  plain_keys_Cons [simp]: "plain_keys (k # v # kv) \<longleftrightarrow> plain (Sprint k) \<and> plain_keys kv"
  by (simp_all add: plain_keys_def)

lemmas plain_names = plain_event_def event_def plain_def special_def dquote_def

lemma logRefreshed_plain: "plain_event (logRefreshed trigger source rs changed tot)"
  by (simp add: logRefreshed_def AllIssuers_def ShortName_def plain_names)

lemma try_logged_plain: "try_logged nm fetch trigger now clk k srcs errs p = (err, p', evs) \<Longrightarrow> list_all plain_event evs"
proof (induction srcs arbitrary: k errs p evs)
  case Nil
  then show ?case by (auto simp: Let_def plain_names)
next
  case (Cons src srcs)
  obtain r latency where f: "fetch k src = (r, latency)" by fastforce
  show ?case
  proof (cases r)
    case (Inl e)
    obtain evs1 where "try_logged nm fetch trigger now clk (Suc k) srcs (errs @ [Wrapf ''%s: %w'' [nm src] e])
        (recordAttempt (nm src) latency (error_of r) p) = (err, p', evs1)"
      and evs: "evs = event ''warn'' ''smt_root_fetch_attempt''
      [AString ''trigger'', AString trigger, AString ''source'', AString (nm src), AString ''ok'', ABool False,
       AString ''latency_ms'', AInt (Milliseconds latency), AString ''err'', AString (err_text e)] # evs1"
      using Cons.prems f Inl by (auto split: prod.splits)
    from Cons.IH [OF this(1)] show ?thesis by (simp add: evs plain_names)
  next
    case (Inr rs)
    with Cons.prems f logRefreshed_plain show ?thesis by (auto simp: Let_def plain_names split: prod.splits)
  qed
qed

text \<open>The line of the event, read back, has the field.\<close>

definition line_says :: "(nat \<Rightarrow> bool) \<Rightarrow> log_event \<Rightarrow> string \<times> string \<Rightarrow> bool" where
  "line_says isPrint e f \<longleftrightarrow>
     (case read_fields (DefaultLogger_Event isPrint e) of None \<Rightarrow> False | Some fs \<Rightarrow> f \<in> set fs)"

lemma line_says_plain:
  "plain_event e \<Longrightarrow> line_says P e f \<longleftrightarrow> f = (''level'', le_level e) \<or> f = (''event'', le_event e) \<or> reports e f"
  by (simp add: line_says_def read_event event_content_def reports_def)

lemma line_says_issuer:
  assumes "plain_event e" "i \<in> set AllIssuers"
  shows "line_says P e (changed_key i, v) \<longleftrightarrow> reports e (changed_key i, v)"
    "line_says P e (ShortName i, v) \<longleftrightarrow> reports e (ShortName i, v)"
  using ShortName_cases [OF assms(2)] by (auto simp: line_says_plain [OF assms(1)] changed_key_def)

lemma refresh_audit:
  assumes "FetchNow_logged nm fetch trigger now clk p = (err, p', evs)" "i \<in> set AllIssuers"
  shows "((\<exists>e \<in> set evs. line_says P e (changed_key i, ''true'')) \<longleftrightarrow> Trusted p' i \<noteq> Trusted p i)
    \<and> ((\<exists>e \<in> set evs. line_says P e (changed_key i, ''true'')
          \<and> (\<exists>r. Trusted p' i = Some r \<and> line_says P e (ShortName i, Hex r))) \<longleftrightarrow> Trusted p' i \<noteq> Trusted p i)"
proof -
  let ?start = "event ''info'' ''smt_root_fetch_start'' [AString ''trigger'', AString trigger]"
  have start: "plain_event ?start" "\<not> reports ?start (changed_key i, v)" for v
    using ShortName_cases [OF assms(2)] by (auto simp: plain_names reports_def changed_key_def)
  show ?thesis
  proof (cases "primary p = None \<and> fallback p = None")
    case True
    with assms(1) show ?thesis by (auto simp: FetchNow_logged_def)
  next
    case False
    then obtain evs1 where t: "try_logged nm fetch trigger now clk 0 (sources_of p) [] p = (err, p', evs1)"
      and evs: "evs = ?start # evs1"
      using assms(1) by (auto simp: FetchNow_logged_def split: prod.splits if_splits)
    have pl: "\<forall>e \<in> set evs. plain_event e" using try_logged_plain [OF t] start(1) by (simp add: evs list_all_iff)
    show ?thesis
    proof (rule try_logged_cases [OF t])
      assume "roots p' = roots p" "\<And>i v. i \<in> set AllIssuers \<Longrightarrow> list_all (\<lambda>e. \<not> reports e (changed_key i, v)) evs1"
      with assms(2) start(2) pl line_says_issuer(1) show ?thesis
        unfolding evs Trusted_def by (auto simp: list_all_iff)
    next
      fix src rs changed p1 ats
      let ?last = "logRefreshed trigger (nm src) rs changed (rc_total clk)"
      assume s: "roots p1 = roots p" "setRoots now rs (nm src) None p1 = (changed, p')" "evs1 = ats @ [?last]"
        and quiet: "\<And>i v. i \<in> set AllIssuers \<Longrightarrow> list_all (\<lambda>e. \<not> reports e (changed_key i, v)) ats"
      have chg: "changed i \<longleftrightarrow> Trusted p' i \<noteq> Trusted p i"
        using setRoots_changed(1) [OF s(2), of i] s(1) by (simp add: Trusted_def)
      have only: "line_says P e (changed_key i, ''true'') \<longleftrightarrow> e = ?last \<and> changed i" if "e \<in> set evs" for e
        using quiet [OF assms(2), of "''true''"] start(2) [of "''true''"] line_says_issuer(1) [OF _ assms(2)] pl that
          logRefreshed_reports(1) [OF assms(2)]
        unfolding evs s(3) by (auto simp: list_all_iff)
      have root: "\<exists>r. Trusted p' i = Some r \<and> line_says P ?last (ShortName i, Hex r)" if "changed i"
        using setRoots_changed(2,3) [OF s(2), of i] that logRefreshed_reports(2) [OF assms(2), of trigger "nm src" rs changed "rc_total clk"]
          line_says_issuer(2) [OF logRefreshed_plain assms(2)] by auto
      have "?last \<in> set evs" by (simp add: evs s(3))
      with only root chg show ?thesis by metis
    qed
  qed
qed

text \<open>When the errors of the sources hold a space, every event is one line.\<close>

definition one_line :: "(nat \<Rightarrow> bool) \<Rightarrow> log_event \<Rightarrow> bool" where
  "one_line isPrint e \<longleftrightarrow> newline \<notin> set (DefaultLogger_Event isPrint e)"

lemma one_line_iff: "fixed_names e \<Longrightarrow> one_line P e \<longleftrightarrow> list_all (\<lambda>(k, v). \<not> breaks_line v) (sprint_pairs (le_kv e))"
  by (auto simp: one_line_def event_newline list_all_iff)

lemma spaced_one_line: "CHR '' '' \<in> set v \<Longrightarrow> \<not> breaks_line v"
  by (auto simp: breaks_line_def list_ex_iff special_def)

lemma plain_one_line: "newline \<notin> set v \<Longrightarrow> \<not> breaks_line v"
  by (simp add: breaks_line_def)

lemma Hex_one_line: "newline \<notin> set (Hex r)"
proof -
  have "c \<noteq> newline" if "c \<in> set (EncodeToString r)" for c
  proof -
    from EncodeToString_chars [OF that] obtain d where "d < 16" "c = digit_char d" by blast
    with of_char_digit_char [of d] show ?thesis by (auto split: if_splits)
  qed
  then show ?thesis by (auto simp: Hex_def)
qed

lemma join_lines_space: "ss \<noteq> [] \<Longrightarrow> \<forall>s \<in> set ss. CHR '' '' \<in> set s \<Longrightarrow> CHR '' '' \<in> set (join_lines ss)"
  by (cases ss rule: join_lines.cases) auto

lemma joined_one_line:
  assumes "\<forall>e \<in> set errs. CHR '' '' \<in> set (err_text e)"
  shows "\<not> breaks_line (case errors_Join (map Some errs) of None \<Rightarrow> [] | Some e \<Rightarrow> err_text e)"
proof -
  have "List.map_filter id (map Some errs) = errs" by (induction errs) (simp_all add: map_filter_simps)
  then show ?thesis
    using join_lines_space [of "map err_text errs"] assms
    by (cases errs) (auto simp: errors_Join_def breaks_line_def intro!: spaced_one_line [unfolded breaks_line_def, simplified])
qed

lemma logRefreshed_one_line:
  assumes "newline \<notin> set trigger" "newline \<notin> set source"
  shows "one_line P (logRefreshed trigger source rs changed tot)"
proof -
  have "fixed_names (logRefreshed trigger source rs changed tot)"
    by (simp add: fixed_names_def logRefreshed_def event_def AllIssuers_def ShortName_def)
  then show ?thesis
    using assms Hex_one_line by (simp add: one_line_iff logRefreshed_pairs plain_one_line)
qed

lemma try_logged_one_line:
  assumes "newline \<notin> set trigger" "\<forall>src. newline \<notin> set (nm src)"
    and "\<And>k src e. fst (fetch k src) = Inl e \<Longrightarrow> CHR '' '' \<in> set (err_text e)"
    and "try_logged nm fetch trigger now clk k srcs errs p = (err, p', evs)"
    and "\<forall>e \<in> set errs. CHR '' '' \<in> set (err_text e)"
  shows "list_all (one_line P) evs"
  using assms(4,5)
proof (induction srcs arbitrary: k errs p evs)
  case Nil
  then show ?case
    using joined_one_line [OF Nil(2)] assms(1)
    by (auto simp: Let_def one_line_iff fixed_names_def event_def plain_one_line)
next
  case (Cons src srcs)
  obtain r latency where f: "fetch k src = (r, latency)" by fastforce
  show ?case
  proof (cases r)
    case (Inl e)
    let ?es = "errs @ [Wrapf ''%s: %w'' [nm src] e]"
    obtain evs1 where t: "try_logged nm fetch trigger now clk (Suc k) srcs ?es
        (recordAttempt (nm src) latency (error_of r) p) = (err, p', evs1)"
      and evs: "evs = event ''warn'' ''smt_root_fetch_attempt''
      [AString ''trigger'', AString trigger, AString ''source'', AString (nm src), AString ''ok'', ABool False,
       AString ''latency_ms'', AInt (Milliseconds latency), AString ''err'', AString (err_text e)] # evs1"
      using Cons.prems(1) f Inl by (auto split: prod.splits)
    have "\<forall>e \<in> set ?es. CHR '' '' \<in> set (err_text e)" using Cons.prems(2) by auto
    moreover have "CHR '' '' \<in> set (err_text e)" using assms(3) [of k src e] f Inl by simp
    ultimately show ?thesis
      using Cons.IH [OF t] assms(1,2)
      by (simp add: evs one_line_iff fixed_names_def event_def plain_one_line spaced_one_line)
  next
    case (Inr rs)
    with Cons.prems(1) f logRefreshed_one_line assms(1,2) show ?thesis
      by (auto simp: Let_def one_line_iff fixed_names_def event_def plain_one_line split: prod.splits)
  qed
qed

lemma refresh_one_line:
  assumes "newline \<notin> set trigger" "\<forall>src. newline \<notin> set (nm src)"
    and "\<And>k src e. fst (fetch k src) = Inl e \<Longrightarrow> CHR '' '' \<in> set (err_text e)"
    and "FetchNow_logged nm fetch trigger now clk p = (err, p', evs)"
  shows "list_all (one_line P) evs"
proof (cases "primary p = None \<and> fallback p = None")
  case True
  with assms(4) show ?thesis by (simp add: FetchNow_logged_def)
next
  case False
  then obtain evs1 where t: "try_logged nm fetch trigger now clk 0 (sources_of p) [] p = (err, p', evs1)"
    and evs: "evs = event ''info'' ''smt_root_fetch_start'' [AString ''trigger'', AString trigger] # evs1"
    using assms(4) by (auto simp: FetchNow_logged_def split: prod.splits if_splits)
  have "one_line P (event ''info'' ''smt_root_fetch_start'' [AString ''trigger'', AString trigger])"
    using assms(1) by (simp add: one_line_iff fixed_names_def event_def plain_one_line)
  moreover have "list_all (one_line P) evs1"
    by (rule try_logged_one_line [OF assms(1) assms(2) assms(3) t]) simp_all
  ultimately show ?thesis by (simp add: evs)
qed

text \<open>C19: A log line says what was logged.  For an event whose level, name and keys are plain words (all of the
  program's are), whatever its values are (spaces, quotes, equals signs, newlines, bytes that are no
  UTF-8) and whatever counts as printable, reading the line gives back level, name and all keys and
  values in order; so two such events print the same line only when they say the same.\<close>

theorem log_line_roundtrip:
  assumes "plain_event e"
  shows "read_line (DefaultLogger_Event isPrint e) = Inr (event_content e)
    \<and> (\<forall>e'. plain_event e' \<longrightarrow> DefaultLogger_Event isPrint e' = DefaultLogger_Event isPrint e \<longrightarrow> event_content e' = event_content e)"
proof -
  have p: "print_line isPrint e' = Inr (DefaultLogger_Event isPrint e')" if "plain_event e'" for e'
    using that by (simp add: print_line_def)
  show ?thesis using log_line.dec_enc [OF p] log_line.enc_determines [OF p] p assms by metis
qed

theorem log_line_roundtrip_witness:
  "read_line (DefaultLogger_Event (\<lambda>_. True) (event ''warn'' ''smt_root_fetch_attempt'' [AString ''err'', AString (''a b='' @ [dquote, CHR 0xFF, newline])]))
     = Inr [(''level'', ''warn''), (''event'', ''smt_root_fetch_attempt''), (''err'', ''a b='' @ [dquote, CHR 0xFF, newline])]"
proof -
  let ?e = "event ''warn'' ''smt_root_fetch_attempt'' [AString ''err'', AString (''a b='' @ [dquote, CHR 0xFF, newline])]"
  have "plain_event ?e" by (simp add: plain_event_def event_def plain_def special_def dquote_def plain_keys_def)
  from conjunct1 [OF log_line_roundtrip [OF this, of "\<lambda>_. True"]] show ?thesis by (simp add: event_content_def event_def)
qed

text \<open>C18: The log of a refresh is a faithful audit trail.  However the sources answer, a trusted root of an
  issuer changes in a refresh of the SMT provider exactly when some line of its log, parsed back, says
  \<open><issuer>_changed=true\<close>; and that line then names the new root.\<close>

theorem smt_log_audits:
  assumes "FetchNow_logged nm fetch trigger now clk p = (err, p', evs)" "i \<in> set AllIssuers"
  shows "((\<exists>e \<in> set evs. line_says isPrint e (changed_key i, ''true'')) \<longleftrightarrow> Trusted p' i \<noteq> Trusted p i)
    \<and> ((\<exists>e \<in> set evs. line_says isPrint e (changed_key i, ''true'')
          \<and> (\<exists>r. Trusted p' i = Some r \<and> line_says isPrint e (ShortName i, Hex r))) \<longleftrightarrow> Trusted p' i \<noteq> Trusted p i)"
  by (rule refresh_audit [OF assms])

definition log_demo :: "string Provider" where
  "log_demo = NewProvider (Some ''a'') (Some ''b'') 0 0"

definition log_demo_fetch :: "nat \<Rightarrow> string \<Rightarrow> (IssuerID \<rightharpoonup> Root) result \<times> duration" where
  "log_demo_fetch k s =
     (if k = 0 then (Inl (External ''down''), 7000000)
      else (Inr [IssuerG2 \<mapsto> replicate 32 1, IssuerG3 \<mapsto> replicate 32 2], 0))"

theorem smt_log_audits_witness:
  "\<exists>p' evs. FetchNow_logged (\<lambda>s. s) log_demo_fetch ''startup'' 5 \<lparr>rc_total = 0, rc_status = 0\<rparr> log_demo = (None, p', evs)
     \<and> length evs = 4 \<and> (\<exists>e \<in> set evs. line_says (\<lambda>_. True) e (changed_key IssuerG2, ''true''))"
proof -
  obtain p' evs where run: "FetchNow_logged (\<lambda>s. s) log_demo_fetch ''startup'' 5 \<lparr>rc_total = 0, rc_status = 0\<rparr> log_demo
      = (None, p', evs)" "length evs = 4" "roots p' = [IssuerG2 \<mapsto> replicate 32 1, IssuerG3 \<mapsto> replicate 32 2]"
    by (simp add: FetchNow_logged_def log_demo_def log_demo_fetch_def NewProvider_def sources_of_def setRoots_def Let_def error_of_def)
  have "Trusted p' IssuerG2 \<noteq> Trusted log_demo IssuerG2" by (simp add: Trusted_def run(3) log_demo_def NewProvider_def)
  with smt_log_audits [OF run(1), of IssuerG2] run(1,2) show ?thesis by auto
qed

end
