(* ===== verification/Verify_Log.thy ===== *)
theory Verify_Log
  imports Link_Verify Smt_Log
begin

text \<open>
  The events that \<open>linkverify/verifier.go\<close> logs: each check against a trust anchor logs its outcome
  under one of two names, at the level \<open>info\<close> for a match and \<open>warn\<close> for a mismatch.  Without its
  events the verifier is \<open>Verifier_Verify\<close>; with them, the warnings of a run are the reasons a proof
  can be rejected for, and the first one is the reason the client is given.
\<close>

subsection \<open>The checks with their events\<close>

definition check_names :: "bool \<Rightarrow> string \<Rightarrow> string \<Rightarrow> string \<times> string" where
  "check_names match ok bad = (if match then (''info'', ok) else (''warn'', bad))"

definition check_event :: "string \<times> string \<Rightarrow> any list \<Rightarrow> log_event" where
  "check_event names kv = (case names of (level, ev) \<Rightarrow> event level ev kv)"

definition checkSmtRoot_logged ::
  "('s Provider \<Rightarrow> 's Provider) \<Rightarrow> time \<Rightarrow> ProofType \<Rightarrow> ParsedInputs \<Rightarrow> 's Provider
    \<Rightarrow> (SmtRootOutcome \<times> log_event) result" where
  "checkSmtRoot_logged later now pt parsed provider =
     (let issuer = issuerForProofType pt in
      case ParseRoot (pi_SmtRoot parsed) of
        Inl e \<Rightarrow> Inl (Wrapf ''parse proof smt_root %q: %w'' [pi_SmtRoot parsed] e)
      | Inr observed \<Rightarrow>
     (case Trusted provider issuer of
        None \<Rightarrow> Inl (Wrapf ''%w: %s'' [LongName issuer] (Sentinel ErrSmtRootUnavailable))
      | Some trusted \<Rightarrow>
          let mt = Provider_Meta now (later provider);
              outcome = \<lparr>sr_Issuer = issuer, sr_IssuerName = ShortName issuer,
                  sr_Match = Root_Equal observed trusted, sr_Expected = Hex trusted,
                  sr_Observed = Hex observed, sr_TrustSource = m_SourceUsed mt,
                  sr_TrustedAt = m_UpdatedAt mt\<rparr>
          in Inr (outcome,
               check_event (check_names (sr_Match outcome) ''smt_root_check'' ''smt_root_mismatch'')
                 [AString ''issuer'', AString (LongName issuer),
                  AString ''expected'', AString (sr_Expected outcome),
                  AString ''observed'', AString (sr_Observed outcome),
                  AString ''match'', ABool (sr_Match outcome),
                  AString ''trust_source'', AString (sr_TrustSource outcome),
                  AString ''cache_age_s'', AInt (m_CacheAgeSeconds mt)])))"

definition checkIssuerModulus_logged ::
  "time \<Rightarrow> ProofType \<Rightarrow> ParsedInputs \<Rightarrow> CertProvider \<Rightarrow> (IssuerModulusOutcome \<times> log_event) result" where
  "checkIssuerModulus_logged now pt parsed provider =
     (let issuer = issuerForProofType pt in
      case TrustedWithMeta now provider issuer of
        (None, mt) \<Rightarrow> Inl (Wrapf ''%w: %s'' [LongName issuer] (Sentinel ErrIssuerCertUnavailable))
      | (Some rec, mt) \<Rightarrow>
          if length (pi_IssuerRSAModulus parsed) \<noteq> length (cr_Limbs rec)
          then Inl (Errorf ''issuer modulus limb count: got %d, want %d for %s''
                 [nat_string 10 (length (pi_IssuerRSAModulus parsed)),
                  nat_string 10 (length (cr_Limbs rec)), LongName issuer])
          else
            let match = LimbsEqual (cr_Limbs rec) (pi_IssuerRSAModulus parsed);
                outcome = \<lparr>im_Issuer = issuer, im_IssuerName = ShortName issuer, im_Match = match,
                    im_ExpectedSHA256 = cr_SHA256Hex rec, im_TrustSource = cr_Source rec,
                    im_TrustedAt = cm_UpdatedAt mt\<rparr>
            in Inr (outcome,
                 check_event (check_names match ''issuer_modulus_check'' ''issuer_modulus_mismatch'')
                   [AString ''issuer'', AString (LongName issuer),
                    AString ''expected_sha256'', AString (im_ExpectedSHA256 outcome),
                    AString ''match'', ABool match,
                    AString ''trust_source'', AString (im_TrustSource outcome),
                    AString ''cache_age_s'', AInt (cm_CacheAgeSeconds mt)]))"

definition checkAppID_logged :: "ParsedInputs \<Rightarrow> string \<Rightarrow> AppIDOutcome \<times> log_event" where
  "checkAppID_logged parsed expected =
     (let match = ConstantTimeCompare (pi_AppID parsed) expected;
          outcome = \<lparr>ao_Match = match, ao_Expected = expected, ao_Observed = pi_AppID parsed\<rparr>
      in (outcome,
          check_event (check_names match ''app_id_check'' ''app_id_mismatch'')
            [AString ''expected'', AString (ao_Expected outcome),
             AString ''observed'', AString (ao_Observed outcome),
             AString ''match'', ABool (ao_Match outcome)]))"

definition CheckChallenge_logged :: "ParsedInputs \<Rightarrow> string \<Rightarrow> ChallengeOutcome \<times> log_event" where
  "CheckChallenge_logged parsed expected =
     (let observed = (case NormalizeDecimal (pi_Challenge parsed) of
                        Inl e \<Rightarrow> pi_Challenge parsed | Inr d \<Rightarrow> d);
          match = ConstantTimeCompare observed expected;
          outcome = \<lparr>co_Match = match, co_Expected = expected, co_Observed = observed\<rparr>
      in (outcome,
          check_event (check_names match ''challenge_check'' ''challenge_mismatch'')
            [AString ''expected'', AString (co_Expected outcome),
             AString ''observed'', AString (co_Observed outcome),
             AString ''match'', ABool (co_Match outcome)]))"

lemma checkSmtRoot_logged_check:
  "map_sum id fst (checkSmtRoot_logged later now pt parsed p) = checkSmtRoot later now pt parsed p"
  by (simp add: checkSmtRoot_logged_def checkSmtRoot_def Let_def split: sum.split option.split)

lemma checkIssuerModulus_logged_check:
  "map_sum id fst (checkIssuerModulus_logged now pt parsed p) = checkIssuerModulus now pt parsed p"
  by (simp add: checkIssuerModulus_logged_def checkIssuerModulus_def Let_def split: prod.split option.split)

lemma checkAppID_logged_check: "fst (checkAppID_logged parsed expected) = checkAppID parsed expected"
  by (simp add: checkAppID_logged_def checkAppID_def Let_def)

lemma CheckChallenge_logged_check: "fst (CheckChallenge_logged parsed expected) = CheckChallenge parsed expected"
  by (simp add: CheckChallenge_logged_def CheckChallenge_def Let_def)

subsection \<open>The verifier with its events\<close>

definition smt_check_logged ::
  "('s Provider \<Rightarrow> 's Provider) \<Rightarrow> time \<Rightarrow> 's Verifier \<Rightarrow> Request \<Rightarrow> ParsedInputs \<Rightarrow> Result
    \<Rightarrow> (Result \<times> log_event list) result" where
  "smt_check_logged later now v req parsed res =
     (case v_SmtRoot v of
        None \<Rightarrow> Inr (res, [])
      | Some p \<Rightarrow>
     (case checkSmtRoot_logged later now (rq_ProofType req) parsed p of
        Inl e \<Rightarrow> Inl e
      | Inr (outcome, ev) \<Rightarrow>
          let res1 = res\<lparr>r_SmtRoot := Some outcome\<rparr>
          in Inr (if \<not> sr_Match outcome
                  then res1\<lparr>r_Verified := False, r_Reason := ReasonSmtRootMismatch\<rparr> else res1, [ev])))"

definition issuer_check_logged ::
  "time \<Rightarrow> 's Verifier \<Rightarrow> Request \<Rightarrow> ParsedInputs \<Rightarrow> Result \<Rightarrow> (Result \<times> log_event list) result" where
  "issuer_check_logged now v req parsed res =
     (case v_IssuerCert v of
        None \<Rightarrow> Inr (res, [])
      | Some p \<Rightarrow>
     (case checkIssuerModulus_logged now (rq_ProofType req) parsed p of
        Inl e \<Rightarrow> Inl e
      | Inr (outcome, ev) \<Rightarrow>
          let res1 = res\<lparr>r_IssuerModulus := Some outcome\<rparr>
          in Inr (if \<not> im_Match outcome \<and> r_Reason res1 = ''''
                  then res1\<lparr>r_Verified := False, r_Reason := ReasonIssuerModulusMismatch\<rparr> else res1, [ev])))"

definition app_id_check_logged :: "'s Verifier \<Rightarrow> ParsedInputs \<Rightarrow> Result \<Rightarrow> Result \<times> log_event list" where
  "app_id_check_logged v parsed res =
     (if v_ExpectedAppID v \<noteq> ''''
      then case checkAppID_logged parsed (v_ExpectedAppID v) of
             (outcome, ev) \<Rightarrow>
               let res1 = res\<lparr>r_AppID := Some outcome\<rparr>
               in (if \<not> ao_Match outcome \<and> r_Reason res1 = ''''
                   then res1\<lparr>r_Verified := False, r_Reason := ReasonAppIDMismatch\<rparr> else res1, [ev])
      else (res, []))"

text \<open>The events logged before an error are kept: an anchor that is missing comes after the checks before it.\<close>

definition Verifier_Verify_logged ::
  "os \<Rightarrow> ffi \<Rightarrow> ('s Provider \<Rightarrow> 's Provider) \<Rightarrow> time \<Rightarrow> 's Verifier \<Rightarrow> Request \<Rightarrow> fs
    \<Rightarrow> Result result \<times> fs \<times> log_event list" where
  "Verifier_Verify_logged osv ff later now v req fs0 =
     (case Verify osv ff req (v_KeysDir v) fs0 of
        (Inl e, fs1) \<Rightarrow> (Inl e, fs1, [])
      | (Inr (ffiVerified, signals), fs1) \<Rightarrow>
          if \<not> ffiVerified then (Inr (new_result False ReasonProofInvalid signals None), fs1, [])
          else
             let certChainType = (if rq_ProofType req = ProofTypeRS4096 then CertChainRS4096 else CertChainRS2048)
             in case ParsePublicInputs signals certChainType of
                  Inl e \<Rightarrow> (Inl (Wrapf ''parse public inputs: %w'' [] e), fs1, [])
                | Inr parsed \<Rightarrow>
               (case smt_check_logged later now v req parsed (new_result True '''' signals (Some parsed)) of
                  Inl e \<Rightarrow> (Inl e, fs1, [])
                | Inr (res1, evs1) \<Rightarrow>
               (case issuer_check_logged now v req parsed res1 of
                  Inl e \<Rightarrow> (Inl e, fs1, evs1)
                | Inr (res2, evs2) \<Rightarrow>
                    (case app_id_check_logged v parsed res2 of
                       (res3, evs3) \<Rightarrow> (Inr res3, fs1, evs1 @ evs2 @ evs3)))))"

lemma smt_check_logged_check: "map_sum id fst (smt_check_logged later now v req parsed res) = smt_check later now v req parsed res"
  unfolding smt_check_logged_def smt_check_def checkSmtRoot_logged_check [symmetric, of later now _ parsed]
  by (simp add: Let_def split: option.split sum.split prod.split)

lemma issuer_check_logged_check: "map_sum id fst (issuer_check_logged now v req parsed res) = issuer_check now v req parsed res"
  unfolding issuer_check_logged_def issuer_check_def checkIssuerModulus_logged_check [symmetric, of now _ parsed]
  by (simp add: Let_def split: option.split sum.split prod.split)

lemma app_id_check_logged_check: "fst (app_id_check_logged v parsed res) = app_id_check v parsed res"
  unfolding app_id_check_logged_def app_id_check_def checkAppID_logged_check [symmetric]
  by (simp add: Let_def split: prod.split)

lemma map_sum_fst: "map_sum id fst x = Inl e \<longleftrightarrow> x = Inl e" "map_sum id fst x = Inr r \<longleftrightarrow> (\<exists>evs. x = Inr (r, evs))"
  by (cases x; auto)+

text \<open>Without its events this is \<open>Verifier_Verify\<close>.\<close>

lemma Verifier_Verify_logged_Verify:
  "(case Verifier_Verify_logged osv ff later now v req fs0 of (r, fs1, evs) \<Rightarrow> (r, fs1))
     = Verifier_Verify osv ff later now v req fs0"
proof -
  obtain r fs1 where V: "Verify osv ff req (v_KeysDir v) fs0 = (r, fs1)" by fastforce
  show ?thesis
  proof (cases "\<exists>signals. r = Inr (True, signals)")
    case False
    then show ?thesis using V
      by (cases r) (auto simp: Verifier_Verify_logged_def Verifier_Verify_def split: prod.split)
  next
    case True
    then obtain signals where r: "r = Inr (True, signals)" by blast
    let ?ty = "if rq_ProofType req = ProofTypeRS4096 then CertChainRS4096 else CertChainRS2048"
    show ?thesis
    proof (cases "ParsePublicInputs signals ?ty")
      case (Inl e)
      then show ?thesis unfolding Verifier_Verify_logged_def Verifier_Verify_def Let_def V r by simp
    next
      case parsed: (Inr parsed)
      let ?res = "new_result True '''' signals (Some parsed)"
      show ?thesis
      proof (cases "smt_check_logged later now v req parsed ?res")
        case (Inl e)
        from Inl smt_check_logged_check [of later now v req parsed ?res]
        have "smt_check later now v req parsed ?res = Inl e" by simp
        with Inl parsed show ?thesis
          unfolding Verifier_Verify_logged_def Verifier_Verify_def Let_def V r by simp
      next
        case (Inr x)
        obtain res1 evs1 where x: "x = (res1, evs1)" by fastforce
        from Inr x smt_check_logged_check [of later now v req parsed ?res]
        have smt: "smt_check_logged later now v req parsed ?res = Inr (res1, evs1)" "smt_check later now v req parsed ?res = Inr res1"
          by simp_all
        show ?thesis
        proof (cases "issuer_check_logged now v req parsed res1")
          case (Inl e)
          from Inl issuer_check_logged_check [of now v req parsed res1]
          have "issuer_check now v req parsed res1 = Inl e" by simp
          with Inl smt parsed show ?thesis
            unfolding Verifier_Verify_logged_def Verifier_Verify_def Let_def V r by simp
        next
          case (Inr y)
          obtain res2 evs2 where y: "y = (res2, evs2)" by fastforce
          obtain res3 evs3 where z: "app_id_check_logged v parsed res2 = (res3, evs3)" by fastforce
          from Inr y issuer_check_logged_check [of now v req parsed res1]
          have "issuer_check now v req parsed res1 = Inr res2" by simp
          with app_id_check_logged_check [of v parsed res2] smt parsed Inr y z show ?thesis
            unfolding Verifier_Verify_logged_def Verifier_Verify_def Let_def V r by simp
        qed
      qed
    qed
  qed
qed

subsection \<open>What the log tells\<close>

definition warning :: "log_event \<Rightarrow> bool" where
  "warning e \<longleftrightarrow> le_level e = ''warn''"

lemma check_event_simps [simp]:
  "le_event (check_event (check_names m ok bad) kv) = (if m then ok else bad)"
  "warning (check_event (check_names m ok bad) kv) \<longleftrightarrow> \<not> m"
  "le_kv (check_event (check_names m ok bad) kv) = kv"
  by (simp_all add: check_event_def check_names_def event_def warning_def)

text \<open>What a check adds to the events and to the result.\<close>

lemma smt_check_logged_Inr:
  assumes "smt_check_logged later now v req parsed res = Inr (res1, evs)"
  obtains m where "map le_event evs = (if v_SmtRoot v = None then [] else [if m then ''smt_root_check'' else ''smt_root_mismatch''])"
    "list_all (\<lambda>e. warning e \<longleftrightarrow> \<not> m) evs" "v_SmtRoot v = None \<longrightarrow> m"
    "r_Reason res1 = (if m then r_Reason res else ReasonSmtRootMismatch)"
    "r_Verified res1 \<longleftrightarrow> r_Verified res \<and> m"
proof (cases "v_SmtRoot v")
  case None
  with assms show ?thesis by (intro that [of True]) (simp_all add: smt_check_logged_def)
next
  case (Some p)
  with assms obtain outcome ev where c: "checkSmtRoot_logged later now (rq_ProofType req) parsed p = Inr (outcome, ev)"
    "evs = [ev]" and r: "res1 = (if \<not> sr_Match outcome
      then res\<lparr>r_SmtRoot := Some outcome, r_Verified := False, r_Reason := ReasonSmtRootMismatch\<rparr>
      else res\<lparr>r_SmtRoot := Some outcome\<rparr>)"
    by (auto simp: smt_check_logged_def Let_def split: sum.splits)
  from c(1) have "le_event ev = (if sr_Match outcome then ''smt_root_check'' else ''smt_root_mismatch'')"
    "warning ev \<longleftrightarrow> \<not> sr_Match outcome"
    by (auto simp: checkSmtRoot_logged_def Let_def split: option.splits sum.splits)
  with Some c(2) r show ?thesis by (intro that [of "sr_Match outcome"]) simp_all
qed

lemma issuer_check_logged_Inr:
  assumes "issuer_check_logged now v req parsed res = Inr (res1, evs)"
  obtains m where "map le_event evs = (if v_IssuerCert v = None then []
      else [if m then ''issuer_modulus_check'' else ''issuer_modulus_mismatch''])"
    "list_all (\<lambda>e. warning e \<longleftrightarrow> \<not> m) evs" "v_IssuerCert v = None \<longrightarrow> m"
    "r_Reason res1 = (if r_Reason res = '''' \<and> \<not> m then ReasonIssuerModulusMismatch else r_Reason res)"
    "r_Verified res1 \<longleftrightarrow> r_Verified res \<and> \<not> (r_Reason res = '''' \<and> \<not> m)"
proof (cases "v_IssuerCert v")
  case None
  with assms show ?thesis by (intro that [of True]) (simp_all add: issuer_check_logged_def)
next
  case (Some p)
  with assms obtain outcome ev where c: "checkIssuerModulus_logged now (rq_ProofType req) parsed p = Inr (outcome, ev)"
    "evs = [ev]" and r: "res1 = (if \<not> im_Match outcome \<and> r_Reason res = ''''
      then res\<lparr>r_IssuerModulus := Some outcome, r_Verified := False, r_Reason := ReasonIssuerModulusMismatch\<rparr>
      else res\<lparr>r_IssuerModulus := Some outcome\<rparr>)"
    by (auto simp: issuer_check_logged_def Let_def split: sum.splits)
  from c(1) have "le_event ev = (if im_Match outcome then ''issuer_modulus_check'' else ''issuer_modulus_mismatch'')"
    "warning ev \<longleftrightarrow> \<not> im_Match outcome"
    by (auto simp: checkIssuerModulus_logged_def Let_def split: option.splits prod.splits if_splits)
  with Some c(2) r show ?thesis by (intro that [of "im_Match outcome"]) simp_all
qed

lemma app_id_check_logged_eq:
  assumes "app_id_check_logged v parsed res = (res1, evs)"
  obtains m where "map le_event evs = (if v_ExpectedAppID v = '''' then [] else [if m then ''app_id_check'' else ''app_id_mismatch''])"
    "list_all (\<lambda>e. warning e \<longleftrightarrow> \<not> m) evs" "v_ExpectedAppID v = '''' \<longrightarrow> m"
    "r_Reason res1 = (if r_Reason res = '''' \<and> \<not> m then ReasonAppIDMismatch else r_Reason res)"
    "r_Verified res1 \<longleftrightarrow> r_Verified res \<and> \<not> (r_Reason res = '''' \<and> \<not> m)"
proof (cases "v_ExpectedAppID v = ''''")
  case True
  with assms show ?thesis by (intro that [of True]) (simp_all add: app_id_check_logged_def)
next
  case False
  let ?m = "pi_AppID parsed = v_ExpectedAppID v"
  from False assms show ?thesis
    by (intro that [of ?m]) (auto simp: app_id_check_logged_def checkAppID_logged_def ConstantTimeCompare_def Let_def split: if_splits)
qed

text \<open>The first warning among the events, as a reason.\<close>

definition first_warning :: "log_event list \<Rightarrow> string" where
  "first_warning evs = (case filter warning evs of [] \<Rightarrow> '''' | e # _ \<Rightarrow> le_event e)"

lemma first_warning_append:
  "first_warning (as @ bs) = (if filter warning as = [] then first_warning bs else first_warning as)"
  by (cases "filter warning as") (simp_all add: first_warning_def)

lemma Verifier_Verify_logged_Inr:
  assumes "Verifier_Verify_logged osv ff later now v req fs0 = (Inr res, fs1, evs)"
  obtains (invalid) sg where "res = new_result False ReasonProofInvalid sg None" "evs = []"
  | (checked) parsed sg res1 res2 evs1 evs2 evs3 where
      "smt_check_logged later now v req parsed (new_result True '''' sg (Some parsed)) = Inr (res1, evs1)"
      "issuer_check_logged now v req parsed res1 = Inr (res2, evs2)"
      "app_id_check_logged v parsed res2 = (res, evs3)" "evs = evs1 @ evs2 @ evs3"
      "r_Parsed res = Some parsed"
proof -
  obtain r fs2 where V: "Verify osv ff req (v_KeysDir v) fs0 = (r, fs2)" by fastforce
  obtain ok sg where r: "r = Inr (ok, sg)"
    using assms V by (cases r) (auto simp: Verifier_Verify_logged_def)
  show ?thesis
  proof (cases ok)
    case False
    with assms V r show ?thesis by (intro invalid [of sg]) (simp_all add: Verifier_Verify_logged_def)
  next
    case True
    from assms V r True obtain parsed x y where
      p: "smt_check_logged later now v req parsed (new_result True '''' sg (Some parsed)) = Inr x"
        "issuer_check_logged now v req parsed (fst x) = Inr y"
        "app_id_check_logged v parsed (fst y) = (res, drop (length (snd x) + length (snd y)) evs)"
        "evs = snd x @ snd y @ drop (length (snd x) + length (snd y)) evs"
      by (auto simp: Verifier_Verify_logged_def Let_def split: sum.splits prod.splits)
    obtain res1 evs1 res2 evs2 where xy: "x = (res1, evs1)" "y = (res2, evs2)" by fastforce
    have k: "r_Parsed res1 = Some parsed" "r_Parsed res2 = r_Parsed res1" "r_Parsed res = r_Parsed res2"
      using p xy
      by (auto simp: smt_check_logged_def issuer_check_logged_def app_id_check_logged_def new_result_def Let_def
          split: option.splits sum.splits if_splits prod.splits)
    show ?thesis using p k unfolding xy by (intro checked) simp_all
  qed
qed

text \<open>Whether a check that gives at most one event warned.\<close>

lemma filter_warning_all: "list_all (\<lambda>e. warning e \<longleftrightarrow> b) evs \<Longrightarrow> filter warning evs = (if b then evs else [])"
  by (induction evs) auto

lemma first_warning_one:
  assumes "list_all (\<lambda>e. warning e \<longleftrightarrow> \<not> m) evs" "map le_event evs = (if off then [] else [if m then ok else bad])"
    "off \<longrightarrow> m"
  shows "first_warning evs = (if m then '''' else bad)" "filter warning evs = [] \<longleftrightarrow> m" "length evs = (if off then 0 else 1)"
proof -
  note f = filter_warning_all [OF assms(1)]
  have "m \<or> evs \<noteq> []" using assms(2,3) by (cases off) auto
  then show "filter warning evs = [] \<longleftrightarrow> m" unfolding f by auto
  show "first_warning evs = (if m then '''' else bad)"
    unfolding first_warning_def f using assms(2,3) by (cases evs; cases off; cases m) auto
  show "length evs = (if off then 0 else 1)" using arg_cong [OF assms(2), of length] by simp
qed

lemma reasons_nonempty [simp]:
  "ReasonSmtRootMismatch \<noteq> ''''" "ReasonIssuerModulusMismatch \<noteq> ''''" "ReasonAppIDMismatch \<noteq> ''''"
  by (simp_all add: reason_defs)

lemma new_result_fields: "r_Reason (new_result b s sg p) = s" "r_Verified (new_result b s sg p) = b"
  by (simp_all add: new_result_def)

lemma checked_log:
  assumes "smt_check_logged later now v req parsed (new_result True '''' sg (Some parsed)) = Inr (res1, evs1)"
    and "issuer_check_logged now v req parsed res1 = Inr (res2, evs2)"
    and "app_id_check_logged v parsed res2 = (res, evs3)"
  shows "r_Reason res = first_warning (evs1 @ evs2 @ evs3)
    \<and> (r_Verified res \<longleftrightarrow> filter warning (evs1 @ evs2 @ evs3) = [])
    \<and> length (evs1 @ evs2 @ evs3)
        = (if v_SmtRoot v = None then 0 else 1) + (if v_IssuerCert v = None then 0 else 1)
          + (if v_ExpectedAppID v = '''' then 0 else 1)"
proof -
  obtain m1 where s: "map le_event evs1 = (if v_SmtRoot v = None then [] else [if m1 then ''smt_root_check'' else ''smt_root_mismatch''])"
    "list_all (\<lambda>e. warning e \<longleftrightarrow> \<not> m1) evs1" "v_SmtRoot v = None \<longrightarrow> m1"
    "r_Reason res1 = (if m1 then '''' else ReasonSmtRootMismatch)" "r_Verified res1 \<longleftrightarrow> True \<and> m1"
    by (rule smt_check_logged_Inr [OF assms(1), unfolded new_result_fields])
  obtain m2 where i: "map le_event evs2 = (if v_IssuerCert v = None then [] else [if m2 then ''issuer_modulus_check'' else ''issuer_modulus_mismatch''])"
    "list_all (\<lambda>e. warning e \<longleftrightarrow> \<not> m2) evs2" "v_IssuerCert v = None \<longrightarrow> m2"
    "r_Reason res2 = (if r_Reason res1 = '''' \<and> \<not> m2 then ReasonIssuerModulusMismatch else r_Reason res1)"
    "r_Verified res2 \<longleftrightarrow> r_Verified res1 \<and> \<not> (r_Reason res1 = '''' \<and> \<not> m2)"
    by (rule issuer_check_logged_Inr [OF assms(2)])
  obtain m3 where a: "map le_event evs3 = (if v_ExpectedAppID v = '''' then [] else [if m3 then ''app_id_check'' else ''app_id_mismatch''])"
    "list_all (\<lambda>e. warning e \<longleftrightarrow> \<not> m3) evs3" "v_ExpectedAppID v = '''' \<longrightarrow> m3"
    "r_Reason res = (if r_Reason res2 = '''' \<and> \<not> m3 then ReasonAppIDMismatch else r_Reason res2)"
    "r_Verified res \<longleftrightarrow> r_Verified res2 \<and> \<not> (r_Reason res2 = '''' \<and> \<not> m3)"
    by (rule app_id_check_logged_eq [OF assms(3)])
  note fs = first_warning_one [OF s(2) s(1) s(3)] first_warning_one [OF i(2) i(1) i(3)] first_warning_one [OF a(2) a(1) a(3)]
  have "r_Reason res = first_warning (evs1 @ evs2 @ evs3)"
    unfolding first_warning_append fs a(4) i(4) s(4) by (cases m1; cases m2; cases m3) (simp_all add: reason_defs)
  moreover have "r_Verified res \<longleftrightarrow> filter warning (evs1 @ evs2 @ evs3) = []"
    unfolding filter_append append_is_Nil_conv fs a(5) i(4,5) s(4,5) by (cases m1; cases m2; cases m3) simp_all
  moreover have "length (evs1 @ evs2 @ evs3)
        = (if v_SmtRoot v = None then 0 else 1) + (if v_IssuerCert v = None then 0 else 1)
          + (if v_ExpectedAppID v = '''' then 0 else 1)"
    unfolding length_append fs by simp
  ultimately show ?thesis by blast
qed

subsection \<open>Properties\<close>

text \<open>C17: The log explains every verdict.  When the verifier returns a result for a proof the Rust library
  accepted, it has logged one event per configured check, the reason given to the client is the name
  of the first warning among them (none for an empty reason), and the proof is verified exactly when
  there is no warning; a proof the library rejects logs nothing.\<close>

theorem verify_log_reasons:
  assumes "Verifier_Verify_logged osv ff later now v req fs0 = (Inr res, fs1, evs)"
  shows "if r_Parsed res = None then evs = [] \<and> r_Reason res = ReasonProofInvalid \<and> \<not> r_Verified res
    else r_Reason res = first_warning evs
      \<and> (r_Verified res \<longleftrightarrow> filter warning evs = [])
      \<and> length evs = (if v_SmtRoot v = None then 0 else 1) + (if v_IssuerCert v = None then 0 else 1)
          + (if v_ExpectedAppID v = '''' then 0 else 1)"
  using assms
proof (cases rule: Verifier_Verify_logged_Inr)
  case (invalid sg)
  then show ?thesis by (simp add: new_result_def)
next
  case (checked parsed sg res1 res2 evs1 evs2 evs3)
  from checked_log [OF checked(1-3)] checked(4,5) show ?thesis by simp
qed

theorem verify_log_reasons_witness:
  "\<exists>res fs1 evs. Verifier_Verify_logged demo_os (demo_ffi 1 zero_limbs) (\<lambda>p. p) 0 mismatch_verifier demo_request Map.empty
      = (Inr res, fs1, evs) \<and> \<not> r_Verified res \<and> length evs = 2 \<and> first_warning evs = ''smt_root_mismatch''"
proof -
  obtain r fs1 where r: "Verifier_Verify demo_os (demo_ffi 1 zero_limbs) (\<lambda>p. p) 0 mismatch_verifier demo_request Map.empty = (Inr r, fs1)"
    by (rule mismatch_run)
  then obtain evs where run: "Verifier_Verify_logged demo_os (demo_ffi 1 zero_limbs) (\<lambda>p. p) 0 mismatch_verifier demo_request Map.empty
      = (Inr r, fs1, evs)"
    unfolding Verifier_Verify_logged_Verify [symmetric] by (auto split: prod.splits)
  from Verifier_Verify_Inr [OF r] demo_Verify [of zero_limbs "''keys''" Map.empty] demo_parses [OF zero_limbs_length] mismatch_not_ok
  have "r_Parsed r \<noteq> None" "\<not> r_Verified r" "r_Reason r = ReasonSmtRootMismatch"
    by (auto simp: mismatch_verifier_fields demo_cert_chain_type)
  with verify_log_reasons [OF run] run show ?thesis
    by (simp add: mismatch_verifier_fields ReasonSmtRootMismatch_def)
qed

lemma torn_app_id: "\<exists>packed id. UnpackAppID packed = Inr id \<and> breaks_line id"
proof -
  let ?b = "10 # replicate 30 (65 :: byte)"
  have "length ?b = AppIDLen" by (simp add: AppIDLen_def)
  from PackAppIDLE_eq [OF this] app_id.dec_enc have "\<exists>p. UnpackAppID p = Inr (string_of_bytes ?b)" by blast
  moreover have c: "char_of_byte 10 = newline" "char_of_byte 65 = CHR ''A''"
    using char_of_byte_of_char [of newline] char_of_byte_of_char [of "CHR ''A''"]
    by (simp_all add: byte_of_char_def del: char_of_byte_of_char)
  moreover have "newline \<in> set (string_of_bytes ?b)" by (simp add: string_of_bytes_def c)
  moreover have "\<not> list_ex special (string_of_bytes ?b)"
    by (simp add: string_of_bytes_def c special_def dquote_def list_ex_iff)
  ultimately show ?thesis unfolding breaks_line_def by blast
qed

text \<open>The one value a client can break a log line of a check with.  \<open>quoteIfNeeded\<close> does not look for
  newlines, and the application id of a proof is any 31 bytes: the line of the application id check is
  torn exactly when that id, or the configured one, holds a newline and none of the characters that
  cause quoting; every other field of the line is fixed.  There are such ids.\<close>

theorem app_id_tears_log_line:
  "(newline \<in> set (DefaultLogger_Event isPrint (snd (checkAppID_logged parsed expected)))
      \<longleftrightarrow> breaks_line (pi_AppID parsed) \<or> breaks_line expected)
   \<and> (\<exists>packed id. UnpackAppID packed = Inr id \<and> breaks_line id)"
proof -
  have f: "fixed_names (snd (checkAppID_logged parsed expected))"
    by (simp add: checkAppID_logged_def check_event_def check_names_def event_def fixed_names_def Let_def)
  have v: "sprint_pairs (le_kv (snd (checkAppID_logged parsed expected)))
      = [(''expected'', expected), (''observed'', pi_AppID parsed),
         (''match'', if ConstantTimeCompare (pi_AppID parsed) expected then ''true'' else ''false'')]"
    by (simp add: checkAppID_logged_def Let_def)
  show ?thesis unfolding event_newline [OF f] v using torn_app_id by (auto simp: breaks_line_def)
qed

end
