(* ===== verification/Cert_Log.thy ===== *)
theory Cert_Log
  imports Issuer_Provider Smt_Log
begin

text \<open>
  The events that \<open>FetchNow\<close> of \<open>issuercert/refresh.go\<close> logs: every goroutine logs at its end what it
  did, and the goroutines' steps on the cache and on the log interleave.  Without its events the
  refresh is \<open>FetchNow_cert\<close>; with them, the log names every certificate that is installed, under
  every schedule.
\<close>

subsection \<open>A goroutine with its events\<close>

datatype cert_effect = Act cert_action | Emit log_event

definition fetchOne_logged ::
  "crypto \<Rightarrow> embedded \<Rightarrow> string \<Rightarrow> cert_fetch \<Rightarrow> IssuerID \<Rightarrow> httpSource \<Rightarrow> err option \<times> cert_effect list" where
  "fetchOne_logged cr emb trigger f i src =
     (let attempt = (\<lambda>err. Act (RecordAttempt (cf_record f) (httpSource_Name src) (cf_latency f) err)) in
      case cf_der f of
        Inl e \<Rightarrow>
          (Some e,
           [attempt (Some e),
            Emit (event ''warn'' ''issuer_cert_fetch_attempt''
              [AString ''trigger'', AString trigger, AString ''source'', AString (httpSource_Name src),
               AString ''ok'', ABool False, AString ''latency_ms'', AInt (Milliseconds (cf_latency f)),
               AString ''err'', AString (err_text e)])])
      | Inr der \<Rightarrow>
          if i \<noteq> IssuerG2 \<and> i \<noteq> IssuerG3
          then (let e = Errorf ''no pinned fingerprint for issuer %d'' [Int_String i] in (Some e, [attempt (Some e)]))
          else
            let expected = (if i = IssuerG2 then pinnedMoicaG2SHA256 else pinnedMoicaG3SHA256)
            in (case GRCARootFor cr emb i of
                  Inl e \<Rightarrow> (Some e, [attempt (Some e)])
                | Inr parent \<Rightarrow>
               (case parseAndValidate cr der expected parent i ''https'' (cf_validate f) of
                  Inl e \<Rightarrow>
                    (Some e,
                     [attempt (Some e),
                      Emit (event ''error'' ''issuer_cert_validation_failed''
                        [AString ''trigger'', AString trigger, AString ''source'', AString (httpSource_Name src),
                         AString ''issuer'', AString (LongName i), AString ''err'', AString (err_text e)])])
                | Inr rec \<Rightarrow>
                    (None,
                     [Act (SetCert (cf_set f) i rec), attempt None,
                      Emit (event ''info'' ''issuer_cert_refreshed''
                        [AString ''trigger'', AString trigger, AString ''source'', AString (httpSource_Name src),
                         AString ''issuer'', AString (LongName i), AString ''sha256'', AString (Hex (cr_SHA256 rec)),
                         AString ''not_after'', AString (format_rfc3339 (NotAfter (cr_Parsed rec))),
                         AString ''latency_ms'', AInt (Milliseconds (cf_latency f))])]))))"

fun act_of :: "cert_effect \<Rightarrow> cert_action option" where
  "act_of (Act a) = Some a"
| "act_of (Emit e) = None"

fun event_of :: "cert_effect \<Rightarrow> log_event option" where
  "event_of (Act a) = None"
| "event_of (Emit e) = Some e"

definition FetchNow_cert_logged ::
  "crypto \<Rightarrow> embedded \<Rightarrow> string \<Rightarrow> (IssuerID \<Rightarrow> cert_fetch) \<Rightarrow> IssuerID list \<Rightarrow> nat list
    \<Rightarrow> CertProvider \<Rightarrow> err option \<times> CertProvider \<times> log_event list" where
  "FetchNow_cert_logged cr emb trigger f ids picks p =
     (if ids = [] then (Some (Sentinel ErrNoSources), p, [])
      else
        let runs = List.map_filter (\<lambda>i. map_option (\<lambda>src. (src, fetchOne_logged cr emb trigger (f i) i src)) (cp_sources p i)) ids;
            errs = List.map_filter (\<lambda>(src, e, as). map_option (\<lambda>er. Wrapf ''%s: %w'' [httpSource_Name src] er) e) runs;
            effects = interleave picks (map (\<lambda>(src, e, as). as) runs)
        in (if 0 < length errs then Some (Joined errs) else None,
            fold apply_action (List.map_filter act_of effects) p,
            event ''info'' ''issuer_cert_fetch_start'' [AString ''trigger'', AString trigger]
              # List.map_filter event_of effects))"

subsection \<open>Without its events\<close>

lemma map_filter_append: "List.map_filter f (xs @ ys) = List.map_filter f xs @ List.map_filter f ys"
  by (induction xs) (auto simp: map_filter_simps split: option.splits)

lemma map_filter_concat: "List.map_filter f (concat xss) = concat (map (List.map_filter f) xss)"
  by (induction xss) (simp_all add: map_filter_append map_filter_simps)

lemma map_filter_map: "List.map_filter (\<lambda>x. map_option g (f x)) xs = map g (List.map_filter f xs)"
  by (induction xs) (auto simp: map_filter_simps split: option.splits)

text \<open>The branches of a goroutine, each with what the two versions do.\<close>

lemma fetchOne_branches:
  obtains (failed) e evs where "fetchOne cr emb f i src
      = (Some e, [RecordAttempt (cf_record f) (httpSource_Name src) (cf_latency f) (Some e)])"
    "fetchOne_logged cr emb trigger f i src
      = (Some e, Act (RecordAttempt (cf_record f) (httpSource_Name src) (cf_latency f) (Some e)) # map Emit evs)"
    "list_all (\<lambda>ev. plain_event ev \<and> le_event ev \<noteq> ''issuer_cert_refreshed''
        \<and> list_all (\<lambda>(k, v). k \<noteq> ''event'') (sprint_pairs (le_kv ev))) evs"
  | (refreshed) rec where "trusted_cert cr emb i rec" "fetchOne cr emb f i src
      = (None, [SetCert (cf_set f) i rec, RecordAttempt (cf_record f) (httpSource_Name src) (cf_latency f) None])"
    "fetchOne_logged cr emb trigger f i src
      = (None, [Act (SetCert (cf_set f) i rec), Act (RecordAttempt (cf_record f) (httpSource_Name src) (cf_latency f) None),
            Emit (event ''info'' ''issuer_cert_refreshed''
              [AString ''trigger'', AString trigger, AString ''source'', AString (httpSource_Name src),
               AString ''issuer'', AString (LongName i), AString ''sha256'', AString (Hex (cr_SHA256 rec)),
               AString ''not_after'', AString (format_rfc3339 (NotAfter (cr_Parsed rec))),
               AString ''latency_ms'', AInt (Milliseconds (cf_latency f))])])"
proof (cases "cf_der f")
  case (Inl e)
  show ?thesis
    by (rule failed [of e "[event ''warn'' ''issuer_cert_fetch_attempt''
              [AString ''trigger'', AString trigger, AString ''source'', AString (httpSource_Name src),
               AString ''ok'', ABool False, AString ''latency_ms'', AInt (Milliseconds (cf_latency f)),
               AString ''err'', AString (err_text e)]]"])
      (simp_all add: fetchOne_def fetchOne_logged_def Inl plain_names Let_def)
next
  case der: (Inr der)
  let ?sha = "if i = IssuerG2 then pinnedMoicaG2SHA256 else pinnedMoicaG3SHA256"
  show ?thesis
  proof (cases "i \<noteq> IssuerG2 \<and> i \<noteq> IssuerG3")
    case True
    show ?thesis
      by (rule failed [of "Errorf ''no pinned fingerprint for issuer %d'' [Int_String i]" "[]"])
        (simp_all add: fetchOne_def fetchOne_logged_def der True Let_def)
  next
    case known: False
    then have k: "(i \<noteq> IssuerG2 \<and> i \<noteq> IssuerG3) = False" by blast
    show ?thesis
    proof (cases "GRCARootFor cr emb i")
      case (Inl e)
      show ?thesis
        by (rule failed [of e "[]"]) (simp_all only: fetchOne_def fetchOne_logged_def der k Inl Let_def sum.case if_False list.map list.pred_inject)
    next
      case parent: (Inr parent)
      show ?thesis
      proof (cases "parseAndValidate cr der ?sha parent i ''https'' (cf_validate f)")
        case (Inl e)
        show ?thesis
          by (rule failed [of e "[event ''error'' ''issuer_cert_validation_failed''
                        [AString ''trigger'', AString trigger, AString ''source'', AString (httpSource_Name src),
                         AString ''issuer'', AString (LongName i), AString ''err'', AString (err_text e)]]"])
            (simp_all only: fetchOne_def fetchOne_logged_def der k parent Inl Let_def sum.case if_False list.map,
             simp add: plain_names)
      next
        case (Inr rec)
        have "trusted_cert cr emb i rec"
          using parseAndValidate_Inr [OF Inr] known parent by (auto simp: trusted_cert_def pinnedMoica_def)
        then show ?thesis
          by (rule refreshed)
            (simp_all only: fetchOne_def fetchOne_logged_def der k parent Inr Let_def sum.case if_False)
      qed
    qed
  qed
qed

lemma map_filter_Emit [simp]: "List.map_filter act_of (map Emit evs) = []" "List.map_filter event_of (map Emit evs) = evs"
  by (induction evs) (simp_all add: map_filter_simps)

lemma map_filter_of_map: "List.map_filter f (map g xs) = List.map_filter (\<lambda>x. f (g x)) xs"
  by (induction xs) (auto simp: map_filter_simps split: option.splits)

lemma fetchOne_logged_fetchOne:
  "fst (fetchOne_logged cr emb trigger f i src) = fst (fetchOne cr emb f i src)"
  "List.map_filter act_of (snd (fetchOne_logged cr emb trigger f i src)) = snd (fetchOne cr emb f i src)"
  by (rule fetchOne_branches [of cr emb f i src trigger]; simp add: map_filter_simps)+

text \<open>Dropping the events of a schedule leaves a schedule of what remains.\<close>

lemma interleave_map_filter:
  "\<exists>ks'. List.map_filter g (interleave ks ths) = interleave ks' (map (List.map_filter g) ths)"
proof (induction ks ths rule: interleave.induct)
  case (1 ths)
  have "List.map_filter g (interleave [] ths) = interleave [] (map (List.map_filter g) ths)"
    by (simp add: map_filter_concat)
  then show ?case by blast
next
  case (2 k ks ths)
  show ?case
  proof (cases "k < length ths \<and> ths ! k \<noteq> []")
    case True
    then obtain x xs where x: "ths ! k = x # xs" by (cases "ths ! k") auto
    let ?rest = "(map (List.map_filter g) ths)[k := List.map_filter g xs]"
    have step: "interleave (k # ks) ths = x # interleave ks (ths[k := xs])"
      by (simp only: interleave.simps True x if_True list.sel simp_thms list.distinct)
    from 2(1) [OF True, unfolded x list.sel map_update] obtain ks' where
      ks': "List.map_filter g (interleave ks (ths[k := xs])) = interleave ks' ?rest"
      by blast
    show ?thesis
    proof (cases "g x")
      case None
      then have "List.map_filter g xs = List.map_filter g (ths ! k)" by (simp add: x map_filter_simps)
      then have "?rest = map (List.map_filter g) ths" by (simp add: map_update [symmetric])
      with ks' None show ?thesis
        unfolding step by (intro exI [of _ ks']) (simp add: map_filter_simps del: interleave.simps)
    next
      case (Some y)
      have "interleave (k # ks') (map (List.map_filter g) ths) = y # interleave ks' ?rest"
        using True x Some by (simp add: map_filter_simps)
      with ks' Some show ?thesis
        unfolding step by (intro exI [of _ "k # ks'"]) (simp add: map_filter_simps del: interleave.simps)
    qed
  next
    case False
    then have "interleave (k # ks) ths = interleave ks ths" by (simp only: interleave.simps if_False)
    with 2(2) [OF False] show ?thesis by (simp only:)
  qed
qed

definition logged_runs ::
  "crypto \<Rightarrow> embedded \<Rightarrow> string \<Rightarrow> (IssuerID \<Rightarrow> cert_fetch) \<Rightarrow> IssuerID list \<Rightarrow> CertProvider
    \<Rightarrow> (httpSource \<times> err option \<times> cert_effect list) list" where
  "logged_runs cr emb trigger f ids p =
     List.map_filter (\<lambda>i. map_option (\<lambda>src. (src, fetchOne_logged cr emb trigger (f i) i src)) (cp_sources p i)) ids"

lemma set_logged_runs:
  "x \<in> set (logged_runs cr emb trigger f ids p) \<longleftrightarrow>
     (\<exists>i \<in> set ids. \<exists>src. cp_sources p i = Some src \<and> x = (src, fetchOne_logged cr emb trigger (f i) i src))"
  by (auto simp: logged_runs_def map_filter_set)

lemma FetchNow_cert_logged_runs:
  assumes "ids \<noteq> []"
  shows "FetchNow_cert_logged cr emb trigger f ids picks p =
    (let errs = List.map_filter (\<lambda>x. map_option (\<lambda>er. Wrapf ''%s: %w'' [httpSource_Name (fst x)] er) (fst (snd x)))
                  (logged_runs cr emb trigger f ids p);
         effects = interleave picks (map (snd \<circ> snd) (logged_runs cr emb trigger f ids p))
     in (if 0 < length errs then Some (Joined errs) else None,
         fold apply_action (List.map_filter act_of effects) p,
         event ''info'' ''issuer_cert_fetch_start'' [AString ''trigger'', AString trigger]
           # List.map_filter event_of effects))"
  using assms by (simp add: FetchNow_cert_logged_def Let_def logged_runs_def case_prod_unfold comp_def)

lemma logged_runs_runs:
  "map (\<lambda>x. (fst x, fst (snd x), List.map_filter act_of (snd (snd x)))) (logged_runs cr emb trigger f ids p)
     = cert_runs cr emb f ids p"
  unfolding logged_runs_def cert_runs_def
  by (simp add: map_filter_map [symmetric] option.map_comp comp_def fetchOne_logged_fetchOne)

lemma logged_acts:
  obtains ks where "List.map_filter act_of (interleave picks (map (snd \<circ> snd) (logged_runs cr emb trigger f ids p)))
      = interleave ks (map (snd \<circ> snd) (cert_runs cr emb f ids p))"
proof -
  obtain ks where "List.map_filter act_of (interleave picks (map (snd \<circ> snd) (logged_runs cr emb trigger f ids p)))
      = interleave ks (map (List.map_filter act_of) (map (snd \<circ> snd) (logged_runs cr emb trigger f ids p)))"
    using interleave_map_filter by blast
  moreover have "map (List.map_filter act_of) (map (snd \<circ> snd) (logged_runs cr emb trigger f ids p))
      = map (snd \<circ> snd) (cert_runs cr emb f ids p)"
    unfolding logged_runs_runs [symmetric, of cr emb f ids p trigger] by simp
  ultimately show ?thesis using that by simp
qed

text \<open>A refresh with its events is a refresh, under a schedule of the steps that touch the cache.\<close>

lemma FetchNow_cert_logged_FetchNow_cert:
  assumes "FetchNow_cert_logged cr emb trigger f ids picks p = (err, p', evs)"
  shows "\<exists>ks. FetchNow_cert cr emb f ids ks p = (err, p')"
proof (cases "ids = []")
  case True
  with assms show ?thesis by (simp add: FetchNow_cert_logged_def FetchNow_cert_def)
next
  case False
  obtain ks where ks: "List.map_filter act_of (interleave picks (map (snd \<circ> snd) (logged_runs cr emb trigger f ids p)))
      = interleave ks (map (snd \<circ> snd) (cert_runs cr emb f ids p))"
    by (rule logged_acts)
  have errs: "List.map_filter (\<lambda>x. map_option (\<lambda>er. Wrapf ''%s: %w'' [httpSource_Name (fst x)] er) (fst (snd x))) (cert_runs cr emb f ids p)
      = List.map_filter (\<lambda>x. map_option (\<lambda>er. Wrapf ''%s: %w'' [httpSource_Name (fst x)] er) (fst (snd x))) (logged_runs cr emb trigger f ids p)"
    unfolding logged_runs_runs [symmetric, of cr emb f ids p trigger] by (simp add: map_filter_of_map)
  have "FetchNow_cert cr emb f ids ks p = (err, p')"
    using assms unfolding FetchNow_cert_logged_runs [OF False] FetchNow_cert_runs [OF False] errs ks [symmetric]
    by (simp add: Let_def)
  then show ?thesis ..
qed

subsection \<open>What the log tells\<close>

lemma logged_effects:
  "x \<in> set (interleave picks (map (snd \<circ> snd) (logged_runs cr emb trigger f ids p))) \<longleftrightarrow>
     (\<exists>i \<in> set ids. \<exists>src. cp_sources p i = Some src \<and> x \<in> set (snd (fetchOne_logged cr emb trigger (f i) i src)))"
proof -
  have "x \<in> set (interleave picks (map (snd \<circ> snd) (logged_runs cr emb trigger f ids p))) \<longleftrightarrow>
      (\<exists>r \<in> set (logged_runs cr emb trigger f ids p). x \<in> set (snd (snd r)))"
    by (simp add: set_interleave)
  also have "\<dots> \<longleftrightarrow> (\<exists>i \<in> set ids. \<exists>src. cp_sources p i = Some src
      \<and> x \<in> set (snd (snd (src, fetchOne_logged cr emb trigger (f i) i src))))"
    unfolding Bex_def set_logged_runs by blast
  finally show ?thesis by simp
qed

lemma act_of_Some: "act_of x = Some a \<longleftrightarrow> x = Act a" and event_of_Some: "event_of x = Some e \<longleftrightarrow> x = Emit e"
  by (cases x; auto)+

lemma logged_event_iff:
  "e \<in> set (List.map_filter event_of (interleave picks (map (snd \<circ> snd) (logged_runs cr emb trigger f ids p)))) \<longleftrightarrow>
     (\<exists>i \<in> set ids. \<exists>src. cp_sources p i = Some src \<and> Emit e \<in> set (snd (fetchOne_logged cr emb trigger (f i) i src)))"
  unfolding map_filter_set event_of_Some by (simp add: logged_effects)

lemma logged_SetCert_iff:
  "SetCert t i v \<in> set (List.map_filter act_of (interleave picks (map (snd \<circ> snd) (logged_runs cr emb trigger f ids p)))) \<longleftrightarrow>
     i \<in> set ids \<and> (\<exists>src. cp_sources p i = Some src \<and> SetCert t i v \<in> set (snd (fetchOne cr emb (f i) i src)))"
proof -
  have m: "a \<in> set (snd (fetchOne cr emb (f j) j src)) \<longleftrightarrow> Act a \<in> set (snd (fetchOne_logged cr emb trigger (f j) j src))" for a j src
    unfolding fetchOne_logged_fetchOne(2) [symmetric, of cr emb "f j" j src trigger] map_filter_set act_of_Some by blast
  have "SetCert t i v \<in> set (List.map_filter act_of (interleave picks (map (snd \<circ> snd) (logged_runs cr emb trigger f ids p)))) \<longleftrightarrow>
     (\<exists>j \<in> set ids. \<exists>src. cp_sources p j = Some src \<and> SetCert t i v \<in> set (snd (fetchOne cr emb (f j) j src)))"
    unfolding map_filter_set act_of_Some m by (simp add: logged_effects)
  then show ?thesis using fetchOne_SetCert by blast
qed

definition refreshed_event :: "string \<Rightarrow> httpSource \<Rightarrow> cert_fetch \<Rightarrow> IssuerID \<Rightarrow> CertRecord \<Rightarrow> log_event" where
  "refreshed_event trigger src f i rec =
     event ''info'' ''issuer_cert_refreshed''
       [AString ''trigger'', AString trigger, AString ''source'', AString (httpSource_Name src),
        AString ''issuer'', AString (LongName i), AString ''sha256'', AString (Hex (cr_SHA256 rec)),
        AString ''not_after'', AString (format_rfc3339 (NotAfter (cr_Parsed rec))),
        AString ''latency_ms'', AInt (Milliseconds (cf_latency f))]"

text \<open>The line of the event, read back, names the issuer and the fingerprint of an installed certificate.\<close>

definition cert_line :: "(nat \<Rightarrow> bool) \<Rightarrow> log_event \<Rightarrow> IssuerID \<Rightarrow> byte list \<Rightarrow> bool" where
  "cert_line isPrint e i sha \<longleftrightarrow>
     line_says isPrint e (''event'', ''issuer_cert_refreshed'') \<and> line_says isPrint e (''issuer'', LongName i)
     \<and> line_says isPrint e (''sha256'', Hex sha)"

lemma refreshed_event_line:
  "cert_line P (refreshed_event trigger src f j rec) i sha \<longleftrightarrow> LongName j = LongName i \<and> cr_SHA256 rec = sha"
proof -
  have "plain_event (refreshed_event trigger src f j rec)" by (simp add: refreshed_event_def plain_names)
  then show ?thesis
    by (simp add: cert_line_def line_says_plain) (auto simp: refreshed_event_def event_def reports_def Hex_def)
qed

lemma other_event_line:
  "plain_event e \<Longrightarrow> le_event e \<noteq> ''issuer_cert_refreshed'' \<Longrightarrow>
     list_all (\<lambda>(k, v). k \<noteq> ''event'') (sprint_pairs (le_kv e)) \<Longrightarrow> \<not> cert_line P e i sha"
  by (auto simp: cert_line_def line_says_plain reports_def list_all_iff)

text \<open>What a goroutine logs about an installation is what it installed.\<close>

lemma fetchOne_cert_line:
  "(\<exists>e. Emit e \<in> set (snd (fetchOne_logged cr emb trigger f j src)) \<and> cert_line P e i sha) \<longleftrightarrow>
     LongName j = LongName i \<and> (\<exists>t rec. SetCert t j rec \<in> set (snd (fetchOne cr emb f j src)) \<and> cr_SHA256 rec = sha)"
proof (rule fetchOne_branches [of cr emb f j src trigger])
  fix e evs
  assume "fetchOne cr emb f j src = (Some e, [RecordAttempt (cf_record f) (httpSource_Name src) (cf_latency f) (Some e)])"
    and l: "fetchOne_logged cr emb trigger f j src
      = (Some e, Act (RecordAttempt (cf_record f) (httpSource_Name src) (cf_latency f) (Some e)) # map Emit evs)"
    and evs: "list_all (\<lambda>ev. plain_event ev \<and> le_event ev \<noteq> ''issuer_cert_refreshed''
      \<and> list_all (\<lambda>(k, v). k \<noteq> ''event'') (sprint_pairs (le_kv ev))) evs"
  then have "\<not> cert_line P ev i sha" if "ev \<in> set evs" for ev
    using other_event_line that by (auto simp: list_all_iff [of _ evs])
  then show ?thesis using l \<open>fetchOne cr emb f j src = _\<close> by auto
next
  fix rec
  assume "fetchOne cr emb f j src
      = (None, [SetCert (cf_set f) j rec, RecordAttempt (cf_record f) (httpSource_Name src) (cf_latency f) None])"
    "fetchOne_logged cr emb trigger f j src
      = (None, [Act (SetCert (cf_set f) j rec), Act (RecordAttempt (cf_record f) (httpSource_Name src) (cf_latency f) None),
            Emit (event ''info'' ''issuer_cert_refreshed''
              [AString ''trigger'', AString trigger, AString ''source'', AString (httpSource_Name src),
               AString ''issuer'', AString (LongName j), AString ''sha256'', AString (Hex (cr_SHA256 rec)),
               AString ''not_after'', AString (format_rfc3339 (NotAfter (cr_Parsed rec))),
               AString ''latency_ms'', AInt (Milliseconds (cf_latency f))])])"
  then show ?thesis
    using refreshed_event_line [of P trigger src f j rec i sha] by (simp add: refreshed_event_def)
qed

lemma LongName_inj: "j \<in> set AllIssuers \<Longrightarrow> i \<in> set AllIssuers \<Longrightarrow> LongName j = LongName i \<longleftrightarrow> j = i"
  by (auto simp: LongName_def)

text \<open>What a refresh installs, and what its log says about it.\<close>

definition installs ::
  "crypto \<Rightarrow> embedded \<Rightarrow> (IssuerID \<Rightarrow> cert_fetch) \<Rightarrow> IssuerID list \<Rightarrow> CertProvider \<Rightarrow> IssuerID \<Rightarrow> CertRecord \<Rightarrow> bool" where
  "installs cr emb f ids p i rec \<longleftrightarrow>
     i \<in> set ids \<and> (\<exists>t src. cp_sources p i = Some src \<and> SetCert t i rec \<in> set (snd (fetchOne cr emb (f i) i src)))"

lemma logged_certs:
  assumes "FetchNow_cert_logged cr emb trigger f ids picks p = (err, p', evs)"
  shows "installs cr emb f ids p i rec \<Longrightarrow> Trusted_cert p' i = Some rec"
    "Trusted_cert p' i \<noteq> Trusted_cert p i \<Longrightarrow> \<exists>rec. installs cr emb f ids p i rec"
proof -
  let ?acts = "List.map_filter act_of (interleave picks (map (snd \<circ> snd) (logged_runs cr emb trigger f ids p)))"
  have set_iff: "(\<exists>t. SetCert t i v \<in> set ?acts) \<longleftrightarrow> installs cr emb f ids p i v" for v
    unfolding logged_SetCert_iff installs_def by blast
  obtain ks where "?acts = interleave ks (map (snd \<circ> snd) (cert_runs cr emb f ids p))" by (rule logged_acts)
  then have uniq: "v = v'" if "SetCert t i v \<in> set ?acts" "SetCert t' i v' \<in> set ?acts" for t v t' v'
    using interleave_SetCert_unique that by metis
  have certs: "Trusted_cert p' i = (if \<exists>t v. SetCert t i v \<in> set ?acts
      then Some (THE v. \<exists>t. SetCert t i v \<in> set ?acts) else Trusted_cert p i)"
  proof (cases "ids = []")
    case True
    then have "\<not> (\<exists>t v. SetCert t i v \<in> set ?acts)" using set_iff by (simp add: installs_def)
    moreover from True assms have "p' = p" by (simp add: FetchNow_cert_logged_def)
    ultimately show ?thesis by (simp only: if_False)
  next
    case False
    with assms have "p' = fold apply_action ?acts p" by (simp add: FetchNow_cert_logged_runs [OF False] Let_def)
    then show ?thesis using fold_certs [of i ?acts p, OF uniq] by (simp only: Trusted_cert_def)
  qed
  show "Trusted_cert p' i = Some rec" if "installs cr emb f ids p i rec"
  proof -
    from that obtain t where t: "SetCert t i rec \<in> set ?acts" unfolding set_iff [symmetric] by blast
    have "(THE v. \<exists>t. SetCert t i v \<in> set ?acts) = rec"
      by (rule the_equality) (use t uniq in blast)+
    with t certs show ?thesis by auto
  qed
  show "\<exists>rec. installs cr emb f ids p i rec" if "Trusted_cert p' i \<noteq> Trusted_cert p i"
    using that certs set_iff by (metis (no_types, lifting))
qed

lemma logged_cert_line:
  assumes "FetchNow_cert_logged cr emb trigger f ids picks p = (err, p', evs)" "i \<in> set AllIssuers"
  shows "(\<exists>e \<in> set evs. cert_line P e i sha) \<longleftrightarrow> (\<exists>rec. installs cr emb f ids p i rec \<and> cr_SHA256 rec = sha)"
proof (cases "ids = []")
  case True
  with assms show ?thesis by (simp add: FetchNow_cert_logged_def installs_def)
next
  case False
  let ?start = "event ''info'' ''issuer_cert_fetch_start'' [AString ''trigger'', AString trigger]"
  have start: "\<not> cert_line P ?start i sha" by (rule other_event_line) (simp_all add: plain_names)
  let ?logged = "List.map_filter event_of (interleave picks (map (snd \<circ> snd) (logged_runs cr emb trigger f ids p)))"
  have "evs = ?start # ?logged"
    using assms by (simp add: FetchNow_cert_logged_runs [OF False] Let_def)
  with start have "(\<exists>e \<in> set evs. cert_line P e i sha) \<longleftrightarrow> (\<exists>e \<in> set ?logged. cert_line P e i sha)"
    by (simp only: list.set bex_simps simp_thms)
  also have "\<dots> \<longleftrightarrow> (\<exists>e. (\<exists>j \<in> set ids. \<exists>src. cp_sources p j = Some src
      \<and> Emit e \<in> set (snd (fetchOne_logged cr emb trigger (f j) j src))) \<and> cert_line P e i sha)"
    unfolding Bex_def [of "set ?logged"] logged_event_iff ..
  also have "\<dots> \<longleftrightarrow> (\<exists>j \<in> set ids. \<exists>src. cp_sources p j = Some src
         \<and> (\<exists>e. Emit e \<in> set (snd (fetchOne_logged cr emb trigger (f j) j src)) \<and> cert_line P e i sha))"
    by metis
  also have "\<dots> \<longleftrightarrow> (\<exists>rec. installs cr emb f ids p i rec \<and> cr_SHA256 rec = sha)"
  proof -
    have j: "j = i" if "LongName j = LongName i" "SetCert t j rec \<in> set (snd (fetchOne cr emb (f j) j src))" for j t rec src
      using that LongName_inj [OF _ assms(2), of j] fetchOne_SetCert [OF that(2)] by (simp add: trusted_cert_def)
    show ?thesis unfolding fetchOne_cert_line installs_def
    proof
      assume "\<exists>j \<in> set ids. \<exists>src. cp_sources p j = Some src \<and> LongName j = LongName i
        \<and> (\<exists>t rec. SetCert t j rec \<in> set (snd (fetchOne cr emb (f j) j src)) \<and> cr_SHA256 rec = sha)"
      then obtain j src t rec where "j \<in> set ids" "cp_sources p j = Some src" "LongName j = LongName i"
        "SetCert t j rec \<in> set (snd (fetchOne cr emb (f j) j src))" "cr_SHA256 rec = sha" by metis
      with j [OF this(3,4)] show "\<exists>rec. (i \<in> set ids \<and> (\<exists>t src. cp_sources p i = Some src
        \<and> SetCert t i rec \<in> set (snd (fetchOne cr emb (f i) i src)))) \<and> cr_SHA256 rec = sha" by metis
    qed metis
  qed
  finally show ?thesis .
qed

subsection \<open>Properties\<close>

text \<open>Under every schedule of its goroutines, the log of a certificate refresh names exactly what was
  installed: a line, parsed back, says that the certificate of an issuer with a given fingerprint was
  refreshed exactly when a goroutine of that issuer validated such a certificate, which is then the
  cached one; and no cached certificate changes without such a line.\<close>

theorem cert_log_audits:
  assumes "FetchNow_cert_logged cr emb trigger f ids picks p = (err, p', evs)" "i \<in> set AllIssuers"
  shows "((\<exists>e \<in> set evs. cert_line isPrint e i sha) \<longleftrightarrow>
        (\<exists>rec. installs cr emb f ids p i rec \<and> cr_SHA256 rec = sha \<and> Trusted_cert p' i = Some rec))
    \<and> (Trusted_cert p' i \<noteq> Trusted_cert p i \<longrightarrow>
        (\<exists>rec. Trusted_cert p' i = Some rec \<and> (\<exists>e \<in> set evs. cert_line isPrint e i (cr_SHA256 rec))))"
proof (intro conjI impI)
  show "(\<exists>e \<in> set evs. cert_line isPrint e i sha) \<longleftrightarrow>
      (\<exists>rec. installs cr emb f ids p i rec \<and> cr_SHA256 rec = sha \<and> Trusted_cert p' i = Some rec)"
    unfolding logged_cert_line [OF assms] using logged_certs(1) [OF assms(1), of i] by blast
  assume "Trusted_cert p' i \<noteq> Trusted_cert p i"
  then obtain rec where rec: "installs cr emb f ids p i rec" using logged_certs(2) [OF assms(1)] by blast
  then have "\<exists>e \<in> set evs. cert_line isPrint e i (cr_SHA256 rec)"
    unfolding logged_cert_line [OF assms] by blast
  with logged_certs(1) [OF assms(1) rec]
  show "\<exists>rec. Trusted_cert p' i = Some rec \<and> (\<exists>e \<in> set evs. cert_line isPrint e i (cr_SHA256 rec))" by blast
qed

lemma fetchOne_demo:
  assumes "0 \<le> cf_validate f" "cf_validate f \<le> 1000" "cf_der f = Inr [2]"
  obtains rec where "fetchOne demo_crypto demo_embedded f IssuerG2 src
    = (None, [SetCert (cf_set f) IssuerG2 rec, RecordAttempt (cf_record f) (httpSource_Name src) (cf_latency f) None])"
    "cr_SHA256 rec = pinnedMoicaG2SHA256"
proof -
  obtain rec where "parseAndValidate demo_crypto [2] pinnedMoicaG2SHA256 (demo_cert (demo_modulus 2047)) IssuerG2 ''https'' (cf_validate f)
      = Inr rec"
    using parseAndValidate_accepts [of demo_crypto "[2]" pinnedMoicaG2SHA256 "demo_cert (demo_modulus 2047)"
        "demo_cert (demo_modulus 2047)" "cf_validate f" "demo_modulus 2047" IssuerG2 "''https''"] demo_chain assms by auto
  moreover from parseAndValidate_Inr [OF this] have "cr_SHA256 rec = pinnedMoicaG2SHA256" by (simp add: valid_cert_def)
  moreover have "GRCARootFor demo_crypto demo_embedded IssuerG2 = Inr (demo_cert (demo_modulus 2047))"
    by (simp add: GRCARootFor_def demo_embedded_def)
  ultimately show ?thesis using assms(3) by (intro that [of rec]) (simp_all add: fetchOne_def Let_def)
qed

theorem cert_log_audits_witness:
  "\<exists>p p' evs. FetchNow_cert_logged demo_crypto demo_embedded ''scheduled''
        (\<lambda>i. \<lparr>cf_der = Inr [2], cf_latency = 1, cf_validate = 7, cf_set = 8, cf_record = 9\<rparr>) [IssuerG2] [0, 0] p = (None, p', evs)
     \<and> (\<exists>e \<in> set evs. cert_line (\<lambda>_. True) e IssuerG2 pinnedMoicaG2SHA256)"
proof -
  let ?f = "\<lambda>i :: IssuerID. \<lparr>cf_der = Inr [2], cf_latency = 1, cf_validate = 7, cf_set = 8, cf_record = 9\<rparr>"
  obtain p where "NewProvider_cert demo_crypto demo_embedded 5 6 (DefaultSources '''' '''' 10) 0 0 = Inr p"
    using demo_loads [of 5 6] by auto
  then have src: "cp_sources p IssuerG2 = Some (the (DefaultSources '''' '''' 10 IssuerG2))"
    by (auto simp: NewProvider_cert_def DefaultSources_def split: sum.splits)
  let ?src = "the (DefaultSources '''' '''' 10 IssuerG2)"
  obtain rec where rec: "fetchOne demo_crypto demo_embedded (?f IssuerG2) IssuerG2 ?src
      = (None, [SetCert 8 IssuerG2 rec, RecordAttempt 9 (httpSource_Name ?src) 1 None])" "cr_SHA256 rec = pinnedMoicaG2SHA256"
    using fetchOne_demo [of "?f IssuerG2" ?src] by auto
  obtain err p' evs where run: "FetchNow_cert_logged demo_crypto demo_embedded ''scheduled'' ?f [IssuerG2] [0, 0] p = (err, p', evs)"
    by (metis prod_cases3)
  have "fst (fetchOne_logged demo_crypto demo_embedded ''scheduled'' (?f IssuerG2) IssuerG2 ?src) = None"
    unfolding fetchOne_logged_fetchOne(1) rec(1) by simp
  moreover have "err = map_option (\<lambda>er. Joined [Wrapf ''%s: %w'' [httpSource_Name ?src] er])
      (fst (fetchOne_logged demo_crypto demo_embedded ''scheduled'' (?f IssuerG2) IssuerG2 ?src))"
    using run by (simp add: FetchNow_cert_logged_runs logged_runs_def src map_filter_simps Let_def split: option.splits)
  ultimately have "err = None" by (simp only: option.map)
  moreover have "installs demo_crypto demo_embedded ?f [IssuerG2] p IssuerG2 rec"
    using src rec by (simp add: installs_def)
  moreover from this logged_certs(1) [OF run] have "Trusted_cert p' IssuerG2 = Some rec" by blast
  ultimately show ?thesis
    using cert_log_audits [OF run, of IssuerG2 "\<lambda>_. True" pinnedMoicaG2SHA256] rec(2) run by auto
qed

end
