(* ===== verification/Server_Log.thy ===== *)
theory Server_Log
  imports "HOL-Library.Sublist" Server_Main Verify_Log Cert_Log
begin

text \<open>
  What the running server prints: its banner, the access log line of \<open>logMiddleware\<close>, and the refreshes
  of the SMT roots as \<open>main\<close> configures them, with the errors the two deployed sources produce.
\<close>

subsection \<open>The banner\<close>

text \<open>The lines \<open>main\<close> prints before it serves; \<open>dbPath\<close> is the path of its database.\<close>

definition endpoint_lines :: "string \<Rightarrow> string list" where
  "endpoint_lines debugToken =
     [''  POST /challenge              - Generate a new challenge'',
      ''  GET  /challenge/{id}         - Retrieve a challenge'',
      ''  POST /link-verify            - Verify ZK proofs with pk_commit linkage'',
      ''  GET  /smt-root/status        - Query trusted SMT root cache'',
      ''  GET  /issuer-cert/status     - Query trusted MOICA issuer cert cache'']
     @ (if debugToken \<noteq> ''''
        then [''  POST /debug/db/clean         - DEV ONLY: wipe challenges + verifications (DEBUG_TOKEN required)'']
        else [])"

definition banner :: "string \<Rightarrow> deployment \<Rightarrow> string list" where
  "banner dbPath dp =
     [''=== zkID Verifier Server ==='', ''HTTP listening on '' @ dp_httpAddr dp, ''gRPC listening on '' @ dp_grpcAddr dp,
      ''Database: '' @ dbPath, ''Keys directory: '' @ v_KeysDir (dp_verifier dp), ''APP_ID: '' @ dp_appID dp,
      ''REST Endpoints:'']
     @ endpoint_lines (dp_debugToken dp) @ ['''']"

text \<open>Method and path of a line, and of a route; every wildcard is printed as the id of a challenge.\<close>

definition endpoint :: "string \<Rightarrow> string \<times> string" where
  "endpoint line =
     (let l = drop 2 line; rest = dropWhile (\<lambda>c. c \<noteq> CHR '' '') l
      in (takeWhile (\<lambda>c. c \<noteq> CHR '' '') l, takeWhile (\<lambda>c. c \<noteq> CHR '' '') (dropWhile (\<lambda>c. c = CHR '' '') rest)))"

definition route_text :: "string \<times> segment list \<times> handler \<Rightarrow> string \<times> string" where
  "route_text r = (case r of (m, p, h) \<Rightarrow> (m, concat (map (\<lambda>s. case s of Lit l \<Rightarrow> ''/'' @ l | Wild \<Rightarrow> ''/{id}'') p)))"

subsection \<open>The access log\<close>

text \<open>
  \<open>r.URL.Path\<close> has the percent escapes decoded.  The line of a request as \<open>log.Printf\<close> prints it after
  the time stamp; \<open>took\<close> is the text of the time it took.
\<close>

definition URL_Path :: "string list \<Rightarrow> string" where
  "URL_Path segments = (if segments = [] then ''/'' else concat (map (\<lambda>s. ''/'' @ s) segments))"

definition access_line :: "string \<Rightarrow> access \<Rightarrow> string" where
  "access_line took a =
     (case a of (mthd, path, status) \<Rightarrow>
        mthd @ '' '' @ URL_Path path @ '' '' @ nat_string 10 status @ '' '' @ took)"

text \<open>The lines a text prints as.\<close>

fun text_lines :: "string \<Rightarrow> string list" where
  "text_lines [] = [[]]"
| "text_lines (c # s) =
     (if c = newline then [] # text_lines s
      else case text_lines s of [] \<Rightarrow> [[c]] | l # ls \<Rightarrow> (c # l) # ls)"

lemma text_lines_nonempty [simp]: "text_lines s \<noteq> []"
  by (induction s) (auto split: list.split)

lemma text_lines_append:
  "text_lines (a @ newline # b) = text_lines a @ text_lines b"
proof (induction a)
  case (Cons c a)
  then show ?case by (cases "text_lines a") (auto split: list.split)
qed simp

lemma text_lines_one: "newline \<notin> set s \<Longrightarrow> text_lines s = [s]"
  by (induction s) auto

text \<open>The errors of the deployed sources all hold a space.\<close>

lemma ParseRoot_error_space: "ParseRoot s = Inl e \<Longrightarrow> CHR '' '' \<in> set (err_text e)"
  by (auto simp: ParseRoot_def Let_def split: if_splits option.splits)

lemma onchain_error_space: "onchain_FetchAll keccak tr um s order = Inl e \<Longrightarrow> CHR '' '' \<in> set (err_text e)"
proof -
  have c: "\<forall>e \<in> set (snd (collect (onchain_fetch keccak tr um s) order Map.empty [])). CHR '' '' \<in> set (err_text e)"
  proof
    fix e assume "e \<in> set (snd (collect (onchain_fetch keccak tr um s) order Map.empty []))"
    then obtain i where "(case onchain_fetch keccak tr um s i of Inl e \<Rightarrow> Some (Wrapf ''%s: %w'' [LongName i] e) | Inr r \<Rightarrow> None) = Some e"
      by (auto simp: collect_eq map_filter_set)
    then show "CHR '' '' \<in> set (err_text e)" by (cases "onchain_fetch keccak tr um s i") auto
  qed
  obtain out errs where "collect (onchain_fetch keccak tr um s) order Map.empty [] = (out, errs)" by fastforce
  moreover assume "onchain_FetchAll keccak tr um s order = Inl e"
  ultimately show ?thesis
    using c join_lines_space [of "map err_text errs"] by (auto simp: onchain_FetchAll_def split: if_splits)
qed

lemma parse_issuers_error_space: "parse_issuers is body out = Inl e \<Longrightarrow> CHR '' '' \<in> set (err_text e)"
  by (induction "is" arbitrary: out) (auto split: option.splits sum.splits)

lemma github_error_space: "github_FetchAll tr um s = Inl e \<Longrightarrow> CHR '' '' \<in> set (err_text e)"
  by (auto simp: github_FetchAll_def parseReleaseBody_def parse_issuers_error_space split: http_call.splits sum.splits if_splits)

lemma startup_fetch_error_space: "fst (startup_fetch en k src) = Inl e \<Longrightarrow> CHR '' '' \<in> set (err_text e)"
  by (cases src) (auto simp: startup_fetch_def onchain_error_space github_error_space)

subsection \<open>Properties\<close>

text \<open>Whatever the network answers (its error texts may hold newlines), a refresh of the SMT roots by the
  deployed server, at start-up or scheduled, logs one line per event: every error of the two sources
  holds a space, so it is printed quoted.\<close>

theorem deployed_refresh_one_line:
  assumes "FetchNow_logged smt_source_Name (startup_fetch en) trigger now clk p = (err, p', evs)"
    and "trigger \<in> {''startup'', ''scheduled''}"
  shows "\<forall>e \<in> set evs. text_lines (DefaultLogger_Event isPrint e) = [DefaultLogger_Event isPrint e]"
proof -
  have "newline \<notin> set trigger" using assms(2) by auto
  moreover have "\<forall>src. newline \<notin> set (smt_source_Name src)"
  proof
    show "newline \<notin> set (smt_source_Name src)" for src by (cases src) simp_all
  qed
  ultimately have "list_all (one_line isPrint) evs"
    using startup_fetch_error_space by (intro refresh_one_line [OF _ _ _ assms(1)]) blast+
  then show ?thesis using text_lines_one by (simp add: list_all_iff one_line_def)
qed

theorem deployed_refresh_one_line_witness:
  "\<exists>err p' evs. FetchNow_logged smt_source_Name (startup_fetch boot_demo) ''startup'' 5 \<lparr>rc_total = 0, rc_status = 0\<rparr>
      (NewProvider (Some (GitHub (NewGitHubReleaseSource '''' '''' 0))) None 0 0) = (err, p', evs)
     \<and> evs \<noteq> [] \<and> (\<forall>e \<in> set evs. text_lines (DefaultLogger_Event (\<lambda>_. True) e) = [DefaultLogger_Event (\<lambda>_. True) e])"
proof -
  let ?p = "NewProvider (Some (GitHub (NewGitHubReleaseSource '''' '''' 0))) None 0 0"
  obtain err p' evs where run: "FetchNow_logged smt_source_Name (startup_fetch boot_demo) ''startup'' 5
      \<lparr>rc_total = 0, rc_status = 0\<rparr> ?p = (err, p', evs)"
    by (metis prod_cases3)
  then have "evs \<noteq> []" by (auto simp: FetchNow_logged_def NewProvider_def split: prod.splits)
  moreover from deployed_refresh_one_line [OF run, of "\<lambda>_. True"]
  have "\<forall>e \<in> set evs. text_lines (DefaultLogger_Event (\<lambda>_. True) e) = [DefaultLogger_Event (\<lambda>_. True) e]" by simp
  ultimately show ?thesis using run by blast
qed

text \<open>C37: The access log can be forged.  For any text without a newline there is a path (its newlines
  escaped as \<open>%0A\<close> in the URL) such that a single request with any method, whatever the handler behind
  the middleware answers, makes the access log print that text as a line of its own.\<close>

theorem access_log_forgeable:
  assumes "newline \<notin> set forged"
  shows "\<exists>path. \<forall>mthd hdr body s. \<exists>a.
    snd (snd (logMiddleware nxt \<lparr>hq_Method = mthd, hq_Path = path, hq_Header = hdr, hq_Body = body\<rparr> (s, log))) = log @ [a]
    \<and> forged \<in> set (text_lines (access_line took a))"
proof (rule exI [of _ "[newline # forged @ [newline]]"], intro allI)
  fix mthd hdr body s
  let ?path = "[newline # forged @ [newline]]"
  let ?r = "\<lparr>hq_Method = mthd, hq_Path = ?path, hq_Header = hdr, hq_Body = body\<rparr>"
  obtain reply s' where n: "nxt ?r s = (reply, s')" by fastforce
  have l: "access_line took (mthd, ?path, st) = (mthd @ '' /'') @ newline # forged @ newline # ('' '' @ nat_string 10 st @ '' '' @ took)" for st
    by (simp add: access_line_def URL_Path_def)
  have "forged \<in> set (text_lines (access_line took (mthd, ?path, st)))" for st
    unfolding l text_lines_append text_lines_one [OF assms] by simp
  then show "\<exists>a. snd (snd (logMiddleware nxt ?r (s, log))) = log @ [a] \<and> forged \<in> set (text_lines (access_line took a))"
    by (intro exI [of _ "(mthd, ?path, re_Status reply)"]) (simp add: logMiddleware_def n)
qed

theorem access_log_forgeable_witness:
  "\<exists>path a. snd (snd (logMiddleware (\<lambda>r s. (text_reply Map.empty 404 [], s))
      \<lparr>hq_Method = ''GET'', hq_Path = path, hq_Header = Map.empty, hq_Body = []\<rparr> ((), []))) = [a]
    \<and> ''GET /link-verify 200 1ms'' \<in> set (text_lines (access_line ''2ms'' a))"
proof -
  have "newline \<notin> set ''GET /link-verify 200 1ms''" by simp
  from access_log_forgeable [OF this, of "\<lambda>r (s :: unit). (text_reply Map.empty 404 [], s)" "[]" "''2ms''"]
  obtain path where "\<forall>mthd hdr body (s :: unit). \<exists>a. snd (snd (logMiddleware (\<lambda>r s. (text_reply Map.empty 404 [], s))
      \<lparr>hq_Method = mthd, hq_Path = path, hq_Header = hdr, hq_Body = body\<rparr> (s, []))) = [] @ [a]
    \<and> ''GET /link-verify 200 1ms'' \<in> set (text_lines (access_line ''2ms'' a))" by blast
  then show ?thesis by (metis (no_types, lifting) append_Nil)
qed

text \<open>The banner tells the truth about the API: the endpoints it lists are, in order, the routes that the
  deployed router serves, with the debug endpoint listed exactly when it is registered.\<close>

theorem banner_lists_routes:
  "map endpoint (endpoint_lines (dp_debugToken dp))
     = map route_text (NewRouter (http_server ev (dp_appID dp) (dp_debugToken dp)))
   \<and> sublist (endpoint_lines (dp_debugToken dp)) (banner dbPath dp)"
proof
  show "map endpoint (endpoint_lines (dp_debugToken dp))
     = map route_text (NewRouter (http_server ev (dp_appID dp) (dp_debugToken dp)))"
    by (simp add: endpoint_lines_def endpoint_def route_text_def NewRouter_def http_server_def)
  show "sublist (endpoint_lines (dp_debugToken dp)) (banner dbPath dp)"
    unfolding banner_def by (intro sublist_appendI)
qed

end
