(* ===== verification/Grpc_Transport.thy ===== *)
theory Grpc_Transport
  imports Server_Main
begin

text \<open>
  The gRPC server of \<open>cmd/server/main.go\<close> around the methods of \<open>grpc/server.go\<close>: a message above the
  receive cap never reaches the method, and a response the runtime cannot marshal never reaches the
  client.  A proto3 string field holds valid UTF-8, so what matters is which texts a response
  carries.  The lemmas follow every text of a response to where it comes from (the trust anchors
  and their refreshers, the proof's signals, the configuration), and the property says which
  answers arrive.
\<close>

subsection \<open>The transport\<close>

definition maxRecvMsgSize :: nat where "maxRecvMsgSize = 2 * 1024 * 1024"

text \<open>The string fields of a response and of its messages.\<close>

definition response_texts :: "LinkVerifyResponse \<Rightarrow> string list" where
  "response_texts m =
     [gl_Nullifier m, gl_Error m, gl_Reason m]
     @ (case gl_SmtRoot m of
          None \<Rightarrow> [] | Some x \<Rightarrow> [gs_Issuer x, gs_Expected x, gs_Observed x, gs_TrustSource x, gs_TrustedAt x])
     @ (case gl_IssuerModulus m of
          None \<Rightarrow> [] | Some x \<Rightarrow> [gi_Issuer x, gi_ExpectedSha256 x, gi_TrustSource x, gi_TrustedAt x])
     @ (case gl_AppId m of None \<Rightarrow> [] | Some x \<Rightarrow> [gm_Expected x, gm_Observed x])
     @ (case gl_Challenge m of None \<Rightarrow> [] | Some x \<Rightarrow> [gm_Expected x, gm_Observed x])"

text \<open>
  What the client sees.  \<open>wire_size\<close> is the size of the encoded request and \<open>marshals\<close> whether the
  runtime can encode the response; it answers \<open>ResourceExhausted\<close> and \<open>Internal\<close> when not.
\<close>

datatype grpc_answer = TooLarge | Refused grpc_status | NotMarshalled | Sent LinkVerifyResponse

definition grpc_call ::
  "(LinkVerifyMessage \<Rightarrow> nat) \<Rightarrow> (LinkVerifyResponse \<Rightarrow> bool) \<Rightarrow> 's Server \<Rightarrow> LinkVerifyMessage \<Rightarrow> 's
    \<Rightarrow> grpc_answer \<times> 's" where
  "grpc_call wire_size marshals sv req s =
     (if maxRecvMsgSize < wire_size req then (TooLarge, s)
      else case grpc_LinkVerify sv req s of
             (Inl st, s') \<Rightarrow> (Refused st, s')
           | (Inr m, s') \<Rightarrow> (if marshals m then Sent m else NotMarshalled, s'))"

subsection \<open>ASCII texts\<close>

definition ascii :: "string \<Rightarrow> bool" where
  "ascii s \<longleftrightarrow> (\<forall>c \<in> set s. (of_char c :: nat) < 128)"

lemma ascii_valid: "ascii s \<Longrightarrow> ValidString s"
  by (simp add: ascii_def ValidString_ascii)

lemma ascii_simps [simp]:
  "ascii []" "ascii (c # s) \<longleftrightarrow> (of_char c :: nat) < 128 \<and> ascii s" "ascii (s @ t) \<longleftrightarrow> ascii s \<and> ascii t"
  "ascii (rev s) \<longleftrightarrow> ascii s"
  by (auto simp: ascii_def)

lemma ascii_graphic: "\<forall>c \<in> set s. graphic c \<Longrightarrow> ascii s"
  by (auto simp: ascii_def graphic_def)

lemma ascii_Int_String [simp]: "ascii (Int_String i)"
  by (intro ascii_graphic ballI graphic_Int_String)

lemma ascii_nat_string [simp]: "ascii (nat_string 10 n)"
  using ascii_Int_String [of "int n"] by (simp add: Int_String_def)

lemma ascii_pad_nat [simp]: "ascii (pad_nat w n)"
proof -
  have "ascii (replicate k (CHR ''0''))" for k by (induction k) simp_all
  then show ?thesis by (simp add: pad_nat_def Let_def)
qed

lemma ascii_appendInt [simp]: "ascii (appendInt x w)"
  by (simp add: appendInt_def)

lemma ascii_rfc3339 [simp]: "ascii (format_rfc3339 t)"
  by (simp add: format_rfc3339_def format_date_def format_clock_def split: prod.split)

lemma ascii_trusted_at [simp]: "ascii (trusted_at_text t)"
  by (simp add: trusted_at_text_def)

lemma ascii_Hex [simp]: "ascii (Hex r)"
proof -
  have "graphic c" if "c \<in> set (EncodeToString r)" for c
    using EncodeToString_chars [OF that] graphic_digit_char by fastforce
  then have "ascii (EncodeToString r)" by (intro ascii_graphic) blast
  then show ?thesis by (simp add: Hex_def)
qed

lemma ascii_ShortName [simp]: "ascii (ShortName i)"
  by (simp add: ShortName_def)

lemma ascii_suffix: "ascii (a @ s) \<Longrightarrow> ascii s"
  by simp

lemma ascii_TrimSpace: "ascii s \<Longrightarrow> ascii (TrimSpace s)"
  unfolding TrimSpace_def by (metis ascii_simps(4) ascii_suffix strip_any_suffix)

lemma ascii_NormalizeDecimal: "ascii s \<Longrightarrow> NormalizeDecimal s = Inr d \<Longrightarrow> ascii d"
  by (auto simp: NormalizeDecimal_def Let_def ascii_TrimSpace split: if_splits option.splits)

subsection \<open>The texts of a result\<close>

text \<open>
  The application ids apart, every text of a result is ASCII; the expected id is the configured
  one, and a verified result has no mismatch.
\<close>

definition plain_result :: "string \<Rightarrow> Result \<Rightarrow> bool" where
  "plain_result appID r \<longleftrightarrow>
     ascii (r_Reason r) \<and> (r_Verified r \<longrightarrow> r_Reason r = '''')
     \<and> (case r_Parsed r of None \<Rightarrow> True | Some p \<Rightarrow> ascii (pi_Nullifier p) \<and> ascii (pi_Challenge p))
     \<and> (case r_SmtRoot r of None \<Rightarrow> True | Some x \<Rightarrow>
          ascii (sr_IssuerName x) \<and> ascii (sr_Expected x) \<and> ascii (sr_Observed x) \<and> ascii (sr_TrustSource x))
     \<and> (case r_IssuerModulus r of None \<Rightarrow> True | Some x \<Rightarrow>
          ascii (im_IssuerName x) \<and> ascii (im_ExpectedSHA256 x) \<and> ascii (im_TrustSource x))
     \<and> (\<forall>x. r_AppID r = Some x \<longrightarrow>
          ao_Expected x = appID \<and> (ao_Match x \<longleftrightarrow> ao_Observed x = appID) \<and> (r_Verified r \<longrightarrow> ao_Match x))
     \<and> (case r_Challenge r of None \<Rightarrow> True | Some x \<Rightarrow> ascii (co_Expected x) \<and> ascii (co_Observed x))"

text \<open>What the checks take from the providers.\<close>

definition plain_anchors :: "('s Provider \<Rightarrow> 's Provider) \<Rightarrow> 's Verifier \<Rightarrow> bool" where
  "plain_anchors later v \<longleftrightarrow>
     (\<forall>p. v_SmtRoot v = Some p \<longrightarrow> ascii (sourceUsed (later p)))
     \<and> (\<forall>q i rec. v_IssuerCert v = Some q \<longrightarrow> Trusted_cert q i = Some rec \<longrightarrow>
          ascii (cr_SHA256Hex rec) \<and> ascii (cr_Source rec))"

lemma ascii_reasons [simp]:
  "ascii ReasonProofInvalid" "ascii ReasonSmtRootMismatch" "ascii ReasonIssuerModulusMismatch"
  "ascii ReasonAppIDMismatch" "ascii ReasonChallengeMismatch"
  by (simp_all add: reason_defs)

lemma smt_check_plain:
  assumes "smt_check later now v req parsed res = Inr res'" "plain_result appID res" "plain_anchors later v"
  shows "plain_result appID res'"
proof (cases "v_SmtRoot v")
  case None
  with assms show ?thesis by (simp add: smt_check_def)
next
  case (Some p)
  with assms(1) obtain x where x: "checkSmtRoot later now (rq_ProofType req) parsed p = Inr x"
    and r: "res' = (if \<not> sr_Match x then res\<lparr>r_SmtRoot := Some x, r_Verified := False, r_Reason := ReasonSmtRootMismatch\<rparr>
                    else res\<lparr>r_SmtRoot := Some x\<rparr>)"
    by (auto simp: smt_check_def Let_def split: sum.splits)
  have "ascii (sourceUsed (later p))" using assms(3) Some by (simp add: plain_anchors_def)
  with x have "ascii (sr_IssuerName x) \<and> ascii (sr_Expected x) \<and> ascii (sr_Observed x) \<and> ascii (sr_TrustSource x)"
    by (auto simp: checkSmtRoot_def Provider_Meta_def Let_def split: sum.splits option.splits)
  with r assms(2) show ?thesis by (auto simp: plain_result_def)
qed

lemma issuer_check_plain:
  assumes "issuer_check now v req parsed res = Inr res'" "plain_result appID res" "plain_anchors later v"
  shows "plain_result appID res'"
proof (cases "v_IssuerCert v")
  case None
  with assms show ?thesis by (simp add: issuer_check_def)
next
  case (Some q)
  with assms(1) obtain x where x: "checkIssuerModulus now (rq_ProofType req) parsed q = Inr x"
    and r: "res' = (if \<not> im_Match x \<and> r_Reason res = ''''
                    then res\<lparr>r_IssuerModulus := Some x, r_Verified := False, r_Reason := ReasonIssuerModulusMismatch\<rparr>
                    else res\<lparr>r_IssuerModulus := Some x\<rparr>)"
    by (auto simp: issuer_check_def Let_def split: sum.splits)
  obtain rec where rec: "Trusted_cert q (issuerForProofType (rq_ProofType req)) = Some rec"
    "im_IssuerName x = ShortName (issuerForProofType (rq_ProofType req))" "im_ExpectedSHA256 x = cr_SHA256Hex rec"
    "im_TrustSource x = cr_Source rec"
    using x by (auto simp: checkIssuerModulus_def TrustedWithMeta_def Trusted_cert_def Let_def split: option.splits if_splits)
  with assms(3) Some have "ascii (im_IssuerName x) \<and> ascii (im_ExpectedSHA256 x) \<and> ascii (im_TrustSource x)"
    by (auto simp: plain_anchors_def)
  with r assms(2) show ?thesis by (auto simp: plain_result_def)
qed

lemma app_id_check_plain:
  "plain_result (v_ExpectedAppID v) res \<Longrightarrow> plain_result (v_ExpectedAppID v) (app_id_check v parsed res)"
  by (auto simp: app_id_check_eq plain_result_def checkAppID_def ConstantTimeCompare_def app_ok_def)

text \<open>The Rust library prints field elements in ASCII.\<close>

definition plain_signals :: "ffi \<Rightarrow> bool" where
  "plain_signals ff \<longleftrightarrow> (\<forall>js sg. unmarshal_signals ff js = Some sg \<longrightarrow> list_all ascii (CertChain sg @ UserSig sg))"

lemma Verify_plain_signals:
  assumes "fst (Verify osv ff req keysDir fs) = Inr (ok, Some sg)" "plain_signals ff"
  shows "list_all ascii (CertChain sg @ UserSig sg)"
proof -
  have "\<exists>r. lastSignals ff r = Some sg"
    using assms(1)
    by (auto simp: Verify_def LinkVerify_def Let_def split: prod.splits sum.splits option.splits if_splits)
  with assms(2) show ?thesis by (auto simp: lastSignals_def plain_signals_def)
qed

lemma Verifier_plain:
  assumes "Verifier_Verify osv ff later now v req fs0 = (Inr r, fs1)" "plain_anchors later v" "plain_signals ff"
  shows "plain_result (v_ExpectedAppID v) r"
proof -
  obtain w fs2 where w: "Verify osv ff req (v_KeysDir v) fs0 = (w, fs2)" by fastforce
  with assms(1) obtain ok sg where b: "w = Inr (ok, sg)" by (cases w) (auto simp: Verifier_Verify_def)
  show ?thesis
  proof (cases ok)
    case False
    with assms(1) w b have "r = new_result False ReasonProofInvalid sg None" by (simp add: Verifier_Verify_def)
    then show ?thesis by (simp add: plain_result_def new_result_def)
  next
    case True
    from assms(1) w b True obtain parsed res1 res2 where
      p: "ParsePublicInputs sg (cert_chain_type (rq_ProofType req)) = Inr parsed"
      and c1: "smt_check later now v req parsed (new_result True '''' sg (Some parsed)) = Inr res1"
      and c2: "issuer_check now v req parsed res1 = Inr res2" and r: "r = app_id_check v parsed res2"
      by (auto simp: Verifier_Verify_def cert_chain_type_def Let_def split: sum.splits)
    have v: "fst (Verify osv ff req (v_KeysDir v) fs0) = Inr (True, sg)" using w b True by simp
    from p obtain pk where "sg = Some \<lparr>CertChain = pi_PkCommit parsed # pi_IssuerRSAModulus parsed @ [pi_SmtRoot parsed],
        UserSig = [pk, pi_Nullifier parsed, pi_AppIDPacked parsed, pi_Challenge parsed]\<rparr>"
      by (auto simp: ParsePublicInputs_Inr_iff)
    from Verify_plain_signals [OF v [unfolded this] assms(3)]
    have "ascii (pi_Nullifier parsed)" "ascii (pi_Challenge parsed)" by simp_all
    then have "plain_result (v_ExpectedAppID v) (new_result True '''' sg (Some parsed))"
      by (simp add: plain_result_def new_result_def)
    from app_id_check_plain [OF issuer_check_plain [OF c2 smt_check_plain [OF c1 this assms(2)] assms(2)]]
    show ?thesis unfolding r .
  qed
qed

lemma env_service_plain:
  assumes "env_service ev req d = ((Some res, None), d')"
    and "plain_anchors (en_later ev) (en_verifier ev)" "plain_signals (en_ffi ev)"
  shows "plain_result (v_ExpectedAppID (en_verifier ev)) (p_Result res) \<and> ascii (p_Nullifier res)"
proof -
  let ?id = "v_ExpectedAppID (en_verifier ev)"
  obtain r fs1 where v: "Verifier_Verify (en_os ev) (en_ffi ev) (en_later ev) (en_check ev) (en_verifier ev) req (en_fs ev) = (Inr r, fs1)"
    using assms(1)
    by (cases "Verifier_Verify (en_os ev) (en_ffi ev) (en_later ev) (en_check ev) (en_verifier ev) req (en_fs ev)")
      (auto simp: env_service_def sqlite_service_def Service_VerifyAndRecord_def split: sum.splits)
  have plain: "plain_result ?id r" by (rule Verifier_plain [OF v assms(2,3)])
  have s: "Service_VerifyAndRecord CheckChallenge (\<lambda>c. GetChallenge (en_lookup ev) c (en_seen ev))
      (VerifyAndRecord (en_record ev) (en_now2 ev)) (en_now1 ev) (Inr r) req d = ((Some res, None), d')"
    using assms(1) v by (simp add: env_service_def sqlite_service_def)
  show ?thesis
  proof (cases "r_Verified r")
    case False
    with s have "p_Result res = r" "p_Nullifier res = (case r_Parsed r of None \<Rightarrow> '''' | Some p \<Rightarrow> pi_Nullifier p)"
      by (auto simp: Service_VerifyAndRecord_def)
    with plain show ?thesis by (auto simp: plain_result_def split: option.splits)
  next
    case True
    with v obtain parsed where p: "r_Parsed r = Some parsed"
      by (cases rule: Verifier_result) (simp_all add: new_result_def)
    with plain have a: "ascii (pi_Nullifier parsed)" "ascii (pi_Challenge parsed)" by (simp_all add: plain_result_def)
    obtain k where k: "NormalizeDecimal (pi_Challenge parsed) = Inr k"
      using s True p by (cases "NormalizeDecimal (pi_Challenge parsed)") (auto simp: Service_VerifyAndRecord_def Let_def)
    then have o': "CheckChallenge parsed k = \<lparr>co_Match = True, co_Expected = k, co_Observed = k\<rparr>"
      by (simp add: CheckChallenge_def ConstantTimeCompare_def Let_def)
    have "p_Result res = r\<lparr>r_Challenge := Some (CheckChallenge parsed k)\<rparr>" "p_Nullifier res = pi_Nullifier parsed"
      using s True p k o' by (auto simp: Service_VerifyAndRecord_def Let_def finalize_ok split: sum.splits option.splits if_splits)
    with plain a ascii_NormalizeDecimal [OF a(2) k] show ?thesis by (auto simp: o' plain_result_def)
  qed
qed

text \<open>A response is valid UTF-8 throughout when its application ids are.\<close>

lemma response_texts_valid:
  assumes "plain_result appID (p_Result res)" "ascii (p_Nullifier res)" "ValidString appID"
  shows "list_all ValidString (response_texts (verify_response res))
    \<longleftrightarrow> (case r_AppID (p_Result res) of None \<Rightarrow> True | Some x \<Rightarrow> ValidString (ao_Observed x))"
proof -
  define r where "r = p_Result res"
  have r: "ascii (r_Reason r)" "ascii (p_Nullifier res)" using assms by (simp_all add: plain_result_def r_def)
  have s: "list_all ValidString (case smtRootOutcomeToProto (r_SmtRoot r) of
      None \<Rightarrow> [] | Some x \<Rightarrow> [gs_Issuer x, gs_Expected x, gs_Observed x, gs_TrustSource x, gs_TrustedAt x])"
    using assms(1) by (cases "r_SmtRoot r") (auto simp: smtRootOutcomeToProto_def plain_result_def r_def ascii_valid)
  have i: "list_all ValidString (case issuerModulusOutcomeToProto (r_IssuerModulus r) of
      None \<Rightarrow> [] | Some x \<Rightarrow> [gi_Issuer x, gi_ExpectedSha256 x, gi_TrustSource x, gi_TrustedAt x])"
    using assms(1) by (cases "r_IssuerModulus r") (auto simp: issuerModulusOutcomeToProto_def plain_result_def r_def ascii_valid)
  have c: "list_all ValidString (case challengeOutcomeToProto (r_Challenge r) of
      None \<Rightarrow> [] | Some x \<Rightarrow> [gm_Expected x, gm_Observed x])"
    using assms(1) by (cases "r_Challenge r") (auto simp: challengeOutcomeToProto_def plain_result_def r_def ascii_valid)
  have a: "list_all ValidString (case appIDOutcomeToProto (r_AppID r) of None \<Rightarrow> [] | Some x \<Rightarrow> [gm_Expected x, gm_Observed x])
      \<longleftrightarrow> (case r_AppID r of None \<Rightarrow> True | Some x \<Rightarrow> ValidString (ao_Observed x))"
    using assms(1,3) by (cases "r_AppID r") (auto simp: appIDOutcomeToProto_def plain_result_def r_def)
  show ?thesis
    using r s i c a
    by (cases "r_Verified r") (simp_all add: response_texts_def verify_response_def r_def [symmetric] ascii_valid)
qed

subsection \<open>The texts of the deployed anchors\<close>

text \<open>The refreshers only write the names of their sources.\<close>

definition smt_names :: "string set" where "smt_names = {''onchain'', ''github''}"
definition cert_names :: "string set" where "cert_names = {''embedded'', ''https''}"

lemma FetchNow_source:
  "sourceUsed (snd (FetchNow smt_source_Name fetch now p)) = sourceUsed p
    \<or> sourceUsed (snd (FetchNow smt_source_Name fetch now p)) \<in> smt_names"
proof -
  have n: "smt_source_Name s \<in> smt_names" for s by (cases s) (simp_all add: smt_names_def)
  obtain e p' where "FetchNow smt_source_Name fetch now p = (e, p')" by fastforce
  with FetchNow_spec [OF this] n show ?thesis by (auto split: option.splits)
qed

interpretation smt_texts: trust_cache "\<lambda>p i. Some (sourceUsed p)" smt_tick "\<lambda>e. True" "\<lambda>i s. s \<in> smt_names"
proof
  fix e and p :: "smt_source Provider" and v :: string
  assume "Some (sourceUsed (smt_tick e p)) = Some v"
  then show "Some (sourceUsed p) = Some v \<or> v \<in> smt_names"
    using FetchNow_source [of "startup_fetch e" "be_smt_now e" p] unfolding smt_tick_def by auto
qed simp

lemma fetchOne_source: "SetCert t j rec \<in> set (snd (fetchOne cr emb f i src)) \<Longrightarrow> cr_Source rec \<in> cert_names"
  by (auto simp: fetchOne_def cert_names_def Let_def dest: parseAndValidate_Inr split: sum.splits if_splits)

interpretation cert_texts: trust_cache "\<lambda>q i. map_option cr_Source (Trusted_cert q i)" "cert_tick en" "\<lambda>e. True" "\<lambda>i s. s \<in> cert_names"
proof
  fix e q i v
  assume "map_option cr_Source (Trusted_cert (cert_tick en e q) i) = Some v"
  then obtain rec where r: "cp_certs (cert_tick en e q) i = Some rec" "v = cr_Source rec"
    by (auto simp: Trusted_cert_def)
  from FetchNow_cert_sets [OF r(1) [unfolded cert_tick_def]] fetchOne_source r(2)
  show "map_option cr_Source (Trusted_cert q i) = Some v \<or> v \<in> cert_names"
    by (auto simp: Trusted_cert_def)
next
  fix e q i
  assume "map_option cr_Source (Trusted_cert q i) \<noteq> None"
  then show "map_option cr_Source (Trusted_cert (cert_tick en e q) i) \<noteq> None"
    using deployed_cert.keeps_step [of q i en e] by simp
qed

text \<open>At start-up and after any refreshes, of which one may fall into the check of the root.\<close>

lemma refreshed_plain:
  assumes "server_main en disk = (Serving dp, disk')"
  shows "plain_anchors (Start smt_tick later_evs) (dp_verifier (refreshed en smt_evs cert_evs dp))"
  using assms
proof (rule server_main_Serving)
  fix provider issuerProvider
  assume b: "buildSmtRootProvider en = Inr provider" "buildIssuerCertProvider en = Inr issuerProvider"
    and v: "v_SmtRoot (dp_verifier dp) = provider" "v_IssuerCert (dp_verifier dp) = issuerProvider"
  have ticks: "sourceUsed (Start smt_tick evs p) \<in> smt_names" if "sourceUsed p \<in> smt_names" for evs p
    using smt_texts.loop_all_valid [of evs p] that by (simp add: Start_def)
  have s: "ascii (sourceUsed (Start smt_tick later_evs (Start smt_tick smt_evs p)))" if q: "provider = Some p" for p
  proof -
    obtain p0 where f: "FetchNow smt_source_Name (startup_fetch en) (be_smt_now en) p0 = (None, p)"
      using b(1) [unfolded q] by (auto simp: buildSmtRootProvider_def Let_def split: if_splits prod.splits option.splits)
    have "smt_source_Name x \<in> smt_names" for x by (cases x) (simp_all add: smt_names_def)
    with FetchNow_spec [OF f] have "sourceUsed p \<in> smt_names" by auto
    then have "sourceUsed (Start smt_tick later_evs (Start smt_tick smt_evs p)) \<in> smt_names" by (intro ticks)
    then show ?thesis by (auto simp: smt_names_def)
  qed
  have c: "ascii (cr_SHA256Hex rec) \<and> ascii (cr_Source rec)"
    if q: "issuerProvider = Some q" and t: "Trusted_cert (Start_cert (cert_tick en) cert_evs q) i = Some rec" for q i rec
  proof -
    from buildIssuerCertProvider_Some [OF b(2) [unfolded q]] have "good_certs en q" .
    from Start_good_certs [OF this] t have "trusted_cert (be_crypto en) (be_embedded en) i rec" by (simp add: good_certs_def)
    then have sha: "ascii (cr_SHA256Hex rec)" by (auto simp: trusted_cert_def valid_cert_def)
    obtain q0 srcs ri ft f where new: "NewProvider_cert (be_crypto en) (be_embedded en) (be_load_now en) (be_cert_now en) srcs ri ft = Inr q0"
      and step: "q = snd (FetchNow_cert (be_crypto en) (be_embedded en) f (be_cert_order en) (be_cert_picks en) q0)"
      using b(2) [unfolded q] by (auto simp: buildIssuerCertProvider_def Let_def split: if_splits prod.splits sum.splits) (metis snd_conv)
    have "\<forall>i rec. cp_certs q0 i = Some rec \<longrightarrow> cr_Source rec \<in> cert_names"
      using new
      by (auto simp: NewProvider_cert_def LoadEmbedded_def cert_names_def dest: parseAndValidate_Inr split: sum.splits if_splits)
    with FetchNow_cert_sets [of "be_crypto en" "be_embedded en" f "be_cert_order en" "be_cert_picks en" q0] fetchOne_source
    have "\<forall>i rec. cp_certs q i = Some rec \<longrightarrow> cr_Source rec \<in> cert_names" unfolding step by blast
    then have "\<forall>i v. map_option cr_Source (Trusted_cert q i) = Some v \<longrightarrow> v \<in> cert_names" by (auto simp: Trusted_cert_def)
    with cert_texts.loop_all_valid [OF _ this, of cert_evs en]
    have "\<forall>i v. map_option cr_Source (Trusted_cert (Start_cert (cert_tick en) cert_evs q) i) = Some v \<longrightarrow> v \<in> cert_names"
      unfolding Start_cert_def loop_cert_eq by (cases "cp_refresh q \<le> 0") simp_all
    moreover have "map_option cr_Source (Trusted_cert (Start_cert (cert_tick en) cert_evs q) i) = Some (cr_Source rec)" using t by simp
    ultimately have "cr_Source rec \<in> cert_names" by blast
    with sha show ?thesis by (auto simp: cert_names_def)
  qed
  show ?thesis using s c v by (auto simp: plain_anchors_def refreshed_def Let_def)
qed

lemma grpc_LinkVerify_cases:
  assumes "grpc_LinkVerify (grpc_server ev appID) req d = (ans, d')"
  obtains st where "ans = Inl st" "d' = d"
  | pt res where "ans = Inr (verify_response res)"
      "env_service ev \<lparr>rq_CertChainProof = gq_CertChainProof req, rq_UserSigProof = gq_UserSigProof req, rq_ProofType = pt\<rparr> d
         = ((Some res, None), d')"
proof (cases "gq_Challenge req = '''' \<or> gq_CertChainProof req = [] \<or> gq_UserSigProof req = []
    \<or> (\<exists>e. ParseProofType (gq_CertChainType req) = Inl e)")
  case True
  with assms have "(\<exists>st. ans = Inl st) \<and> d' = d" by (auto simp: grpc_LinkVerify_def split: if_splits)
  then show ?thesis using that(1) by blast
next
  case False
  then obtain pt where pt: "ParseProofType (gq_CertChainType req) = Inr pt" by (metis sum.exhaust)
  let ?rq = "\<lparr>rq_CertChainProof = gq_CertChainProof req, rq_UserSigProof = gq_UserSigProof req, rq_ProofType = pt\<rparr>"
  obtain result e d1 where o': "env_service ev ?rq d = ((result, e), d1)" by (metis prod.collapse)
  show ?thesis
  proof (cases e)
    case None
    with o' env_service_returns [of ev ?rq d] obtain res where "result = Some res" by (cases result) auto
    with o' None False pt assms show ?thesis
      by (intro that(2) [of res pt]) (auto simp: grpc_LinkVerify_def grpc_server_def NewServer_def)
  next
    case (Some er)
    with o' have "d1 = d" by (intro env_service_error [of ev ?rq d result er]) simp
    with o' Some False pt assms
    have "ans = Inl (mapServiceError er (case result of None \<Rightarrow> '''' | Some res \<Rightarrow> p_Nullifier res)) \<and> d' = d"
      by (cases result) (auto simp: grpc_LinkVerify_def grpc_server_def NewServer_def)
    then show ?thesis using that(1) by blast
  qed
qed

subsection \<open>A proof with a garbled application id\<close>

text \<open>Its 31 bytes are not UTF-8; root and challenge are well-formed, the modulus is not the issuer's.\<close>

definition garbled_id :: string where "garbled_id = replicate 31 (CHR 0xFF)"

definition garbled_packed :: string where
  "garbled_packed = Int_String (int (SetBytes (rev (bytes_of_string garbled_id))))"

definition garbled_signals :: PublicSignals where
  "garbled_signals = \<lparr>CertChain = ''0'' # zero_limbs @ [''0''], UserSig = [''0'', ''n'', garbled_packed, ''7'']\<rparr>"

definition garbled_call :: "smt_source env" where
  "garbled_call = (boot_call [] [])\<lparr>en_ffi :=
     \<lparr>zk_link_verify = (\<lambda>fs d t. \<lparr>ffi_ret = 1, ffi_last_error = [], ffi_last_signals = ''{}''\<rparr>),
      unmarshal_signals = (\<lambda>_. Some garbled_signals)\<rparr>\<rparr>"

definition garbled_message :: LinkVerifyMessage where
  "garbled_message = \<lparr>gq_Challenge = ''7'', gq_CertChainType = ''rs2048'', gq_CertChainProof = [1, 2], gq_UserSigProof = [3]\<rparr>"

lemma garbled_id_length: "length garbled_id = AppIDLen"
  by (simp add: garbled_id_def AppIDLen_def)

lemma garbled_id_invalid: "\<not> ValidString garbled_id"
proof -
  have "\<not> utf8_two (CHR 0xFF) b" "\<not> utf8_three (CHR 0xFF) b c" "\<not> utf8_four (CHR 0xFF) b c d" for b c d
    by (simp_all add: utf8_two_def utf8_three_def utf8_four_def)
  then have "\<not> ValidString (CHR 0xFF # s)" for s by (simp split: list.split)
  moreover have "garbled_id = CHR 0xFF # replicate 30 (CHR 0xFF)"
    using replicate_Suc [of 30 "CHR 0xFF"] by (simp add: garbled_id_def del: replicate_Suc)
  ultimately show ?thesis by metis
qed

lemma garbled_plain: "plain_signals (en_ffi garbled_call)"
proof -
  have "ascii garbled_packed" by (simp add: garbled_packed_def)
  then show ?thesis
    by (simp add: plain_signals_def garbled_call_def garbled_signals_def zero_limbs_def list_all_iff)
qed

subsection \<open>Properties\<close>

text \<open>C10: What the clients of a started server receive over gRPC, when the refreshers ran and one may run during
  the check.  A verification that changed the tables always reaches its client; the only answer that
  is lost is a refusal for an application id whose bytes are not UTF-8: the client gets an internal
  error of the runtime in place of the mismatch, and the tables are as before.\<close>

theorem grpc_delivery:
  assumes "server_main en disk = (Serving dp, disk')"
    and "ev' = ev\<lparr>en_ttl := dp_ttl dp, en_verifier := dp_verifier (refreshed en smt_evs cert_evs dp),
                  en_later := Start smt_tick later_evs\<rparr>"
    and "plain_signals (en_ffi ev)"
    and "\<And>m. marshals m \<longleftrightarrow> list_all ValidString (response_texts m)"
    and "grpc_call wire_size marshals (grpc_server ev' (dp_appID dp)) req d = (ans, d')"
  shows "case ans of
      Sent resp \<Rightarrow> (d' \<noteq> d \<longleftrightarrow> gl_Verified resp)
        \<and> (\<forall>x. gl_AppId resp = Some x \<longrightarrow> ValidString (gm_Observed x))
    | NotMarshalled \<Rightarrow> d' = d
        \<and> (\<exists>resp x. fst (grpc_LinkVerify (grpc_server ev' (dp_appID dp)) req d) = Inr resp \<and> \<not> gl_Verified resp
             \<and> gl_AppId resp = Some x \<and> \<not> gm_Match x \<and> \<not> ValidString (gm_Observed x))
    | _ \<Rightarrow> d' = d"
proof -
  have id: "v_ExpectedAppID (en_verifier ev') = dp_appID dp" "ValidString (dp_appID dp)"
    by (rule server_main_Serving [OF assms(1)]; simp add: assms(2))+
  have plain: "plain_anchors (en_later ev') (en_verifier ev')" "plain_signals (en_ffi ev')"
    using refreshed_plain [OF assms(1)] assms(2,3) by simp_all
  obtain r d1 where g: "grpc_LinkVerify (grpc_server ev' (dp_appID dp)) req d = (r, d1)" by fastforce
  show ?thesis
  proof (cases "maxRecvMsgSize < wire_size req")
    case True
    with assms(5) show ?thesis by (auto simp: grpc_call_def)
  next
    case False
    from g show ?thesis
    proof (cases rule: grpc_LinkVerify_cases)
      case (1 st)
      with False assms(5) g show ?thesis by (auto simp: grpc_call_def)
    next
      case (2 pt res)
      from env_service_plain [OF 2(2) plain] id have p: "plain_result (dp_appID dp) (p_Result res)" "ascii (p_Nullifier res)" by simp_all
      have v: "gl_Verified (verify_response res) \<longleftrightarrow> d1 \<noteq> d"
        using env_service_verified [OF 2(2)] by (simp add: verify_response_def Let_def)
      have a: "gl_AppId (verify_response res) = appIDOutcomeToProto (r_AppID (p_Result res))"
        by (simp add: verify_response_def Let_def)
      have m: "marshals (verify_response res) \<longleftrightarrow>
          (case r_AppID (p_Result res) of None \<Rightarrow> True | Some x \<Rightarrow> ValidString (ao_Observed x))"
        unfolding assms(4) by (rule response_texts_valid [OF p id(2)])
      show ?thesis
      proof (cases "marshals (verify_response res)")
        case True
        then have "ans = Sent (verify_response res)" "d' = d1" using False assms(5) g 2(1) by (simp_all add: grpc_call_def)
        with True m v a show ?thesis by (auto simp: appIDOutcomeToProto_def split: option.splits)
      next
        case nm: False
        then have ans: "ans = NotMarshalled" "d' = d1" using False assms(5) g 2(1) by (simp_all add: grpc_call_def)
        from nm m obtain x where x: "r_AppID (p_Result res) = Some x" "\<not> ValidString (ao_Observed x)"
          by (auto split: option.splits)
        with p(1) id(2) have "\<not> ao_Match x" "\<not> r_Verified (p_Result res)" by (auto simp: plain_result_def)
        with x a v ans g 2(1) show ?thesis
          by (auto simp: appIDOutcomeToProto_def verify_response_def Let_def)
      qed
    qed
  qed
qed

text \<open>The garbled id sent to the demonstration server.\<close>

lemma garbled_run:
  assumes v: "v_SmtRoot v = Some p" "v_IssuerCert v = Some q" "v_ExpectedAppID v = boot_app_id"
    and p: "Trusted p IssuerG2 = Some root" and q: "Trusted_cert q IssuerG2 = Some rec" "length (cr_Limbs rec) = 17"
  shows "\<exists>resp x. fst (grpc_LinkVerify (grpc_server (garbled_call\<lparr>en_ttl := ttl, en_verifier := v, en_later := later\<rparr>) appID)
      garbled_message demo_db) = Inr resp \<and> gl_AppId resp = Some x \<and> gm_Observed x = garbled_id"
proof -
  let ?ev = "garbled_call\<lparr>en_ttl := ttl, en_verifier := v, en_later := later\<rparr>"
  let ?parsed = "\<lparr>pi_PkCommit = ''0'', pi_Nullifier = ''n'', pi_AppID = garbled_id, pi_AppIDPacked = garbled_packed,
     pi_Challenge = ''7'', pi_IssuerRSAModulus = zero_limbs, pi_SmtRoot = ''0''\<rparr>"
  have i: "issuerForProofType (rq_ProofType demo_request) = IssuerG2"
    by (simp add: issuerForProofType_def demo_request_def ProofTypeRS2048_def ProofTypeRS4096_def)
  have "UnpackAppID garbled_packed = Inr garbled_id"
    by (simp add: UnpackAppID_Inr_iff garbled_packed_def garbled_id_length)
  then have ps: "ParsePublicInputs (Some garbled_signals) CertChainRS2048 = Inr ?parsed"
    by (simp add: ParsePublicInputs_Inr_iff garbled_signals_def zero_limbs_length limb_count_def
        CertChainRS2048_def CertChainRS4096_def)
  have f: "fst (Verify demo_os (en_ffi ?ev) demo_request (v_KeysDir v) Map.empty) = Inr (True, Some garbled_signals)"
    by (subst Verify_staged [of _ "''/tmp/zkid-linkverify-1''"])
      (simp_all add: demo_os_def LinkVerify_def lastSignals_def garbled_call_def)
  obtain sm where sm: "checkSmtRoot later 0 (rq_ProofType demo_request) ?parsed p = Inr sm"
    using p i mismatch_root(1) by (simp add: checkSmtRoot_def Let_def)
  obtain im where im: "checkIssuerModulus 0 (rq_ProofType demo_request) ?parsed q = Inr im"
    using q i by (simp add: checkIssuerModulus_def TrustedWithMeta_def Trusted_cert_def zero_limbs_length Let_def)
  obtain w where w: "Verify demo_os (en_ffi ?ev) demo_request (v_KeysDir v) Map.empty = (Inr (True, Some garbled_signals), w)"
    using f by (metis prod.collapse)
  obtain r where r: "Verifier_Verify demo_os (en_ffi ?ev) later 0 v demo_request Map.empty = (Inr r, w)"
      "r_AppID r = Some (checkAppID ?parsed boot_app_id)"
    using w ps sm im v demo_cert_chain_type
    by (simp add: Verifier_Verify_def cert_chain_type_def smt_check_def issuer_check_def app_id_check_eq Let_def
        boot_app_id_def)
  have "\<not> app_ok v ?parsed" using v(3) by (simp add: app_ok_def garbled_id_def boot_app_id_def)
  with Verifier_Verify_Inr [OF r(1)] f ps demo_cert_chain_type have nv: "\<not> r_Verified r" by simp
  have rq: "\<lparr>rq_CertChainProof = [1, 2], rq_UserSigProof = [3], rq_ProofType = ProofTypeRS2048\<rparr> = demo_request"
    by (simp add: demo_request_def)
  obtain res where "env_service ?ev demo_request demo_db = ((Some res, None), demo_db)" "p_Result res = r"
    using r(1) nv by (auto simp: env_service_def sqlite_service_def Service_VerifyAndRecord_def garbled_call_def boot_call_def)
  then show ?thesis
    using r(2) nv
    by (simp add: grpc_LinkVerify_def grpc_server_def NewServer_def garbled_message_def ParseProofType_def ProofTypeRS2048_def
        rq [unfolded ProofTypeRS2048_def] verify_response_def appIDOutcomeToProto_def checkAppID_def)
qed

theorem grpc_delivery_witness:
  "\<exists>dp disk' (ev' :: smt_source env). server_main boot_demo boot_disk = (Serving dp, disk')
    \<and> grpc_call (\<lambda>_. 100) (\<lambda>m. list_all ValidString (response_texts m)) (grpc_server ev' (dp_appID dp)) garbled_message demo_db
        = (NotMarshalled, demo_db)"
proof -
  obtain dp disk' where s: "server_main boot_demo boot_disk = (Serving dp, disk')" using boot_demo_starts by blast
  let ?v = "dp_verifier (refreshed boot_demo [] [] dp)"
  let ?ev = "garbled_call\<lparr>en_ttl := dp_ttl dp, en_verifier := ?v, en_later := Start smt_tick []\<rparr>"
  let ?ok = "\<lambda>m. list_all ValidString (response_texts m)"
  from refreshed_anchored [OF s boot_demo_enforced(3), of "[]" "[]"] boot_demo_enforced obtain p q where
    p: "v_SmtRoot ?v = Some p" "good_roots p" and q: "v_IssuerCert ?v = Some q" "good_certs boot_demo q"
    by (auto simp: anchored_def split: option.splits)
  have a: "v_ExpectedAppID ?v = boot_app_id"
    by (rule server_main_Serving [OF s]) (simp add: boot_demo_def)
  obtain root where root: "Trusted p IssuerG2 = Some root"
    using p(2) unfolding good_roots_def set_AllIssuers by blast
  obtain rec where rec: "Trusted_cert q IssuerG2 = Some rec" "length (cr_Limbs rec) = 17"
    using q(2) trusted_G2_limbs unfolding good_certs_def set_AllIssuers by blast
  obtain resp x where g: "fst (grpc_LinkVerify (grpc_server ?ev (dp_appID dp)) garbled_message demo_db) = Inr resp"
    "gl_AppId resp = Some x" "gm_Observed x = garbled_id"
    using garbled_run [OF p(1) q(1) a root rec] by blast
  obtain ans d' where c: "grpc_call (\<lambda>_. 100) ?ok (grpc_server ?ev (dp_appID dp)) garbled_message demo_db = (ans, d')" by fastforce
  note d = grpc_delivery [OF s refl garbled_plain refl c]
  have "ans = Sent resp \<or> ans = NotMarshalled"
    using c g(1) by (auto simp: grpc_call_def maxRecvMsgSize_def split: prod.splits if_splits)
  then have "ans = NotMarshalled" using d g(2,3) garbled_id_invalid by auto
  with d have "d' = demo_db" by simp
  with c \<open>ans = NotMarshalled\<close>
  have "grpc_call (\<lambda>_. 100) ?ok (grpc_server ?ev (dp_appID dp)) garbled_message demo_db = (NotMarshalled, demo_db)" by simp
  with s show ?thesis by (intro exI conjI)
qed

end
