(* ===== verification/Api_Types.thy ===== *)
theory Api_Types
  imports Server_Main
begin

text \<open>
  The types of the replies of the REST API.  The README documents per route which status carries which
  body; here a body type is a datatype, \<open>has_type\<close> its typing relation on the JSON values of
  \<open>httpapi\<close>, and \<open>schema\<close> the documented bodies of a route and status.  The property is type
  soundness of the router: every reply is of the type that its route and status promise, whatever the
  request, the database, the verifier and the trust anchors do.
\<close>

subsection \<open>Types of bodies\<close>

text \<open>
  \<open>TEnum\<close> is a string out of a list, \<open>TIs\<close> a fixed boolean.  The fields of a struct come in order and
  those of a map in any; a field that is not required may be missing.
\<close>

datatype jtype =
    TString
  | TEnum "string list"
  | TIs bool
  | TBool
  | TInt
  | TTime
  | TError
  | TList jtype
  | TRecord "(string \<times> bool \<times> jtype) list"
  | TDict "(string \<times> bool \<times> jtype) list"
  | TMap jtype

inductive has_type :: "json \<Rightarrow> jtype \<Rightarrow> bool"
  and has_fields :: "(string \<times> json) list \<Rightarrow> (string \<times> bool \<times> jtype) list \<Rightarrow> bool" where
  ty_string: "has_type (JString s) TString"
| ty_enum: "s \<in> set ss \<Longrightarrow> has_type (JString s) (TEnum ss)"
| ty_is: "has_type (JBool b) (TIs b)"
| ty_bool: "has_type (JBool b) TBool"
| ty_int: "has_type (JInt i) TInt"
| ty_time: "has_type (JTime t) TTime"
| ty_error: "has_type (JError e) TError"
| ty_list: "(\<And>v. v \<in> set vs \<Longrightarrow> has_type v t) \<Longrightarrow> has_type (JList vs) (TList t)"
| ty_record: "has_fields kvs fs \<Longrightarrow> has_type (JObject kvs) (TRecord fs)"
| ty_dict: "(\<And>k v. m k = Some v \<Longrightarrow> \<exists>q t. (k, q, t) \<in> set fs \<and> has_type v t) \<Longrightarrow>
     (\<And>k t. (k, True, t) \<in> set fs \<Longrightarrow> m k \<noteq> None) \<Longrightarrow> has_type (JMap m) (TDict fs)"
| ty_map: "(\<And>k v. m k = Some v \<Longrightarrow> has_type v t) \<Longrightarrow> has_type (JMap m) (TMap t)"
| no_fields: "has_fields [] []"
| field: "has_type v t \<Longrightarrow> has_fields kvs fs \<Longrightarrow> has_fields ((k, v) # kvs) ((k, q, t) # fs)"
| omitted: "has_fields kvs fs \<Longrightarrow> has_fields kvs ((k, False, t) # fs)"

inductive_simps has_type_simps [simp]:
  "has_type v TString" "has_type v (TEnum ss)" "has_type v (TIs b)" "has_type v TBool" "has_type v TInt" "has_type v TTime"
  "has_type v TError" "has_type v (TList t)" "has_type v (TRecord fs)" "has_type v (TMap t)"

inductive_simps has_type_dict: "has_type v (TDict fs)"

text \<open>The fields a struct writes, required or by \<open>omitempty\<close>.\<close>

lemma required_field [intro!]: "has_type v t \<Longrightarrow> has_fields kvs fs \<Longrightarrow> has_fields ((k, v) # kvs) ((k, True, t) # fs)"
  by (rule field)

lemma omit_bool_field [intro!]: "b \<Longrightarrow> has_fields kvs fs \<Longrightarrow> has_fields (omit_bool k b @ kvs) ((k, True, TIs True) # fs)"
  by (auto simp: omit_bool_def intro: field)

lemma omit_string_field [intro!]:
  "has_fields kvs fs \<Longrightarrow> has_fields (omit_string k s @ kvs) ((k, False, TString) # fs)"
  by (auto simp: omit_string_def intro: field omitted)

lemma omit_string_required [intro!]:
  "s \<noteq> '''' \<Longrightarrow> has_type (JString s) t \<Longrightarrow> has_fields kvs fs \<Longrightarrow> has_fields (omit_string k s @ kvs) ((k, True, t) # fs)"
  by (auto simp: omit_string_def intro: field)

lemma omit_ptr_field [intro!]:
  "(\<And>x. p = Some x \<Longrightarrow> has_type (enc x) t) \<Longrightarrow> has_fields kvs fs \<Longrightarrow>
     has_fields (omit_ptr k enc p @ kvs) ((k, False, t) # fs)"
  by (cases p) (auto simp: omit_ptr_def intro: field omitted)

lemma omit_ptr_required [intro!]:
  "p \<noteq> None \<Longrightarrow> (\<And>x. p = Some x \<Longrightarrow> has_type (enc x) t) \<Longrightarrow> has_fields kvs fs \<Longrightarrow>
     has_fields (omit_ptr k enc p @ kvs) ((k, True, t) # fs)"
  by (cases p) (auto simp: omit_ptr_def intro: field)

lemma omit_ptr_last [intro!]:
  "(\<And>x. p = Some x \<Longrightarrow> has_type (enc x) t) \<Longrightarrow> has_fields (omit_ptr k enc p) [(k, False, t)]"
  using omit_ptr_field [of p enc t "[]" "[]" k] by (simp add: no_fields)

lemma omit_ptr_last_required [intro!]:
  "p \<noteq> None \<Longrightarrow> (\<And>x. p = Some x \<Longrightarrow> has_type (enc x) t) \<Longrightarrow> has_fields (omit_ptr k enc p) [(k, True, t)]"
  using omit_ptr_required [of p enc t "[]" "[]" k] by (simp add: no_fields)

declare no_fields [intro!]

lemma strings_type: "has_type (json_strings ss) (TList TString)"
  by (auto simp: json_strings_def)

subsection \<open>The documented bodies\<close>

definition error_type :: jtype where "error_type = TDict [(''error'', True, TString)]"

definition duplicate_type :: jtype where
  "duplicate_type = TDict [(''error'', True, TString), (''nullifier'', True, TString)]"

definition challenge_type :: jtype where
  "challenge_type = TRecord [(''challenge'', True, TString), (''app_id'', True, TString), (''expires_at'', True, TTime)]"

text \<open>The outcome of a check; its \<open>match\<close> has the type \<open>m\<close>.\<close>

definition match_type :: "jtype \<Rightarrow> jtype" where
  "match_type m = TRecord [(''match'', True, m), (''expected'', True, TString), (''observed'', True, TString)]"

definition smt_outcome_type :: "jtype \<Rightarrow> jtype" where
  "smt_outcome_type m = TRecord [(''issuer'', True, TString), (''match'', True, m), (''expected'', True, TString),
     (''observed'', True, TString), (''trust_source'', False, TString), (''trusted_at'', True, TTime)]"

definition issuer_outcome_type :: "jtype \<Rightarrow> jtype" where
  "issuer_outcome_type m = TRecord [(''issuer'', True, TString), (''match'', True, m),
     (''expected_sha256'', True, TString), (''trust_source'', False, TString), (''trusted_at'', True, TTime)]"

definition signals_type :: jtype where
  "signals_type = TRecord [(''cert_chain'', True, TList TString), (''user_sig'', True, TList TString)]"

definition inputs_type :: jtype where
  "inputs_type = TRecord [(''pk_commit'', True, TString), (''nullifier'', True, TString), (''app_id'', True, TString),
     (''app_id_packed'', True, TString), (''challenge'', True, TString),
     (''issuer_rsa_modulus'', True, TList TString), (''smt_root'', True, TString)]"

text \<open>The block of a check is present whenever the check ran; in a success every check matched.\<close>

definition success_type :: jtype where
  "success_type = TRecord [(''verified'', True, TIs True), (''nullifier'', True, TString), (''id_verified'', True, TIs True),
     (''persisted'', True, TIs True), (''public_signals'', True, signals_type), (''parsed_inputs'', True, inputs_type),
     (''smt_root'', False, smt_outcome_type (TIs True)), (''issuer_modulus'', False, issuer_outcome_type (TIs True)),
     (''app_id'', False, match_type (TIs True)), (''challenge'', True, match_type (TIs True))]"

definition invalid_type :: jtype where
  "invalid_type = TRecord [(''verified'', True, TIs False), (''reason'', True, TEnum [ReasonProofInvalid])]"

text \<open>Only the first failing check gives the reason; later blocks still report their outcome.\<close>

definition smt_mismatch_type :: jtype where
  "smt_mismatch_type = TRecord [(''verified'', True, TIs False), (''reason'', True, TEnum [ReasonSmtRootMismatch]),
     (''smt_root'', True, smt_outcome_type (TIs False)), (''issuer_modulus'', False, issuer_outcome_type TBool),
     (''app_id'', False, match_type TBool)]"

definition issuer_mismatch_type :: jtype where
  "issuer_mismatch_type = TRecord [(''verified'', True, TIs False), (''reason'', True, TEnum [ReasonIssuerModulusMismatch]),
     (''smt_root'', False, smt_outcome_type (TIs True)), (''issuer_modulus'', True, issuer_outcome_type (TIs False)),
     (''app_id'', False, match_type TBool)]"

definition app_id_mismatch_type :: jtype where
  "app_id_mismatch_type = TRecord [(''verified'', True, TIs False), (''reason'', True, TEnum [ReasonAppIDMismatch]),
     (''smt_root'', False, smt_outcome_type (TIs True)), (''issuer_modulus'', False, issuer_outcome_type (TIs True)),
     (''app_id'', True, match_type (TIs False))]"

definition attempt_type :: jtype where
  "attempt_type = TRecord [(''count'', True, TInt), (''last_latency_ms'', True, TInt), (''last_err'', False, TError)]"

definition smt_status_type :: jtype where
  "smt_status_type = TRecord [(''source_used'', True, TString), (''roots'', True, TMap TString), (''updated_at'', True, TTime),
     (''last_attempt_at'', True, TTime), (''last_error'', False, TError), (''consecutive_fail'', True, TInt),
     (''cache_age_seconds'', True, TInt), (''attempts'', True, TMap attempt_type)]"

definition cert_type :: jtype where
  "cert_type = TRecord [(''issuer'', True, TString), (''sha256'', True, TString), (''subject'', True, TString),
     (''not_before'', True, TTime), (''not_after'', True, TTime), (''source'', True, TString), (''fetched_at'', True, TTime),
     (''modulus_bits'', True, TInt)]"

definition cert_status_type :: jtype where
  "cert_status_type = TRecord [(''certs'', True, TMap cert_type), (''updated_at'', True, TTime), (''last_attempt_at'', True, TTime),
     (''last_error'', False, TError), (''consecutive_fail'', True, TInt), (''cache_age_seconds'', True, TInt),
     (''attempts'', True, TMap attempt_type)]"

definition enforced_types :: "jtype \<Rightarrow> jtype list" where
  "enforced_types st = [TDict [(''enforced'', True, TIs False)], TDict [(''enforced'', True, TIs True), (''status'', True, st)]]"

definition deleted_type :: jtype where
  "deleted_type = TDict [(''challenges_deleted'', True, TInt), (''verifications_deleted'', True, TInt)]"

lemmas outcome_types = match_type_def smt_outcome_type_def issuer_outcome_type_def signals_type_def inputs_type_def

text \<open>The bodies a route may answer with, by status.\<close>

fun schema :: "handler \<Rightarrow> nat \<Rightarrow> jtype list" where
  "schema HCreate code =
     (if code = 200 then [challenge_type] else if code = 500 then [error_type] else [])"
| "schema HGet code =
     (if code = 200 then [challenge_type] else if code \<in> {400, 404, 500} then [error_type] else [])"
| "schema HLinkVerify code =
     (if code = 200 then [success_type, invalid_type]
      else if code = 409 then [smt_mismatch_type, issuer_mismatch_type, app_id_mismatch_type, duplicate_type]
      else if code \<in> {400, 404, 410, 500, 503} then [error_type] else [])"
| "schema HSmtStatus code = (if code = 200 then enforced_types smt_status_type else [])"
| "schema HCertStatus code = (if code = 200 then enforced_types cert_status_type else [])"
| "schema HCleanDB code =
     (if code = 200 then [deleted_type] else if code \<in> {401, 500} then [error_type] else [])"

text \<open>The route of a request.\<close>

definition route :: "('s, 'p) server \<Rightarrow> request \<Rightarrow> handler option" where
  "route sv r = map_option (\<lambda>(m, p, h). h)
     (List.find (\<lambda>(m, p, h). match_path p (hq_Path r) \<and> match_method m (hq_Method r)) (NewRouter sv))"

definition json_typed :: "handler \<Rightarrow> http_reply \<Rightarrow> bool" where
  "json_typed h reply \<longleftrightarrow> re_Headers reply = [''Content-Type'' \<mapsto> ''application/json'']
     \<and> list_ex (has_type (re_Body reply)) (schema h (re_Status reply))"

lemma find_filter: "List.find Q (filter P xs) = List.find (\<lambda>x. P x \<and> Q x) xs"
  by (induction xs) auto

lemma serve_route:
  "serve decode now sv r s =
     (case route sv r of
        Some h \<Rightarrow> handle decode now sv h r s
      | None \<Rightarrow>
          let here = filter (\<lambda>(m, p, h). match_path p (hq_Path r)) (NewRouter sv) in
          (if here = [] then text_reply Map.empty 404 ''404 page not found''
           else text_reply [''Allow'' \<mapsto> comma_separated (allowed_methods here)] 405 ''Method Not Allowed'', s))"
  by (auto simp: serve_def route_def find_filter case_prod_unfold Let_def split: option.split)

subsection \<open>Errors, challenges, anchors\<close>

lemma jsonError_typed [simp]: "has_type (re_Body (jsonError msg code)) error_type" "re_Status (jsonError msg code) = code"
  by (auto simp: jsonError_def json_reply_def error_type_def has_type_dict)

lemma challenge_typed: "has_type (json_ChallengeResponse c) challenge_type"
  by (auto simp: json_ChallengeResponse_def challenge_type_def)

lemma attempt_typed: "has_type (json_AttemptStat a) attempt_type"
  by (auto simp: json_AttemptStat_def attempt_type_def)

lemma smt_status_typed: "has_type (json_Status st) smt_status_type"
  by (auto simp: json_Status_def smt_status_type_def attempt_typed)

lemma cert_typed: "has_type (json_CertStatus c) cert_type"
  by (auto simp: json_CertStatus_def cert_type_def)

lemma cert_status_typed: "has_type (json_CertsStatus st) cert_status_type"
  by (auto simp: json_CertsStatus_def cert_status_type_def attempt_typed cert_typed)

subsection \<open>The outcomes of a result\<close>

text \<open>
  Every outcome before the failing check says match, the failing one says mismatch, a verified result
  has only matches and its parsed inputs, and an invalid proof has no outcomes.
\<close>

definition smt_matches :: "Result \<Rightarrow> bool" where
  "smt_matches r \<longleftrightarrow> (\<forall>x. r_SmtRoot r = Some x \<longrightarrow> sr_Match x)"

definition issuer_matches :: "Result \<Rightarrow> bool" where
  "issuer_matches r \<longleftrightarrow> (\<forall>x. r_IssuerModulus r = Some x \<longrightarrow> im_Match x)"

definition app_matches :: "Result \<Rightarrow> bool" where
  "app_matches r \<longleftrightarrow> (\<forall>x. r_AppID r = Some x \<longrightarrow> ao_Match x)"

definition well_reasoned :: "Result \<Rightarrow> bool" where
  "well_reasoned r \<longleftrightarrow>
     (if r_Verified r
      then r_Reason r = '''' \<and> r_Signals r \<noteq> None \<and> r_Parsed r \<noteq> None \<and> smt_matches r \<and> issuer_matches r \<and> app_matches r
      else r_Challenge r = None
        \<and> (r_Reason r = ReasonProofInvalid \<and> r_SmtRoot r = None \<and> r_IssuerModulus r = None \<and> r_AppID r = None
           \<or> r_Reason r = ReasonSmtRootMismatch \<and> (\<exists>x. r_SmtRoot r = Some x \<and> \<not> sr_Match x)
           \<or> r_Reason r = ReasonIssuerModulusMismatch \<and> smt_matches r \<and> (\<exists>x. r_IssuerModulus r = Some x \<and> \<not> im_Match x)
           \<or> r_Reason r = ReasonAppIDMismatch \<and> smt_matches r \<and> issuer_matches r \<and> (\<exists>x. r_AppID r = Some x \<and> \<not> ao_Match x)))"

lemmas outcome_defs = smt_matches_def issuer_matches_def app_matches_def

lemma ParsePublicInputs_signals: "ParsePublicInputs sg t = Inr parsed \<Longrightarrow> sg \<noteq> None"
  by (cases sg) (simp_all add: ParsePublicInputs_def)

text \<open>What each check leaves.\<close>

lemma smt_check_leaves:
  assumes "smt_check later now v req parsed (new_result True '''' sg (Some parsed)) = Inr res"
  shows "r_Signals res = sg \<and> r_Parsed res = Some parsed \<and> r_IssuerModulus res = None \<and> r_AppID res = None \<and> r_Challenge res = None
    \<and> (if r_Verified res then r_Reason res = '''' \<and> smt_matches res
       else r_Reason res = ReasonSmtRootMismatch \<and> (\<exists>x. r_SmtRoot res = Some x \<and> \<not> sr_Match x))"
  using assms
  by (auto simp: smt_check_def new_result_def outcome_defs Let_def split: option.splits sum.splits if_splits)

lemma issuer_check_leaves:
  assumes "issuer_check now v req parsed res = Inr res'" "r_IssuerModulus res = None" "r_Verified res \<longleftrightarrow> r_Reason res = ''''"
  shows "r_Signals res' = r_Signals res \<and> r_Parsed res' = r_Parsed res \<and> r_SmtRoot res' = r_SmtRoot res \<and> r_AppID res' = r_AppID res
    \<and> r_Challenge res' = r_Challenge res
    \<and> (if \<not> r_Verified res then \<not> r_Verified res' \<and> r_Reason res' = r_Reason res
       else if r_Verified res' then r_Reason res' = '''' \<and> issuer_matches res'
       else r_Reason res' = ReasonIssuerModulusMismatch \<and> (\<exists>x. r_IssuerModulus res' = Some x \<and> \<not> im_Match x))"
  using assms
  by (auto simp: issuer_check_def outcome_defs Let_def split: option.splits sum.splits if_splits)

lemma app_id_check_leaves:
  assumes "r_AppID res = None" "r_Verified res \<longleftrightarrow> r_Reason res = ''''"
  shows "r_Signals (app_id_check v parsed res) = r_Signals res \<and> r_Parsed (app_id_check v parsed res) = r_Parsed res
    \<and> r_SmtRoot (app_id_check v parsed res) = r_SmtRoot res \<and> r_IssuerModulus (app_id_check v parsed res) = r_IssuerModulus res
    \<and> r_Challenge (app_id_check v parsed res) = r_Challenge res
    \<and> (if \<not> r_Verified res then \<not> r_Verified (app_id_check v parsed res) \<and> r_Reason (app_id_check v parsed res) = r_Reason res
       else if r_Verified (app_id_check v parsed res)
       then r_Reason (app_id_check v parsed res) = '''' \<and> app_matches (app_id_check v parsed res)
       else r_Reason (app_id_check v parsed res) = ReasonAppIDMismatch
         \<and> (\<exists>x. r_AppID (app_id_check v parsed res) = Some x \<and> \<not> ao_Match x))"
  using assms by (auto simp: app_id_check_def outcome_defs Let_def)

lemma Verifier_well_reasoned:
  assumes "Verifier_Verify osv ff later now v req fs0 = (Inr r, fs1)"
  shows "well_reasoned r"
proof -
  obtain w fs2 where w: "Verify osv ff req (v_KeysDir v) fs0 = (w, fs2)" by fastforce
  with assms obtain ok sg where b: "w = Inr (ok, sg)" by (cases w) (auto simp: Verifier_Verify_def)
  show ?thesis
  proof (cases ok)
    case False
    with assms w b have "r = new_result False ReasonProofInvalid sg None" by (simp add: Verifier_Verify_def)
    then show ?thesis by (simp add: well_reasoned_def new_result_def)
  next
    case True
    from assms w b True obtain parsed res1 res2 where
      p: "ParsePublicInputs sg (cert_chain_type (rq_ProofType req)) = Inr parsed"
      and c1: "smt_check later now v req parsed (new_result True '''' sg (Some parsed)) = Inr res1"
      and c2: "issuer_check now v req parsed res1 = Inr res2" and r: "r = app_id_check v parsed res2"
      by (auto simp: Verifier_Verify_def cert_chain_type_def Let_def split: sum.splits)
    note l1 = smt_check_leaves [OF c1]
    have v1: "r_Verified res1 \<longleftrightarrow> r_Reason res1 = ''''" using l1 by (auto simp: reason_defs split: if_splits)
    note l2 = issuer_check_leaves [OF c2 conjunct1 [OF conjunct2 [OF conjunct2 [OF l1]]] v1]
    have v2: "r_Verified res2 \<longleftrightarrow> r_Reason res2 = ''''" using l1 l2 by (auto simp: reason_defs split: if_splits)
    have a: "r_AppID res2 = None" using l1 l2 by simp
    note l3 = app_id_check_leaves [OF a v2, of v parsed]
    have s: "r_Signals r \<noteq> None" "r_Parsed r \<noteq> None" "r_Challenge r = None" "r_SmtRoot r = r_SmtRoot res1"
      "r_IssuerModulus r = r_IssuerModulus res2"
      using l1 l2 l3 ParsePublicInputs_signals [OF p] by (simp_all add: r)
    show ?thesis
    proof (cases "r_Verified res1")
      case f1: False
      then have "\<not> r_Verified r" "r_Reason r = ReasonSmtRootMismatch" using l1 l2 l3 by (simp_all add: r)
      with s f1 l1 show ?thesis by (simp add: well_reasoned_def)
    next
      case t1: True
      then have m1: "smt_matches r" using l1 s(4) by (simp add: smt_matches_def)
      show ?thesis
      proof (cases "r_Verified res2")
        case f2: False
        then have "\<not> r_Verified r" "r_Reason r = ReasonIssuerModulusMismatch" using t1 l2 l3 by (simp_all add: r)
        with s f2 t1 l2 m1 show ?thesis by (simp add: well_reasoned_def)
      next
        case t2: True
        then have m2: "issuer_matches r" using t1 l2 s(5) by (simp add: issuer_matches_def)
        from l3 t2 s m1 m2 show ?thesis
          by (cases "r_Verified r") (simp_all add: well_reasoned_def r [symmetric])
      qed
    qed
  qed
qed

lemma env_service_reasoned:
  assumes "env_service ev req d = ((Some res, None), d')"
  shows "well_reasoned (p_Result res)
    \<and> (r_Verified (p_Result res) \<longrightarrow> (\<exists>x. r_Challenge (p_Result res) = Some x \<and> co_Match x))"
proof -
  obtain r fs1 where v: "Verifier_Verify (en_os ev) (en_ffi ev) (en_later ev) (en_check ev) (en_verifier ev) req (en_fs ev) = (Inr r, fs1)"
    using assms
    by (cases "Verifier_Verify (en_os ev) (en_ffi ev) (en_later ev) (en_check ev) (en_verifier ev) req (en_fs ev)")
      (auto simp: env_service_def sqlite_service_def Service_VerifyAndRecord_def split: sum.splits)
  have w: "well_reasoned r" by (rule Verifier_well_reasoned [OF v])
  have "Service_VerifyAndRecord CheckChallenge (\<lambda>c. GetChallenge (en_lookup ev) c (en_seen ev))
      (VerifyAndRecord (en_record ev) (en_now2 ev)) (en_now1 ev) (Inr r) req d = ((Some res, None), d')"
    using assms v by (simp add: env_service_def sqlite_service_def)
  then show ?thesis
  proof (cases rule: Service_ok)
    case (rejected r')
    with w show ?thesis by simp
  next
    case (mismatch r' k)
    then show ?thesis by (simp add: CheckChallenge_def ConstantTimeCompare_def Let_def)
  next
    case (recorded r' k c)
    with w show ?thesis by (auto simp: well_reasoned_def outcome_defs)
  qed
qed

subsection \<open>The bodies of link verification\<close>

lemma match_typed:
  "has_type (JBool (ao_Match x)) m \<Longrightarrow> has_type (json_AppIDOutcome x) (match_type m)"
  "has_type (JBool (co_Match y)) m \<Longrightarrow> has_type (json_ChallengeOutcome y) (match_type m)"
  by (auto simp: json_AppIDOutcome_def json_ChallengeOutcome_def match_type_def)

lemma smt_outcome_typed: "has_type (JBool (sr_Match x)) m \<Longrightarrow> has_type (json_SmtRootOutcome x) (smt_outcome_type m)"
  by (auto simp: json_SmtRootOutcome_def smt_outcome_type_def)

lemma issuer_outcome_typed: "has_type (JBool (im_Match x)) m \<Longrightarrow> has_type (json_IssuerModulusOutcome x) (issuer_outcome_type m)"
  by (auto simp: json_IssuerModulusOutcome_def issuer_outcome_type_def)

lemma signals_typed: "has_type (json_PublicSignals sg) signals_type"
  by (auto simp: json_PublicSignals_def signals_type_def json_strings_def)

lemma inputs_typed: "has_type (json_ParsedInputs p) inputs_type"
  by (auto simp: json_ParsedInputs_def inputs_type_def json_strings_def)

lemmas body_typed = match_typed smt_outcome_typed issuer_outcome_typed signals_typed inputs_typed

lemma no_more_fields: "has_fields [] [] \<Longrightarrow> has_fields (omit_ptr k enc None) []"
  by (simp add: omit_ptr_def)

lemma success_typed:
  assumes "r_Verified r" "well_reasoned r" "\<exists>x. r_Challenge r = Some x \<and> co_Match x"
  shows "has_type (json_VerifySuccessResponse
     \<lparr>vs_Verified = True, vs_Nullifier = n, vs_IDVerified = True, vs_Persisted = True, vs_PublicSignals = r_Signals r,
      vs_ParsedInputs = r_Parsed r, vs_SmtRoot = r_SmtRoot r, vs_IssuerModulus = r_IssuerModulus r, vs_AppID = r_AppID r,
      vs_Challenge = r_Challenge r\<rparr>) success_type"
  using assms
  by (auto simp: json_VerifySuccessResponse_def success_type_def well_reasoned_def outcome_defs intro!: body_typed)

lemma fail_typed:
  assumes "\<not> r_Verified r" "well_reasoned r"
  shows "list_ex (has_type (json_VerifyFailResponse
     \<lparr>vf_Verified = False, vf_Reason = r_Reason r, vf_SmtRoot = r_SmtRoot r, vf_IssuerModulus = r_IssuerModulus r,
      vf_AppID = r_AppID r, vf_Challenge = r_Challenge r\<rparr>)) (schema HLinkVerify (fail_status (r_Reason r)))"
  (is "list_ex (has_type ?body) _")
proof -
  have c: "r_Challenge r = None" using assms by (simp add: well_reasoned_def)
  consider (invalid) "r_Reason r = ReasonProofInvalid" "r_SmtRoot r = None" "r_IssuerModulus r = None" "r_AppID r = None"
    | (smt) x where "r_Reason r = ReasonSmtRootMismatch" "r_SmtRoot r = Some x" "\<not> sr_Match x"
    | (issuer) x where "r_Reason r = ReasonIssuerModulusMismatch" "smt_matches r" "r_IssuerModulus r = Some x" "\<not> im_Match x"
    | (app) x where "r_Reason r = ReasonAppIDMismatch" "smt_matches r" "issuer_matches r" "r_AppID r = Some x" "\<not> ao_Match x"
    using assms by (auto simp: well_reasoned_def)
  then show ?thesis
  proof cases
    case invalid
    then have "has_type ?body invalid_type"
      by (auto simp: json_VerifyFailResponse_def invalid_type_def omit_ptr_def omit_string_def c reason_defs)
    with invalid show ?thesis by (simp add: fail_status_def reason_defs)
  next
    case smt
    then have "has_type ?body smt_mismatch_type"
      by (auto simp: json_VerifyFailResponse_def smt_mismatch_type_def omit_ptr_def [of _ json_ChallengeOutcome] c reason_defs
          intro!: body_typed)
    with smt show ?thesis by (simp add: fail_status_def)
  next
    case issuer
    then have "has_type ?body issuer_mismatch_type"
      by (auto simp: json_VerifyFailResponse_def issuer_mismatch_type_def omit_ptr_def [of _ json_ChallengeOutcome] c reason_defs
          outcome_defs intro!: body_typed)
    with issuer show ?thesis by (simp add: fail_status_def)
  next
    case app
    then have "has_type ?body app_id_mismatch_type"
      by (auto simp: json_VerifyFailResponse_def app_id_mismatch_type_def omit_ptr_def [of _ json_ChallengeOutcome] c reason_defs
          outcome_defs intro!: body_typed)
    with app show ?thesis by (simp add: fail_status_def)
  qed
qed

lemma writeStoreError_typed:
  assumes "err_is e ErrChallengeExpired \<or> err_is e ErrChallengeConsumed \<or> err_is e ErrDuplicateNullifier"
    "\<not> err_is e ErrChallengeNotFound"
  shows "json_typed HLinkVerify (writeStoreError e n)"
proof (cases "err_is e ErrDuplicateNullifier")
  case True
  have "has_type (JMap [''error'' \<mapsto> JString ''nullifier already registered'', ''nullifier'' \<mapsto> JString n]) duplicate_type"
    by (auto simp: duplicate_type_def has_type_dict)
  with True show ?thesis by (simp add: json_typed_def writeStoreError_def json_reply_def)
next
  case False
  with assms show ?thesis by (auto simp: json_typed_def writeStoreError_def)
qed

lemma linkVerify_error_typed: "json_typed HLinkVerify (linkVerify_error e result)"
proof (cases "err_is e ErrChallengeNotFound \<or> err_is e ErrSmtRootUnavailable \<or> err_is e ErrIssuerCertUnavailable
    \<or> \<not> (err_is e ErrChallengeExpired \<or> err_is e ErrChallengeConsumed \<or> err_is e ErrDuplicateNullifier)")
  case True
  then show ?thesis by (auto simp: json_typed_def linkVerify_error_def Let_def)
next
  case False
  then have "linkVerify_error e result = writeStoreError e (case result of None \<Rightarrow> '''' | Some res \<Rightarrow> p_Nullifier res)"
    by (auto simp: linkVerify_error_def)
  with False writeStoreError_typed show ?thesis by auto
qed

lemma linkVerify_typed: "json_typed HLinkVerify (fst (linkVerify decode (env_service ev) body d))"
proof -
  obtain reply d' where l: "linkVerify decode (env_service ev) body d = (reply, d')" by fastforce
  then have "json_typed HLinkVerify reply"
  proof (cases rule: linkVerify_cases)
    case (refused msg)
    then show ?thesis by (simp add: json_typed_def)
  next
    case (served req out)
    obtain result e where out: "out = (result, e)" by fastforce
    show ?thesis
    proof (cases e)
      case (Some er)
      with served out have "reply = linkVerify_error er result" by (cases result) (simp_all add: answer_def)
      then show ?thesis by (simp add: linkVerify_error_typed)
    next
      case None
      with served out env_service_returns [of ev req d] obtain res where res: "result = Some res" by (cases result) auto
      with served out None have r: "reply = linkVerify_result res" and s: "env_service ev req d = ((Some res, None), d')"
        by (simp_all add: answer_def)
      from env_service_reasoned [OF s] have w: "well_reasoned (p_Result res)"
        and c: "r_Verified (p_Result res) \<Longrightarrow> \<exists>x. r_Challenge (p_Result res) = Some x \<and> co_Match x" by auto
      show ?thesis
      proof (cases "r_Verified (p_Result res)")
        case True
        with success_typed [OF True w c [OF True]] show ?thesis
          unfolding r by (simp add: json_typed_def linkVerify_result_def json_reply_def Let_def)
      next
        case False
        with fail_typed [OF False w] show ?thesis
          unfolding r by (simp add: json_typed_def linkVerify_result_def json_reply_def Let_def del: schema.simps)
      qed
    qed
  qed
  with l show ?thesis by simp
qed

lemma handle_typed: "json_typed h (fst (handle decode now (http_server ev appID token) h r d))"
proof (cases h)
  case HCreate
  then show ?thesis
    by (auto simp: handle_def createChallenge_def json_typed_def challenge_typed json_reply_def split: prod.split sum.split)
next
  case HGet
  then show ?thesis
    by (auto simp: handle_def getChallenge_def json_typed_def challenge_typed json_reply_def split: sum.split option.split)
next
  case HLinkVerify
  then show ?thesis using linkVerify_typed by (simp add: handle_def http_server_def)
next
  case HSmtStatus
  then show ?thesis
    by (auto simp: handle_def smtRootStatus_def json_typed_def json_reply_def enforced_types_def has_type_dict smt_status_typed
        split: option.split)
next
  case HCertStatus
  then show ?thesis
    by (auto simp: handle_def issuerCertStatus_def json_typed_def json_reply_def enforced_types_def has_type_dict cert_status_typed
        split: option.split)
next
  case HCleanDB
  then show ?thesis
    by (auto simp: handle_def cleanDB_def json_typed_def json_reply_def deleted_type_def has_type_dict split: prod.split sum.split)
qed

subsection \<open>Properties\<close>

text \<open>C9: Every reply is of the type its route and status promise.  Whatever the request, the database, the
  verifier and the trust anchors are, a request with a route gets a JSON reply whose status and body
  are one of the pairs of \<open>schema\<close> (in a success every reported check matched; a mismatch is answered
  409 with the reason of the first failing check, which reports no match); any other request gets a
  404 or 405 in plain text.\<close>

theorem replies_well_typed:
  "case serve decode now (http_server ev appID token) r d of (reply, d') \<Rightarrow>
     (case route (http_server ev appID token) r of
        Some h \<Rightarrow> re_Headers reply = [''Content-Type'' \<mapsto> ''application/json'']
          \<and> list_ex (has_type (re_Body reply)) (schema h (re_Status reply))
      | None \<Rightarrow> re_Status reply \<in> {404, 405} \<and> (\<exists>msg. re_Body reply = JText msg))"
proof (cases "route (http_server ev appID token) r")
  case None
  then show ?thesis by (auto simp: serve_route text_reply_def Let_def)
next
  case (Some h)
  with handle_typed [of h decode now ev appID token r d] show ?thesis
    by (simp add: serve_route json_typed_def case_prod_unfold)
qed

end
