(* ===== verification/Go_Routines.thy ===== *)
theory Go_Routines
  imports Main
begin

text \<open>
  Goroutines that share a map.  A thread is a sequence of atomic steps: a step updates the map and
  goes on with a thread that may depend on what it found.  A schedule names at each turn the thread
  that moves.  Threads whose steps stay within disjoint parts of the map (\<open>stays\<close>) end, under every
  schedule, with the results and the map they would have if they ran one after the other; and a
  schedule that gives every thread enough turns lets them all end.
\<close>

subsection \<open>Threads\<close>

datatype ('s, 'r) thread = Done 'r | Step "'s \<Rightarrow> 's" "'s \<Rightarrow> ('s, 'r) thread"

primrec run :: "('s, 'r) thread \<Rightarrow> 's \<Rightarrow> 'r \<times> 's" where
  "run (Done r) s = (r, s)"
| "run (Step act k) s = run (k s) (act s)"

text \<open>One thread after the other.\<close>

fun run_all :: "('s, 'r) thread list \<Rightarrow> 's \<Rightarrow> 'r list \<times> 's" where
  "run_all [] s = ([], s)"
| "run_all (t # ts) s =
     (case run t s of (r, s1) \<Rightarrow> case run_all ts s1 of (rs, s2) \<Rightarrow> (r # rs, s2))"

text \<open>All together; a turn given to a thread that has ended passes.\<close>

fun schedule :: "nat list \<Rightarrow> ('s, 'r) thread list \<Rightarrow> 's \<Rightarrow> ('s, 'r) thread list \<times> 's" where
  "schedule [] ts s = (ts, s)"
| "schedule (i # is) ts s =
     (if i < length ts
      then (case ts ! i of
              Done r \<Rightarrow> schedule is ts s
            | Step act k \<Rightarrow> schedule is (ts[i := k s]) (act s))
      else schedule is ts s)"

fun result_of :: "('s, 'r) thread \<Rightarrow> 'r option" where
  "result_of (Done r) = Some r"
| "result_of (Step act k) = None"

subsection \<open>Footprints\<close>

definition agree :: "'k set \<Rightarrow> ('k \<Rightarrow> 'v) \<Rightarrow> ('k \<Rightarrow> 'v) \<Rightarrow> bool" where
  "agree A f g \<longleftrightarrow> (\<forall>x \<in> A. f x = g x)"

lemma agree_refl [simp]: "agree A f f"
  by (simp add: agree_def)

lemma agree_sym: "agree A f g \<Longrightarrow> agree A g f"
  by (simp add: agree_def)

lemma agree_trans: "agree A f g \<Longrightarrow> agree A g h \<Longrightarrow> agree A f h"
  by (simp add: agree_def)

lemma agree_mono: "agree A f g \<Longrightarrow> B \<subseteq> A \<Longrightarrow> agree B f g"
  by (auto simp: agree_def)

primrec stays :: "'k set \<Rightarrow> ('k \<Rightarrow> 'v, 'r) thread \<Rightarrow> bool" where
  "stays A (Done r) \<longleftrightarrow> True"
| "stays A (Step act k) \<longleftrightarrow>
     (\<forall>f. agree (- A) (act f) f)
     \<and> (\<forall>f g. agree A f g \<longrightarrow> agree A (act f) (act g) \<and> k f = k g)
     \<and> (\<forall>f. stays A (k f))"

lemma run_outside: "stays A t \<Longrightarrow> agree (- A) (snd (run t f)) f"
proof (induction t arbitrary: f)
  case (Step act k)
  then have "agree (- A) (snd (run (k f) (act f))) (act f)" "agree (- A) (act f) f" by auto
  then show ?case using agree_trans by simp
qed simp

lemma run_inside:
  "stays A t \<Longrightarrow> agree A f g \<Longrightarrow> fst (run t f) = fst (run t g) \<and> agree A (snd (run t f)) (snd (run t g))"
proof (induction t arbitrary: f g)
  case (Step act k)
  then have k: "k f = k g" "agree A (act f) (act g)" "stays A (k f)" by auto
  from Step.IH [of "k f", OF _ k(3,2)] k(1) show ?case by simp
qed simp

text \<open>Each thread has its own part of the map.\<close>

definition apart :: "'k set list \<Rightarrow> ('k \<Rightarrow> 'v, 'r) thread list \<Rightarrow> bool" where
  "apart As ts \<longleftrightarrow> length As = length ts \<and> (\<forall>i < length ts. stays (As ! i) (ts ! i))
     \<and> (\<forall>i < length ts. \<forall>j < length ts. i \<noteq> j \<longrightarrow> As ! i \<inter> As ! j = {})"

lemma apart_step:
  assumes "apart As ts" "i < length ts" "ts ! i = Step act k"
  shows "apart As (ts[i := k f])"
proof -
  have "stays (As ! i) (Step act k)" using assms unfolding apart_def by metis
  then have "stays (As ! i) (k f)" by simp
  with assms(1,2) show ?thesis unfolding apart_def
    by (auto simp: nth_list_update)
qed

text \<open>
  What the threads will deliver does not depend on who moves: \<open>outcome i\<close> is the result of thread i
  and its part of the map, run from here on its own.
\<close>

lemma step_outcome:
  assumes "apart As ts" "i < length ts" "ts ! i = Step act k" "j < length ts"
  shows "fst (run (ts[i := k f] ! j) (act f)) = fst (run (ts ! j) f)
    \<and> agree (As ! j) (snd (run (ts[i := k f] ! j) (act f))) (snd (run (ts ! j) f))"
proof (cases "i = j")
  case True
  with assms show ?thesis by simp
next
  case False
  have "stays (As ! i) (Step act k)" using assms(1-3) unfolding apart_def by metis
  then have "agree (- (As ! i)) (act f) f" by simp
  moreover have "As ! j \<subseteq> - (As ! i)" using assms(1,2,4) False unfolding apart_def by fastforce
  ultimately have "agree (As ! j) (act f) f" by (rule agree_mono)
  moreover have "stays (As ! j) (ts ! j)" using assms(1,4) by (simp add: apart_def)
  ultimately show ?thesis using run_inside [of "As ! j" "ts ! j" "act f" f] False by simp
qed

lemma schedule_outcome:
  assumes "schedule is ts f = (ts', f')" "apart As ts"
  shows "length ts' = length ts
    \<and> (\<forall>j < length ts. fst (run (ts' ! j) f') = fst (run (ts ! j) f)
          \<and> agree (As ! j) (snd (run (ts' ! j) f')) (snd (run (ts ! j) f)))
    \<and> agree (- \<Union> (set As)) f' f"
  using assms
proof (induction "is" ts f rule: schedule.induct)
  case (1 ts f)
  then show ?case by simp
next
  case (2 i "is" ts f)
  show ?case
  proof (cases "i < length ts \<and> (\<exists>act k. ts ! i = Step act k)")
    case True
    then obtain act k where i: "i < length ts" "ts ! i = Step act k" by blast
    with 2(4) have s: "schedule is (ts[i := k f]) (act f) = (ts', f')" by simp
    have ap: "apart As (ts[i := k f])" by (rule apart_step [OF 2(5) i])
    note ih = 2(2) [OF i s ap]
    have "stays (As ! i) (Step act k)" using 2(5) i unfolding apart_def by metis
    then have o: "agree (- (As ! i)) (act f) f" by simp
    have "As ! i \<in> set As" using 2(5) i(1) by (simp add: apart_def)
    then have "agree (- \<Union> (set As)) (act f) f" using agree_mono [OF o] by blast
    moreover have "agree (- \<Union> (set As)) f' (act f)" using ih by simp
    ultimately have out: "agree (- \<Union> (set As)) f' f" using agree_trans by blast
    have "fst (run (ts' ! j) f') = fst (run (ts ! j) f) \<and> agree (As ! j) (snd (run (ts' ! j) f')) (snd (run (ts ! j) f))"
      if j: "j < length ts" for j
    proof -
      have "fst (run (ts' ! j) f') = fst (run (ts[i := k f] ! j) (act f))
        \<and> agree (As ! j) (snd (run (ts' ! j) f')) (snd (run (ts[i := k f] ! j) (act f)))"
        using ih j by simp
      with step_outcome [OF 2(5) i j, of f] show ?thesis using agree_trans by metis
    qed
    with ih out show ?thesis by simp
  next
    case False
    then have s: "schedule is ts f = (ts', f')" using 2(4) by (auto split: thread.splits if_splits)
    show ?thesis
    proof (cases "i < length ts")
      case True
      with False obtain r where "ts ! i = Done r" by (cases "ts ! i") auto
      from 2(1) [OF True this s 2(5)] show ?thesis .
    next
      case f: False
      from 2(3) [OF f s 2(5)] show ?thesis .
    qed
  qed
qed

subsection \<open>Schedules do not matter\<close>

lemma run_all_outcome:
  assumes "run_all ts f = (rs, f')" "apart As ts"
  shows "length rs = length ts
    \<and> (\<forall>j < length ts. rs ! j = fst (run (ts ! j) f) \<and> agree (As ! j) f' (snd (run (ts ! j) f)))
    \<and> agree (- \<Union> (set As)) f' f"
  using assms
proof (induction ts arbitrary: As f rs f')
  case Nil
  then show ?case by simp
next
  case (Cons t ts)
  from Cons.prems(2) obtain A Bs where As: "As = A # Bs" by (cases As) (auto simp: apart_def)
  obtain r f1 where t: "run t f = (r, f1)" by fastforce
  obtain qs f2 where q: "run_all ts f1 = (qs, f2)" by fastforce
  have rs: "rs = r # qs" "f' = f2" using Cons.prems(1) t q by simp_all
  have st: "stays A t" using Cons.prems(2) As by (auto simp: apart_def)
  note p = Cons.prems(2) [unfolded As apart_def]
  have ap: "apart Bs ts"
    unfolding apart_def
  proof (intro conjI allI impI)
    show "length Bs = length ts" using p by simp
    show "stays (Bs ! i) (ts ! i)" if "i < length ts" for i
      using p [THEN conjunct2, THEN conjunct1, THEN spec, of "Suc i"] that by simp
    show "Bs ! i \<inter> Bs ! j = {}" if "i < length ts" "j < length ts" "i \<noteq> j" for i j
      using p [THEN conjunct2, THEN conjunct2, THEN spec, of "Suc i", THEN mp, THEN spec, of "Suc j"] that by simp
  qed
  have disj: "A \<inter> Bs ! j = {}" if "j < length ts" for j
    using Cons.prems(2) that unfolding As apart_def by fastforce
  note ih = Cons.IH [OF q ap]
  have o1: "agree (- A) f1 f" using run_outside [OF st, of f] t by simp
  have "A \<subseteq> - \<Union> (set Bs)"
    using disj ap unfolding apart_def in_set_conv_nth by (auto simp: in_set_conv_nth disjoint_iff)
  then have "agree A f2 f1" using ih agree_mono by blast
  then have here: "agree A f' (snd (run t f))" using t rs by simp
  have there: "qs ! j = fst (run (ts ! j) f) \<and> agree (Bs ! j) f2 (snd (run (ts ! j) f))" if j: "j < length ts" for j
  proof -
    have "Bs ! j \<subseteq> - A" using disj [OF j] by blast
    with o1 have "agree (Bs ! j) f1 f" using agree_mono by blast
    moreover have "stays (Bs ! j) (ts ! j)" using ap j by (simp add: apart_def)
    ultimately have "fst (run (ts ! j) f1) = fst (run (ts ! j) f)
      \<and> agree (Bs ! j) (snd (run (ts ! j) f1)) (snd (run (ts ! j) f))" using run_inside by blast
    with ih j show ?thesis using agree_trans by metis
  qed
  have "agree (- \<Union> (set As)) f' f"
    using ih o1 rs unfolding As agree_def by simp
  moreover have "rs ! j = fst (run ((t # ts) ! j) f) \<and> agree (As ! j) f' (snd (run ((t # ts) ! j) f))"
    if "j < length (t # ts)" for j
    using that here there [of "j - 1"] t rs As by (cases j) auto
  ultimately show ?case using ih rs by simp
qed

lemma schedule_run_all:
  assumes "schedule is ts f = (ts', f')" "apart As ts" "\<forall>t \<in> set ts'. result_of t \<noteq> None"
  shows "run_all ts f = (map (the \<circ> result_of) ts', f')"
proof -
  obtain rs f2 where r: "run_all ts f = (rs, f2)" by fastforce
  note a = schedule_outcome [OF assms(1,2)] and b = run_all_outcome [OF r assms(2)]
  have d: "run (ts' ! j) f' = (the (result_of (ts' ! j)), f')" if "j < length ts" for j
  proof -
    have "ts' ! j \<in> set ts'" using a that by simp
    with assms(3) show ?thesis by (cases "ts' ! j") auto
  qed
  have "rs = map (the \<circ> result_of) ts'"
    using a b d by (intro nth_equalityI) auto
  moreover have "f2 = f'"
  proof
    fix x
    show "f2 x = f' x"
    proof (cases "x \<in> \<Union> (set As)")
      case True
      then obtain j where j: "j < length ts" "x \<in> As ! j"
        using assms(2) by (auto simp: apart_def in_set_conv_nth)
      have "agree (As ! j) f' (snd (run (ts ! j) f))" using a d [OF j(1)] j(1) by auto
      moreover have "agree (As ! j) f2 (snd (run (ts ! j) f))" using b j(1) by blast
      ultimately show ?thesis using j(2) by (simp add: agree_def)
    next
      case False
      with a b show ?thesis by (simp add: agree_def)
    qed
  qed
  ultimately show ?thesis using r by simp
qed

subsection \<open>Schedules that are long enough\<close>

primrec within :: "('s, 'r) thread \<Rightarrow> nat \<Rightarrow> bool" where
  "within (Done r) n \<longleftrightarrow> True"
| "within (Step act k) n \<longleftrightarrow> 0 < n \<and> (\<forall>s. within (k s) (n - 1))"

lemma schedule_ends:
  assumes "\<forall>i < length ts. within (ts ! i) (count_list is i)"
  shows "\<forall>t \<in> set (fst (schedule is ts s)). result_of t \<noteq> None"
  using assms
proof (induction "is" ts s rule: schedule.induct)
  case (1 ts s)
  show ?case
  proof
    fix t assume "t \<in> set (fst (schedule [] ts s))"
    then obtain i where "i < length ts" "t = ts ! i" by (auto simp: in_set_conv_nth)
    with 1 have "within t 0" by auto
    then show "result_of t \<noteq> None" by (cases t) auto
  qed
next
  case (2 i "is" ts s)
  show ?case
  proof (cases "i < length ts \<and> (\<exists>act k. ts ! i = Step act k)")
    case True
    then obtain act k where i: "i < length ts" "ts ! i = Step act k" by blast
    have "within (ts[i := k s] ! j) (count_list is j)" if "j < length (ts[i := k s])" for j
      using 2(4) [rule_format, of j] that i by (cases "i = j") auto
    then have "\<forall>j < length (ts[i := k s]). within (ts[i := k s] ! j) (count_list is j)" by blast
    from 2(2) [OF i this] i show ?thesis by simp
  next
    case False
    have w: "within (ts ! j) (count_list is j)" if "j < length ts" for j
    proof (cases "i = j")
      case True
      with False that have "\<exists>r. ts ! j = Done r" by (cases "ts ! j") auto
      then show ?thesis by auto
    next
      case ne: False
      with 2(4) [rule_format, OF that] show ?thesis by simp
    qed
    then have w: "\<forall>j < length ts. within (ts ! j) (count_list is j)" by blast
    show ?thesis
    proof (cases "i < length ts")
      case True
      with False obtain r where r: "ts ! i = Done r" by (cases "ts ! i") auto
      from 2(1) [OF True r w] True r show ?thesis by simp
    next
      case f: False
      from 2(3) [OF f w] f show ?thesis by simp
    qed
  qed
qed

end
