(* ===== verification/Key_Threads.thy ===== *)
theory Key_Threads
  imports Key_Manager Go_Routines
begin

text \<open>
  The goroutines of \<open>EnsureKeys\<close>, which run together: one thread per key, whose steps are its accesses
  to the directory.  \<open>EnsureKeys_concurrent\<close> runs them under a schedule and returns, as
  \<open>wg.Wait\<close> does, when all have ended.  Their footprints are disjoint, so the schedule does not matter
  and \<open>EnsureKeys\<close>, which runs them one after the other, gives the same.
\<close>

subsection \<open>Threads\<close>

text \<open>What follows the copy into the temporary file: closing, the checksum, the rename.\<close>

definition download_finish ::
  "(byte list \<Rightarrow> byte list) \<Rightarrow> key_env \<Rightarrow> string \<Rightarrow> string \<Rightarrow> string \<Rightarrow> byte list result \<Rightarrow> byte list \<Rightarrow> files
    \<Rightarrow> err option \<times> files" where
  "download_finish sha en key dest tmpFile r written files =
     (case r of
        Inl e \<Rightarrow>
          (Some (if err_is e ErrTruncated
                 then Errorf ''decompressed %s exceeds %d byte cap'' [key, nat_string 10 maxKeySize]
                 else Wrapf ''decompress %s: %w'' [key] e), remove_tmp en tmpFile files)
      | Inr data \<Rightarrow>
     (case ke_close en of
        Some e \<Rightarrow> (Some (Wrapf ''close %s: %w'' [tmpFile] e), remove_tmp en tmpFile files)
      | None \<Rightarrow>
          let err = compareHash key (EncodeToString (sha data)) in
          if err \<noteq> None \<and> \<not> err_is (the err) ErrSkipVerify
          then (err, remove_tmp en tmpFile files)
          else (case ke_rename en of
                  Some e \<Rightarrow> (Some (Wrapf ''rename %s: %w'' [key] e), remove_tmp en tmpFile files)
                | None \<Rightarrow> (None, files(tmpFile := None, dest \<mapsto> written)))))"

definition download_thread ::
  "(byte list \<Rightarrow> byte list) \<Rightarrow> key_env \<Rightarrow> string \<Rightarrow> string \<Rightarrow> (files, err option) thread" where
  "download_thread sha en key dest =
     (let url = releaseURL @ ''/'' @ key @ ''.gz'' in
      case ke_get en of
        Inl e \<Rightarrow> Done (Some (Wrapf ''GET %s: %w'' [url] e))
      | Inr status \<Rightarrow>
          if status \<noteq> 200 then Done (Some (Errorf ''GET %s: status %d'' [url, nat_string 10 status]))
          else
     (case ke_gzip en of
        Inl e \<Rightarrow> Done (Some (Wrapf ''gzip reader: %w'' [] e))
      | Inr gz \<Rightarrow>
     (case ke_temp en of
        Inl e \<Rightarrow> Done (Some (Wrapf ''create tmp for %s: %w'' [key] e))
      | Inr tmpFile \<Rightarrow>
     (case writeBoundedAndHash (ke_write en) gz maxKeySize of
        (r, written) \<Rightarrow>
          Step (\<lambda>files. files(tmpFile \<mapsto> [])) (\<lambda>_.
          Step (\<lambda>files. files(tmpFile \<mapsto> written)) (\<lambda>_.
          Step (\<lambda>files. snd (download_finish sha en key dest tmpFile r written files))
            (\<lambda>files. Done (fst (download_finish sha en key dest tmpFile r written files)))))))))"

definition ensure_thread ::
  "(byte list \<Rightarrow> byte list) \<Rightarrow> key_env \<Rightarrow> string \<Rightarrow> string \<Rightarrow> (files, err option) thread" where
  "ensure_thread sha en key dest =
     Step (\<lambda>files. files) (\<lambda>files.
       if ke_stat en = None \<and> files dest \<noteq> None
       then (case verifyFile sha en key dest files of
               None \<Rightarrow> Done None
             | Some e \<Rightarrow>
                 if err_is e ErrSkipVerify then Done None
                 else (case ke_remove en of
                         None \<Rightarrow> Step (\<lambda>files. files(dest := None)) (\<lambda>_. download_thread sha en key dest)
                       | Some rmErr \<Rightarrow>
                           if \<not> err_is rmErr ErrNotExist
                           then Done (Some (Wrapf ''remove stale %s: %w'' [key] rmErr))
                           else download_thread sha en key dest))
       else download_thread sha en key dest)"

definition key_threads ::
  "(byte list \<Rightarrow> byte list) \<Rightarrow> (string \<Rightarrow> key_env) \<Rightarrow> string \<Rightarrow> string list \<Rightarrow> (files, err option) thread list" where
  "key_threads sha envs keysDir keys =
     map (\<lambda>key. ensure_thread sha (envs key) key (key_path keysDir key)) keys"

definition key_error :: "string \<Rightarrow> err option \<Rightarrow> err option" where
  "key_error key e = map_option (Wrapf ''ensure %s: %w'' [key]) e"

definition EnsureKeys_concurrent ::
  "(byte list \<Rightarrow> byte list) \<Rightarrow> (string \<Rightarrow> key_env) \<Rightarrow> err option \<Rightarrow> string \<Rightarrow> nat list \<Rightarrow> files
    \<Rightarrow> (err option \<times> files) option" where
  "EnsureKeys_concurrent sha envs mkdir keysDir picks files =
     (case mkdir of
        Some e \<Rightarrow> Some (Some (Wrapf ''create keys dir: %w'' [] e), files)
      | None \<Rightarrow>
          (case schedule picks (key_threads sha envs keysDir RequiredKeys) files of
             (ts, files') \<Rightarrow>
               if \<forall>t \<in> set ts. result_of t \<noteq> None
               then Some (errors_Join (map2 key_error RequiredKeys (map (the \<circ> result_of) ts)), files')
               else None))"

subsection \<open>A thread on its own is ensureOne\<close>

lemma run_download_thread:
  "run (download_thread sha en key dest) files = downloadAndDecompress sha en key dest files"
  by (simp add: download_thread_def downloadAndDecompress_def download_finish_def Let_def
      split: sum.split prod.split option.split)

lemma run_ensure_thread: "run (ensure_thread sha en key dest) files = ensureOne sha en key dest files"
  by (simp add: ensure_thread_def ensureOne_def run_download_thread split: option.split)

lemma run_key_threads:
  assumes "run_all (key_threads sha envs keysDir keys) files = (es, files')" "distinct keys"
  shows "length es = length keys
    \<and> (\<exists>errs'. ensure_all sha envs keysDir keys errs files = (errs', files')
        \<and> map errs' keys = map2 key_error keys es \<and> (\<forall>k. k \<notin> set keys \<longrightarrow> errs' k = errs k))"
  using assms
proof (induction keys arbitrary: files es errs)
  case Nil
  then show ?case by (simp add: key_threads_def)
next
  case (Cons key keys)
  obtain e f1 where o: "ensureOne sha (envs key) key (key_path keysDir key) files = (e, f1)" by fastforce
  obtain es' f2 where r: "run_all (key_threads sha envs keysDir keys) f1 = (es', f2)" by fastforce
  have eq: "es = e # es'" "f2 = files'"
    using Cons.prems(1) o r by (simp_all add: key_threads_def run_ensure_thread)
  have d: "distinct keys" "key \<notin> set keys" using Cons.prems(2) by simp_all
  from Cons.IH [OF r [unfolded eq(2)] d(1), of "errs(key := key_error key e)"] obtain errs' where
    i: "length es' = length keys"
      "ensure_all sha envs keysDir keys (errs(key := key_error key e)) f1 = (errs', files')"
      "map errs' keys = map2 key_error keys es'" "\<forall>k. k \<notin> set keys \<longrightarrow> errs' k = (errs(key := key_error key e)) k"
    by blast
  have "ensure_all sha envs keysDir (key # keys) errs files = (errs', files')"
    using o i(2) by (simp add: key_error_def)
  moreover have "errs' key = key_error key e" using i(4) d(2) by simp
  ultimately show ?case using i eq(1) by (auto intro!: exI [of _ errs'])
qed

subsection \<open>Footprints\<close>

definition footprint :: "key_env \<Rightarrow> string \<Rightarrow> string set" where
  "footprint en dest = insert dest (case ke_temp en of Inl e \<Rightarrow> {} | Inr tmp \<Rightarrow> {tmp})"

lemma footprint_self [simp]: "dest \<in> footprint en dest"
  by (simp add: footprint_def)

lemma agree_upd: "agree A f g \<Longrightarrow> agree A (f(x := v)) (g(x := v))"
  by (simp add: agree_def)

lemma agree_outside: "x \<in> A \<Longrightarrow> agree (- A) (f(x := v)) f"
  by (auto simp: agree_def)

lemma remove_tmp_local:
  "tmp \<in> A \<Longrightarrow> agree (- A) (remove_tmp en tmp f) f"
  "agree A f g \<Longrightarrow> agree A (remove_tmp en tmp f) (remove_tmp en tmp g)"
  by (auto simp: remove_tmp_def agree_upd agree_outside)

lemma download_finish_local:
  assumes "tmp \<in> A" "dest \<in> A"
  shows "agree (- A) (snd (download_finish sha en key dest tmp r w f)) f"
    and "agree A f g \<Longrightarrow> agree A (snd (download_finish sha en key dest tmp r w f)) (snd (download_finish sha en key dest tmp r w g))
      \<and> fst (download_finish sha en key dest tmp r w f) = fst (download_finish sha en key dest tmp r w g)"
proof -
  have two: "agree (- A) (f(tmp := None, dest \<mapsto> w)) f"
    using assms by (auto simp: agree_def)
  show "agree (- A) (snd (download_finish sha en key dest tmp r w f)) f"
    using two remove_tmp_local(1) [OF assms(1)]
    by (simp add: download_finish_def Let_def split: sum.split option.split)
  show "agree A (snd (download_finish sha en key dest tmp r w f)) (snd (download_finish sha en key dest tmp r w g))
      \<and> fst (download_finish sha en key dest tmp r w f) = fst (download_finish sha en key dest tmp r w g)"
    if "agree A f g"
    using that by (simp add: download_finish_def Let_def agree_upd remove_tmp_local(2) split: sum.split option.split)
qed

lemma stays_download: "stays (footprint en dest) (download_thread sha en key dest)"
proof (cases "ke_temp en")
  case (Inl e)
  then show ?thesis by (simp add: download_thread_def Let_def split: sum.split)
next
  case (Inr tmp)
  then have m: "tmp \<in> footprint en dest" by (simp add: footprint_def)
  note fin = download_finish_local [OF m footprint_self]
  show ?thesis
    using Inr m fin by (auto simp: download_thread_def Let_def agree_upd agree_outside split: sum.split prod.split)
qed

lemma stays_ensure: "stays (footprint en dest) (ensure_thread sha en key dest)"
proof -
  define k where "k files =
      (if ke_stat en = None \<and> files dest \<noteq> None
       then (case verifyFile sha en key dest files of
               None \<Rightarrow> Done None
             | Some e \<Rightarrow>
                 if err_is e ErrSkipVerify then Done None
                 else (case ke_remove en of
                         None \<Rightarrow> Step (\<lambda>files. files(dest := None)) (\<lambda>_. download_thread sha en key dest)
                       | Some rmErr \<Rightarrow>
                           if \<not> err_is rmErr ErrNotExist
                           then Done (Some (Wrapf ''remove stale %s: %w'' [key] rmErr))
                           else download_thread sha en key dest))
       else download_thread sha en key dest)" for files
  have "k f = k g" if a: "agree (footprint en dest) f g" for f g
  proof -
    have d: "f dest = g dest" using a footprint_self unfolding agree_def by blast
    then have "verifyFile sha en key dest f = verifyFile sha en key dest g"
      unfolding verifyFile_def by (simp only:)
    with d show ?thesis by (simp add: k_def)
  qed
  moreover have "stays (footprint en dest) (Step (\<lambda>files. files(dest := None)) (\<lambda>_. download_thread sha en key dest))"
    by (simp add: stays_download agree_upd agree_outside)
  then have "stays (footprint en dest) (k f)" for f
    using stays_download by (auto simp: k_def split: option.split)
  moreover have "ensure_thread sha en key dest = Step (\<lambda>files. files) k"
    by (simp add: ensure_thread_def k_def [abs_def])
  ultimately show ?thesis by simp
qed

text \<open>The temporary files are new and not one of the destinations.\<close>

definition temp_files_new :: "(string \<Rightarrow> key_env) \<Rightarrow> string \<Rightarrow> bool" where
  "temp_files_new envs keysDir \<longleftrightarrow>
     (\<forall>k \<in> set RequiredKeys. \<forall>tmp. ke_temp (envs k) = Inr tmp \<longrightarrow>
        tmp \<notin> key_path keysDir ` set RequiredKeys
        \<and> (\<forall>k' \<in> set RequiredKeys. k' \<noteq> k \<longrightarrow> ke_temp (envs k') \<noteq> Inr tmp))"

lemma distinct_RequiredKeys: "distinct RequiredKeys"
  by (simp add: RequiredKeys_def)

lemma footprints_disjoint:
  assumes "temp_files_new envs keysDir" "k \<in> set RequiredKeys" "k' \<in> set RequiredKeys" "k \<noteq> k'"
  shows "footprint (envs k) (key_path keysDir k) \<inter> footprint (envs k') (key_path keysDir k') = {}"
proof -
  have "key_path keysDir k \<noteq> key_path keysDir k'" using assms(2-4) by (simp add: key_path_inject)
  moreover have "tmp \<notin> key_path keysDir ` set RequiredKeys \<and> ke_temp (envs k') \<noteq> Inr tmp" if "ke_temp (envs k) = Inr tmp" for tmp
    using assms that unfolding temp_files_new_def by blast
  moreover have "tmp \<notin> key_path keysDir ` set RequiredKeys" if "ke_temp (envs k') = Inr tmp" for tmp
    using assms(1,3) that unfolding temp_files_new_def by blast
  ultimately show ?thesis
    using assms(2,3) by (cases "ke_temp (envs k)"; cases "ke_temp (envs k')") (auto simp: footprint_def)
qed

lemma key_threads_apart:
  assumes "temp_files_new envs keysDir"
  shows "apart (map (\<lambda>k. footprint (envs k) (key_path keysDir k)) RequiredKeys) (key_threads sha envs keysDir RequiredKeys)"
  unfolding apart_def key_threads_def
  by (auto simp: stays_ensure footprints_disjoint [OF assms] nth_eq_iff_index_eq [OF distinct_RequiredKeys]
      intro!: footprints_disjoint [OF assms])

text \<open>A thread moves at most five times.\<close>

lemma within_download: "3 \<le> n \<Longrightarrow> within (download_thread sha en key dest) n"
  by (simp add: download_thread_def Let_def split: sum.split prod.split)

lemma within_ensure: "5 \<le> n \<Longrightarrow> within (ensure_thread sha en key dest) n"
  by (simp add: ensure_thread_def within_download split: option.split)

lemma concurrent_result:
  assumes "EnsureKeys_concurrent sha envs mkdir keysDir picks files = Some r" "temp_files_new envs keysDir"
  shows "r = EnsureKeys sha envs mkdir keysDir RequiredKeys files"
proof (cases mkdir)
  case (Some e)
  with assms(1) show ?thesis by (simp add: EnsureKeys_concurrent_def EnsureKeys_def)
next
  case None
  obtain ts files' where s: "schedule picks (key_threads sha envs keysDir RequiredKeys) files = (ts, files')" by fastforce
  with assms(1) None have d: "\<forall>t \<in> set ts. result_of t \<noteq> None"
    and r: "r = (errors_Join (map2 key_error RequiredKeys (map (the \<circ> result_of) ts)), files')"
    by (auto simp: EnsureKeys_concurrent_def split: if_splits)
  from run_key_threads [OF schedule_run_all [OF s key_threads_apart [OF assms(2)] d] distinct_RequiredKeys, of "\<lambda>_. None"]
  obtain errs' where "ensure_all sha envs keysDir RequiredKeys (\<lambda>_. None) files = (errs', files')"
    "map errs' RequiredKeys = map2 key_error RequiredKeys (map (the \<circ> result_of) ts)" by blast
  with r None show ?thesis by (simp add: EnsureKeys_def)
qed

lemma concurrent_returns:
  assumes "\<forall>i < length RequiredKeys. 5 \<le> count_list picks i"
  shows "EnsureKeys_concurrent sha envs mkdir keysDir picks files \<noteq> None"
proof (cases mkdir)
  case None
  obtain ts files' where s: "schedule picks (key_threads sha envs keysDir RequiredKeys) files = (ts, files')" by fastforce
  have "\<forall>i < length (key_threads sha envs keysDir RequiredKeys).
      within (key_threads sha envs keysDir RequiredKeys ! i) (count_list picks i)"
    using assms by (simp add: key_threads_def within_ensure)
  from schedule_ends [OF this, of files] s have "\<forall>t \<in> set ts. result_of t \<noteq> None" by simp
  with None s show ?thesis by (simp add: EnsureKeys_concurrent_def)
qed (simp add: EnsureKeys_concurrent_def)

subsection \<open>Properties\<close>

text \<open>C21: the goroutines of \<open>EnsureKeys\<close> do not interfere: under every schedule of their accesses to the
  directory, if the call returns, it returns the joined error and leaves the directory that running
  them one after the other would; and it returns under every schedule that gives each of the three
  goroutines five turns.\<close>

theorem ensure_keys_schedule_independent:
  assumes "temp_files_new envs keysDir"
  shows "case EnsureKeys_concurrent sha envs mkdir keysDir picks files of
      Some r \<Rightarrow> r = EnsureKeys sha envs mkdir keysDir RequiredKeys files
    | None \<Rightarrow> mkdir = None \<and> \<not> (\<forall>i < 3. 5 \<le> count_list picks i)"
proof (cases "EnsureKeys_concurrent sha envs mkdir keysDir picks files")
  case None
  have l: "length RequiredKeys = 3" by (simp add: RequiredKeys_def)
  from None concurrent_returns [of picks sha envs mkdir keysDir files] have "\<not> (\<forall>i < 3. 5 \<le> count_list picks i)"
    unfolding l by blast
  moreover have "mkdir = None" using None by (cases mkdir) (simp_all add: EnsureKeys_concurrent_def)
  ultimately show ?thesis using None by simp
next
  case (Some r)
  with concurrent_result [OF Some assms] show ?thesis by simp
qed

theorem ensure_keys_schedule_independent_witness:
  "EnsureKeys_concurrent demo_sha demo_key_envs None ''keys'' (concat (replicate 5 [2, 0, 1])) Map.empty
     = Some (EnsureKeys demo_sha demo_key_envs None ''keys'' RequiredKeys Map.empty)"
proof -
  have "temp_files_new demo_key_envs ''keys''"
    by (simp add: temp_files_new_def demo_key_envs_def demo_key_env_def RequiredKeys_def)
  moreover have "\<forall>i < 3. 5 \<le> count_list (concat (replicate 5 [2, 0, 1 :: nat])) i"
    by (simp add: eval_nat_numeral less_Suc_eq)
  ultimately show ?thesis
    using ensure_keys_schedule_independent [where envs = demo_key_envs and keysDir = "''keys''" and sha = demo_sha
        and mkdir = None and picks = "concat (replicate 5 [2, 0, 1])" and files = Map.empty]
    by (auto split: option.splits)
qed

end
