(* ===== verification/Spec2Isabelle.thy ===== *)
theory Spec2Isabelle
  imports Session Server_Log Grpc_Transport Api_Types Key_Threads
begin

text \<open>
  Verification library of the zkID verifier (\<open>go-zkid-verifier\<close>), the server that checks two
  zero-knowledge proofs about a Taiwanese citizen certificate and records each nullifier once.

  \<^bold>\<open>The program.\<close>  A client asks for a challenge, folds it into its user-signature proof, and
  posts both proofs.  \<open>linkverify.Service\<close> has \<open>linkverify.Verifier\<close> stage the proofs in a temporary
  directory and call the Rust library over cgo, cuts the public signals into fields, compares the
  SMT root, the issuer's RSA modulus and the application id with the trust anchors and the
  configuration, looks the challenge up and has the SQLite store mark it consumed and add the
  nullifier in one transaction.  Two providers keep the trust anchors fresh in the background.  The
  same service answers over HTTP and over gRPC; \<open>main\<close> builds all of it from environment variables.

  \<^bold>\<open>Theories and sources.\<close>
  \<^item> \<open>Go_Prelude\<close>, \<open>Go_Strings\<close>, \<open>Go_Path\<close>, \<open>Go_Numerals\<close>, \<open>Go_Quote\<close>, \<open>Go_Time\<close>, \<open>Go_Config\<close>: what the
    program uses of the language and its standard library: error values with \<open>errors.Is\<close> and \<open>Error()\<close>,
    bytes, \<open>strings\<close>, \<open>path/filepath\<close>, \<open>math/big\<close>, \<open>encoding/hex\<close>, UTF-8 and \<open>strconv.Quote\<close>, \<open>time\<close> (the calendar,
    RFC 3339, \<open>ParseDuration\<close> with its \<open>float64\<close> arithmetic).
  \<^item> \<open>Public_Inputs\<close>: \<open>verifier/public_inputs.go\<close> (signal layouts, \<open>NormalizeDecimal\<close>, the packed
    application id).
  \<^item> \<open>Store\<close>, \<open>Store_Spec\<close>: \<open>store/store.go\<close>, \<open>store/sqlite.go\<close>.  The state \<open>db\<close> is the two tables;
    an SQL statement is a function on it that the parameter \<open>sqlite\<close> may make fail; a method is one
    transaction.  The specification is a map of challenges and a set of nullifiers.
  \<^item> \<open>Smt_Root\<close>, \<open>Smt_Sources\<close>: \<open>smtroot/\<close> (roots and their text, the provider and its refresher, the
    GitHub source with its regular expression, the on-chain source).
  \<^item> \<open>Issuer_Limbs\<close>, \<open>Issuer_Cert\<close>, \<open>Issuer_Provider\<close>: \<open>issuercert/\<close> (121-bit limbs, chain
    validation, embedded certificates, HTTPS source, the provider whose refresh runs one goroutine
    per source: every interleaving of their locked steps).
  \<^item> \<open>Link_Verify\<close>, \<open>Link_Service\<close>, \<open>Service_Spec\<close>: \<open>verifier/verifier.go\<close> and \<open>linkverify/\<close> (staging,
    the semaphore, the checks and their verdict, the service).
  \<^item> \<open>Http_Api\<close>, \<open>Grpc_Api\<close>, \<open>Api_Spec\<close>, \<open>Server_Runs\<close>: \<open>httpapi/\<close> and \<open>grpc/server.go\<close>; runs that mix
    requests of both transports.  \<open>Api_Types\<close> holds the types of the HTTP bodies per route and status,
    \<open>Grpc_Transport\<close> the receive cap and the marshalling around the gRPC methods.
  \<^item> \<open>Key_Manager\<close>, \<open>Go_Routines\<close>, \<open>Key_Threads\<close>: \<open>keymanager/keymanager.go\<close>; a directory is a map
    from paths to contents, and the goroutines are threads of atomic steps under any schedule.
  \<^item> \<open>Server_Main\<close>: \<open>cmd/server/main.go\<close>, \<open>cmd/verifier/main.go\<close>, \<open>challenge/challenge.go\<close>.
    \<open>Session\<close>: the two requests of a client with the requests of others in between.
  \<^item> \<open>Smt_Log\<close>, \<open>Cert_Log\<close>, \<open>Verify_Log\<close>, \<open>Server_Log\<close>: \<open>smtroot/log.go\<close> and the events that the two
    refreshers and the checks log, the lines they print as, a reader of such lines, the access log and
    the banner.  A logged operation has the suffix \<open>_logged\<close> and projects to the one without.

  \<^bold>\<open>How the code is represented.\<close>  A struct is a record, an error a value of \<open>err\<close>, a fallible
  function returns \<open>err + 'a\<close>, a method on shared state returns the new state.  Strings are byte
  strings.  \<open>int64\<close> durations and \<open>uint64\<close> sums are written with their bounds; identifiers and
  counters that cannot overflow in practice are \<open>nat\<close> or \<open>int\<close>.  A reading of the clock, a random
  seed, a network answer, a failing system call and the schedule of goroutines are arguments, so every
  theorem holds for all of them.  Parameters stand for code outside the repository: the Rust library
  (\<open>ffi\<close>), SHA-256 and X.509 (\<open>crypto\<close>), Keccak, gzip, the JSON decoder, SQLite (\<open>sqlite\<close>).

  \<^bold>\<open>Interfaces.\<close>  \<open>codec\<close> (an encoder and its decoder), \<open>trust_cache\<close> (a refresh replaces an entry
  only by a valid one and never drops one; provided by both providers, as they are and as deployed),
  \<open>replay_store\<close> (what is accepted was unused and is used afterwards; provided by the store and by
  the service over it) and \<open>proof_verifier\<close> (what the service needs of the verifier).

  \<^bold>\<open>What the lemmas show.\<close>
  \<^item> End to end: what a verified answer of a strictly started server means, from its environment to
    the row it adds (\<open>deployed_verified_answer\<close>); no nullifier is answered as verified twice in any
    run over both transports that does not wipe the tables (\<open>server_no_replay\<close>, below); an honest
    session with the started server succeeds unless others use up its challenge or nullifier or the
    trust anchors change under it (\<open>session_succeeds\<close>); what a persisted request passed;
    the transports agree; only three routes change the store.
  \<^item> Store: transactions are atomic, refine the abstract store, keep the tables' invariant, and
    challenges are canonical numbers drawn uniformly below \<open>2 ^ 254\<close>.
  \<^item> Trust anchors: what each outcome of the sources does, that both or no roots are taken, that
    trust is never lost and never extended beyond the pinned certificates, whatever the schedule;
    that a changed issuer key exhibits a second file with the pinned SHA-256; which parts of the
    status the schedule of a refresh may decide.
  \<^item> Staging: what the Rust verifier reads, and that only an entry that cannot be removed stays behind.
  \<^item> Encodings: round trips of roots, packed ids, release bodies; canonical challenges; limb
    comparison decides equality of moduli.
  \<^item> Keys: what is installed has its pinned hash, also when the call fails; the size cap is exact;
    the goroutines end under every fair schedule and do not interfere.
  \<^item> Start-up: exactly when the server starts, and that it then keeps its trust anchors.
  \<^item> Replies: every HTTP reply has the type its route and status promise; which gRPC answers arrive.
  \<^item> Logs: a line can be read back whatever its values are; the log of a refresh tells exactly which
    trust anchors it replaced, the log of a verification why it failed; where a client can break or
    forge a line.

  \<^bold>\<open>Termination and bounds.\<close>  No definition uses fuel: recursion is structural or has its measure
  (the length of the text that is left in \<open>strip_any\<close> and \<open>duration_loop\<close>, the number itself in
  \<open>digits_of\<close>).  The background loops take the finite list of the events they see.

  \<^bold>\<open>Not modelled.\<close>  The free texts of \<open>log.Printf\<close> other than the access log (output only); the
  listeners, TLS, request cancellation and time-outs of the standard library (a time-out is one of the
  failures a transport may answer with); cleaning of unclean URL paths by the mux and the body of a
  HEAD reply; the generated code of \<open>proto/\<close> and the wire format (the size of a message and whether
  it can be marshalled are parameters); \<open>SQLiteStore.Close\<close>, whose deferred call \<open>main\<close> never reaches
  because it ends in \<open>log.Fatalf\<close>; the Rust library.
  Times are printed in UTC, the zone of the database and of the certificates; the zone of a gRPC time
  stamp of this process is the server's.  SQLite's comparison of texts is equality of byte strings.
\<close>

subsection \<open>Properties of the whole server\<close>

definition demo_env :: "string env" where
  "demo_env = \<lparr>en_lookup = quiet_sqlite 0, en_record = quiet_sqlite 0, en_now1 = 0, en_now2 = 0,
     en_seen = demo_db, en_ttl = 0, en_rand = Inl (Errorf [] []), en_os = demo_os,
     en_ffi = demo_ffi 1 zero_limbs, en_later = (\<lambda>p. p), en_check = 0, en_verifier = demo_verifier,
     en_fs = Map.empty\<rparr>"

definition demo_call :: LinkVerifyMessage where
  "demo_call = \<lparr>gq_Challenge = ''7'', gq_CertChainType = ''rs2048'', gq_CertChainProof = [1, 2], gq_UserSigProof = [3]\<rparr>"

lemma demo_call_accepted:
  "api_exec appID token (GrpcVerify demo_env demo_call) demo_db
     = (Some ''n'', with_verification (quiet_sqlite 0) ''n'' ''7'' None ''link_rs2048'' demo_db)"
proof -
  have rq: "\<lparr>rq_CertChainProof = [1, 2], rq_UserSigProof = [3], rq_ProofType = ProofTypeRS2048\<rparr> = demo_request"
    by (simp add: demo_request_def)
  have "env_service demo_env demo_request demo_db =
      ((Some \<lparr>p_Result = demo_verified\<lparr>r_Challenge := Some \<lparr>co_Match = True, co_Expected = ''7'', co_Observed = ''7''\<rparr>\<rparr>,
               p_Nullifier = ''n'', p_Persisted = True\<rparr>, None),
        with_verification (quiet_sqlite 0) ''n'' ''7'' None ''link_rs2048'' demo_db)"
    by (simp add: env_service_def demo_env_def demo_verifier_verified demo_service)
  moreover have "ParseProofType ''rs2048'' = Inr ProofTypeRS2048" by (simp add: ParseProofType_def ProofTypeRS2048_def)
  ultimately show ?thesis
    by (simp add: grpc_LinkVerify_def grpc_server_def NewServer_def demo_call_def rq verify_response_def
        demo_verified_def new_result_def)
qed

text \<open>C2: no replay through the server.  In any run of HTTP and gRPC requests on any reachable tables,
  whatever the bodies, clocks, seeds, stale lookups, trust anchors, verifier answers and failures of
  the engine are, the nullifiers answered as verified are distinct, none was registered before, and
  the verifications table gains exactly them, in order.  The run may call the debug endpoint, only not
  with the configured token, which wipes the tables.\<close>

theorem server_no_replay:
  assumes "db_reachable d" and "\<forall>x \<in> set xs. \<not> wipes token x"
    and "run_accepted (api_exec appID token) xs d = (ns, d')"
  shows "distinct ns \<and> (\<forall>n \<in> set ns. \<not> spent d n)
    \<and> map vr_nullifier (verifications d') = map vr_nullifier (verifications d) @ ns"
proof -
  obtain ys as where ys: "run_accepted svc_exec ys d = (as, d')" "ns = map fst as"
    using api_run [OF assms(2), where d = d and appID = appID] assms(3) by auto
  have "map fst (log_of d') = map fst (log_of d) @ map fst as" using svc_run_log [OF ys(1)] by simp
  then have "map vr_nullifier (verifications d') = map vr_nullifier (verifications d) @ ns"
    by (simp add: log_of_def ys(2) comp_def)
  with link_service.run_spec [OF conjunct1 [OF db_reachable_inv [OF assms(1)]] _ ys(1)] ys(2) show ?thesis
    by simp
qed

text \<open>An attempt to wipe the tables with a wrong token, between two replays.\<close>

definition demo_wipe :: request where
  "demo_wipe = \<lparr>hq_Method = ''POST'', hq_Path = [''debug'', ''db'', ''clean''],
     hq_Header = [''Authorization'' \<mapsto> ''Bearer guess''], hq_Body = []\<rparr>"

theorem server_no_replay_witness:
  "\<exists>ns d'. run_accepted (api_exec ''app'' ''secret'')
      [GrpcVerify demo_env demo_call, Http demo_env (\<lambda>_ _. None) 0 demo_wipe, GrpcVerify demo_env demo_call] demo_db = (ns, d')
    \<and> ''n'' \<in> set ns \<and> distinct ns \<and> map vr_nullifier (verifications d') = ns"
proof -
  let ?xs = "[GrpcVerify demo_env demo_call, Http demo_env (\<lambda>_ _. None) 0 demo_wipe, GrpcVerify demo_env demo_call]"
  have w: "\<forall>x \<in> set ?xs. \<not> wipes ''secret'' x"
    by (simp add: demo_wipe_def validDebugToken_def ConstantTimeCompare_def HasPrefix_def)
  obtain ns d' where r: "run_accepted (api_exec ''app'' ''secret'') ?xs demo_db = (ns, d')" by fastforce
  then have "''n'' \<in> set ns"
    by (simp only: run_accepted.simps demo_call_accepted) (auto split: prod.splits option.splits)
  with server_no_replay [OF demo_db_reachable w r] r show ?thesis by (simp add: demo_db_def)
qed

end
